(* ===== verification/Prelude.thy ===== *)
theory Prelude
  imports Main "HOL-Library.Word"
begin

unbundle bit_operations_syntax

text \<open>
  Shared vocabulary of the development: the C types, faults as values, the
  one loop combinator with its rules, byte arrays and C strings, decimal
  formatting. Nothing here belongs to one component.
\<close>

section \<open>Types\<close>

text \<open>
  \<open>size_t\<close> values are kept as \<open>nat\<close>; where the code subtracts two of them the
  32-bit wrap-around is written out (\<open>size_sub\<close>). Fixed-width integers are words.
\<close>

type_synonym u8 = "8 word"
type_synonym u16 = "16 word"
type_synonym u32 = "32 word"
type_synonym dev = nat

text \<open>
  What the C program may run into and C does not define: a write or a read outside
  an object, a read of an object nothing has been written to, a failed
  \<^verbatim>\<open>__ASSERT\<close>, and \<^verbatim>\<open>exit\<close>.
\<close>

datatype fault = OOB_write | OOB_read | Uninit_read | Assert_failed | Exited int

type_synonym 'a checked = "fault + 'a"

text \<open>\<open>None\<close> is a computation that does not return.\<close>

type_synonym 'a outcome = "'a checked option"

named_theorems mem_simps
named_theorems contract_defs

section \<open>Sequencing\<close>

definition sbind :: "'a checked \<Rightarrow> ('a \<Rightarrow> 'b checked) \<Rightarrow> 'b checked" where
  "sbind m f = (case m of Inl e \<Rightarrow> Inl e | Inr x \<Rightarrow> f x)"

lemma sbind_simps [simp]:
  "sbind (Inl e) f = Inl e"
  "sbind (Inr x) f = f x"
  by (simp_all add: sbind_def)

lemma sbind_eq_Inr: "sbind m f = Inr y \<longleftrightarrow> (\<exists>x. m = Inr x \<and> f x = Inr y)"
  by (cases m) auto

definition obind :: "'a outcome \<Rightarrow> ('a \<Rightarrow> 'b outcome) \<Rightarrow> 'b outcome" where
  "obind m f = Option.bind m (\<lambda>r. case r of Inl e \<Rightarrow> Some (Inl e) | Inr x \<Rightarrow> f x)"

lemma obind_simps [simp]:
  "obind None f = None"
  "obind (Some (Inl e)) f = Some (Inl e)"
  "obind (Some (Inr x)) f = f x"
  by (simp_all add: obind_def)

lemma obind_eq_Inr: "obind m f = Some (Inr y) \<longleftrightarrow> (\<exists>x. m = Some (Inr x) \<and> f x = Some (Inr y))"
  by (cases m) (auto simp: obind_def split: sum.splits)

lemma obind_mono [partial_function_mono]:
  assumes "mono_option B" and "\<And>x. mono_option (\<lambda>f. C x f)"
  shows "mono_option (\<lambda>f. obind (B f) (\<lambda>x. C x f))"
  unfolding obind_def
proof (rule bind_mono [OF assms(1)])
  fix y :: "'c checked"
  show "mono_option (\<lambda>f. case y of Inl e \<Rightarrow> Some (Inl e) | Inr x \<Rightarrow> C x f)"
    by (cases y) (simp_all add: assms(2) option.const_mono)
qed

text \<open>Operations on one state, one after the other.\<close>

definition in_turn :: "('s \<Rightarrow> 's) list \<Rightarrow> 's \<Rightarrow> 's" where
  "in_turn fs s = fold (\<lambda>f. f) fs s"

lemma in_turn_simps [simp]:
  "in_turn [] s = s" "in_turn (f # fs) s = in_turn fs (f s)" "in_turn (fs @ gs) s = in_turn gs (in_turn fs s)"
  by (simp_all add: in_turn_def)

lemma fold_ignore [simp]: "fold (\<lambda>e a. a) xs a = a"
  by (induction xs) simp_all

section \<open>Loops\<close>

text \<open>
  C's \<open>while (guard) body\<close>, where evaluating the guard may change the state. A fault
  of the body ends the loop; a loop that never ends is \<open>None\<close>.
\<close>

partial_function (option) whileM ::
    "('s \<Rightarrow> bool \<times> 's) \<Rightarrow> ('s \<Rightarrow> 's outcome) \<Rightarrow> 's \<Rightarrow> 's outcome" where
  "whileM g b s =
     (if fst (g s) then obind (b (snd (g s))) (whileM g b) else Some (Inr (snd (g s))))"

declare whileM.simps [code]

lemma whileM_stop: "g s = (False, s1) \<Longrightarrow> whileM g b s = Some (Inr s1)"
  by (subst whileM.simps) simp

lemma whileM_go: "g s = (True, s1) \<Longrightarrow> whileM g b s = obind (b s1) (whileM g b)"
  by (subst whileM.simps) simp

lemma whileM_step:
  "g s = (True, s1) \<Longrightarrow> b s1 = Some (Inr s2) \<Longrightarrow> whileM g b s = whileM g b s2"
  by (simp add: whileM_go)

lemma whileM_fault:
  "g s = (True, s1) \<Longrightarrow> b s1 = Some (Inl e) \<Longrightarrow> whileM g b s = Some (Inl e)"
  by (simp add: whileM_go)

text \<open>Total correctness: an invariant, and a measure every pass decreases.\<close>

lemma whileM_total:
  fixes m :: "'s \<Rightarrow> nat"
  assumes "P s"
    and step: "\<And>s s1. P s \<Longrightarrow> g s = (True, s1) \<Longrightarrow>
          \<exists>s2. b s1 = Some (Inr s2) \<and> P s2 \<and> m s2 < m s"
    and stop: "\<And>s s1. P s \<Longrightarrow> g s = (False, s1) \<Longrightarrow> Q s1"
  shows "\<exists>s'. whileM g b s = Some (Inr s') \<and> Q s'"
  using \<open>P s\<close>
proof (induction "m s" arbitrary: s rule: less_induct)
  case less
  obtain go s1 where g: "g s = (go, s1)" by (cases "g s")
  show ?case
  proof (cases go)
    case True
    with g less.prems obtain s2 where "b s1 = Some (Inr s2)" "P s2" "m s2 < m s"
      using step [of s s1] by auto
    with g True less.hyps [of s2] show ?thesis by (simp add: whileM_step)
  next
    case False
    with g less.prems stop show ?thesis by (simp add: whileM_stop)
  qed
qed

text \<open>
  Draining: a loop whose passes each consume one element of an input \<open>inp s\<close> and move
  what is observed, \<open>obs s\<close>, by \<open>f\<close>. It returns, the input is used up, and the abstraction
  has been folded over it.
\<close>

lemma whileM_drain:
  assumes "P s"
    and stop: "\<And>s. P s \<Longrightarrow> inp s = [] \<Longrightarrow>
          \<exists>s1. g s = (False, s1) \<and> P s1 \<and> inp s1 = [] \<and> obs s1 = obs s"
    and step: "\<And>s c cs. P s \<Longrightarrow> inp s = c # cs \<Longrightarrow>
          \<exists>s1 s2. g s = (True, s1) \<and> b s1 = Some (Inr s2) \<and> P s2 \<and> inp s2 = cs
             \<and> obs s2 = f c (obs s)"
  shows "\<exists>s'. whileM g b s = Some (Inr s') \<and> P s' \<and> inp s' = []
           \<and> obs s' = fold f (inp s) (obs s)"
  using \<open>P s\<close>
proof (induction "inp s" arbitrary: s)
  case Nil
  with stop [of s] show ?case by (metis whileM_stop fold_simps(1))
next
  case (Cons c cs)
  from step [OF Cons.prems Cons.hyps(2) [symmetric]] obtain s1 s2
    where s: "g s = (True, s1)" "b s1 = Some (Inr s2)" "P s2" "inp s2 = cs"
      "obs s2 = f c (obs s)" by blast
  from Cons.hyps(1) [of s2] s obtain s' where
    "whileM g b s2 = Some (Inr s')" "P s'" "inp s' = []"
    "obs s' = fold f cs (obs s2)" by auto
  with s show ?case by (simp add: whileM_step Cons.hyps(2) [symmetric])
qed

text \<open>A fault behind a prefix of the input that is consumed without one.\<close>

lemma whileM_fault_after:
  assumes "P xs s"
    and step: "\<And>x xs s. P (x # xs) s \<Longrightarrow> \<exists>s1 s2. g s = (True, s1) \<and> b s1 = Some (Inr s2) \<and> P xs s2"
    and fault: "\<And>s. P [] s \<Longrightarrow> \<exists>s1. g s = (True, s1) \<and> b s1 = Some (Inl e)"
  shows "whileM g b s = Some (Inl e)"
  using \<open>P xs s\<close>
proof (induction xs arbitrary: s)
  case Nil
  then show ?case using fault whileM_fault by metis
next
  case (Cons x xs)
  then show ?case using step whileM_step by metis
qed

text \<open>A loop whose guard always holds does not return.\<close>

lemma whileM_diverges:
  assumes "P s"
    and pass: "\<And>s. P s \<Longrightarrow> \<exists>s1 s2. g s = (True, s1) \<and> b s1 = Some (Inr s2) \<and> P s2"
  shows "whileM g b s = None"
proof -
  have "g = g \<longrightarrow> b = b \<longrightarrow> \<not> P s" if "whileM g b s = Some r" for r
  proof (rule whileM.raw_induct [where P = "\<lambda>g' b' s r. g' = g \<longrightarrow> b' = b \<longrightarrow> \<not> P s", OF _ that])
    fix w g' b' s r
    assume IH: "\<And>g' b' s r. w g' b' s = Some r \<Longrightarrow> g' = g \<longrightarrow> b' = b \<longrightarrow> \<not> P s"
      and run: "(if fst (g' s) then obind (b' (snd (g' s))) (w g' b') else Some (Inr (snd (g' s)))) = Some r"
    show "g' = g \<longrightarrow> b' = b \<longrightarrow> \<not> P s"
    proof (intro impI notI)
      assume eq: "g' = g" "b' = b" and "P s"
      with pass obtain s1 s2 where s: "g s = (True, s1)" "b s1 = Some (Inr s2)" "P s2" by blast
      with run eq have "w g b s2 = Some r" by simp
      with IH s(3) show False by blast
    qed
  qed
  with \<open>P s\<close> show ?thesis by (cases "whileM g b s") auto
qed

text \<open>Partial correctness: what a loop that has returned has kept.\<close>

lemma whileM_invariant:
  assumes run: "whileM g b s = Some (Inr s')" and "P s"
    and pass: "\<And>s s1 s2. P s \<Longrightarrow> g s = (True, s1) \<Longrightarrow> b s1 = Some (Inr s2) \<Longrightarrow> P s2"
    and stop: "\<And>s s1. P s \<Longrightarrow> g s = (False, s1) \<Longrightarrow> Q s1"
  shows "Q s'"
proof -
  have "g = g \<longrightarrow> b = b \<longrightarrow> P s \<longrightarrow> r = Inr s' \<longrightarrow> Q s'" if "whileM g b s = Some r" for r
  proof (rule whileM.raw_induct [where P = "\<lambda>g' b' s r. g' = g \<longrightarrow> b' = b \<longrightarrow> P s \<longrightarrow> r = Inr s' \<longrightarrow> Q s'", OF _ that])
    fix w g' b' s r
    assume IH: "\<And>g' b' s r. w g' b' s = Some r \<Longrightarrow> g' = g \<longrightarrow> b' = b \<longrightarrow> P s \<longrightarrow> r = Inr s' \<longrightarrow> Q s'"
      and r: "(if fst (g' s) then obind (b' (snd (g' s))) (w g' b') else Some (Inr (snd (g' s)))) = Some r"
    show "g' = g \<longrightarrow> b' = b \<longrightarrow> P s \<longrightarrow> r = Inr s' \<longrightarrow> Q s'"
    proof (intro impI)
      assume eq: "g' = g" "b' = b" and P: "P s" and res: "r = Inr s'"
      obtain go s1 where go: "g s = (go, s1)" by (cases "g s")
      show "Q s'"
      proof (cases go)
        case False
        with r go eq res stop [OF P] show ?thesis by auto
      next
        case True
        with r go eq res have "obind (b s1) (w g b) = Some (Inr s')" by simp
        then obtain s2 where s2: "b s1 = Some (Inr s2)" "w g b s2 = Some (Inr s')"
          by (auto simp: obind_eq_Inr)
        have "P s2" by (rule pass [OF P _ s2(1)]) (use go True in simp)
        with IH [OF s2(2)] show ?thesis by simp
      qed
    qed
  qed
  from this [OF run] \<open>P s\<close> show ?thesis by simp
qed

section \<open>Arithmetic of \<open>size_t\<close>\<close>

text \<open>Subtraction of two \<open>size_t\<close> on the 32-bit target.\<close>

definition size_sub :: "nat \<Rightarrow> nat \<Rightarrow> nat" where
  "size_sub a b = nat ((int a - int b) mod 2 ^ 32)"

lemma size_sub_le [simp]: "b \<le> a \<Longrightarrow> a < 2 ^ 32 \<Longrightarrow> size_sub a b = a - b"
  by (simp add: size_sub_def of_nat_diff [symmetric] del: of_nat_diff)

lemma unat_of_nat_u8: "k < 256 \<Longrightarrow> unat (word_of_nat k :: u8) = k"
  by (simp add: unat_of_nat take_bit_eq_mod)

text \<open>C's \<open>/\<close> and \<open>%\<close> on \<open>int\<close>: towards zero.\<close>

definition c_div :: "int \<Rightarrow> int \<Rightarrow> int" where
  "c_div a b = sgn a * sgn b * (\<bar>a\<bar> div \<bar>b\<bar>)"

definition c_mod :: "int \<Rightarrow> int \<Rightarrow> int" where
  "c_mod a b = a - c_div a b * b"

definition int32_range :: "int \<Rightarrow> bool" where
  "int32_range i \<longleftrightarrow> - (2 ^ 31) \<le> i \<and> i < 2 ^ 31"

lemma c_div_nonneg: "0 \<le> a \<Longrightarrow> 0 < b \<Longrightarrow> c_div a b = a div b"
  by (cases "a = 0") (simp_all add: c_div_def)

lemma c_div_neg: "a < 0 \<Longrightarrow> 0 < b \<Longrightarrow> c_div a b = - (- a div b)"
  by (simp add: c_div_def)

section \<open>Objects in memory\<close>

text \<open>
  A C array is the list of its bytes; its length is the size of the object. Every
  access checks it.
\<close>

definition mem_put :: "nat \<Rightarrow> u8 list \<Rightarrow> u8 list \<Rightarrow> u8 list checked" where
  "mem_put off bs buf =
     (if off + length bs \<le> length buf
      then Inr (take off buf @ bs @ drop (off + length bs) buf) else Inl OOB_write)"

definition mem_get :: "nat \<Rightarrow> nat \<Rightarrow> u8 list \<Rightarrow> u8 list checked" where
  "mem_get off n buf =
     (if off + n \<le> length buf then Inr (take n (drop off buf)) else Inl OOB_read)"

definition memcpy :: "nat \<Rightarrow> u8 list \<Rightarrow> nat \<Rightarrow> u8 list \<Rightarrow> u8 list checked" where
  "memcpy off src n dst = sbind (mem_get 0 n src) (\<lambda>bs. mem_put off bs dst)"

definition store :: "nat \<Rightarrow> u8 \<Rightarrow> u8 list \<Rightarrow> u8 list checked" where
  "store i c buf = (if i < length buf then Inr (buf[i := c]) else Inl OOB_write)"

text \<open>The string at the start of an object, up to its terminator (\<open>%s\<close>, \<open>strlen\<close>).\<close>

definition cstr :: "u8 list \<Rightarrow> u8 list checked" where
  "cstr buf =
     (if 0 \<in> set buf then Inr (takeWhile (\<lambda>c. c \<noteq> 0) buf) else Inl OOB_read)"

lemma cstr_terminated [mem_simps]: "0 \<notin> set s \<Longrightarrow> cstr (s @ 0 # t) = Inr s"
  by (induction s) (auto simp: cstr_def)

lemma cstr_first_zero [mem_simps]: "cstr (s @ 0 # t) = Inr (takeWhile (\<lambda>c. c \<noteq> 0) s)"
proof -
  have "takeWhile (\<lambda>c. c \<noteq> 0) (s @ 0 # t) = takeWhile (\<lambda>c. c \<noteq> 0) s" by (induction s) simp_all
  then show ?thesis by (simp add: cstr_def)
qed

lemma until_zero: "0 \<in> set xs \<Longrightarrow> \<exists>t. xs = takeWhile (\<lambda>c. c \<noteq> 0) xs @ 0 # t"
  by (induction xs) auto

lemma cstr_no_zero [mem_simps]: "0 \<notin> set s \<Longrightarrow> cstr s = Inl OOB_read"
  by (simp add: cstr_def)

lemma cstr_Inr: "cstr buf = Inr s \<Longrightarrow> 0 \<notin> set s \<and> (\<exists>t. buf = s @ 0 # t)"
proof (induction buf arbitrary: s)
  case Nil
  then show ?case by (simp add: cstr_def)
next
  case (Cons c buf)
  show ?case
  proof (cases "c = 0")
    case True
    with Cons.prems show ?thesis by (simp add: cstr_def)
  next
    case False
    with Cons.prems obtain s' where "cstr buf = Inr s'" "s = c # s'"
      by (auto simp: cstr_def split: if_splits)
    with Cons.IH [of s'] False show ?thesis by auto
  qed
qed

lemma mem_put_ok [mem_simps]:
  "off + length bs \<le> length buf \<Longrightarrow>
     mem_put off bs buf = Inr (take off buf @ bs @ drop (off + length bs) buf)"
  by (simp add: mem_put_def)

lemma mem_put_oob [mem_simps]:
  "length buf < off + length bs \<Longrightarrow> mem_put off bs buf = Inl OOB_write"
  by (simp add: mem_put_def)

lemma mem_get_ok [mem_simps]:
  "off + n \<le> length buf \<Longrightarrow> mem_get off n buf = Inr (take n (drop off buf))"
  by (simp add: mem_get_def)

lemma memcpy_ok [mem_simps]:
  "n \<le> length src \<Longrightarrow> off + n \<le> length dst \<Longrightarrow>
     memcpy off src n dst = Inr (take off dst @ take n src @ drop (off + n) dst)"
  by (simp add: memcpy_def mem_simps)

lemma memcpy_oob [mem_simps]:
  "n \<le> length src \<Longrightarrow> length dst < off + n \<Longrightarrow> memcpy off src n dst = Inl OOB_write"
  by (simp add: memcpy_def mem_simps)

lemma store_ok [mem_simps]: "i < length buf \<Longrightarrow> store i c buf = Inr (buf[i := c])"
  by (simp add: store_def)

lemma store_oob [mem_simps]: "length buf \<le> i \<Longrightarrow> store i c buf = Inl OOB_write"
  by (simp add: store_def)

text \<open>A buffer filled from the left: storing at the fill mark extends the prefix.\<close>

lemma take_Suc_update [simp]:
  "i < length buf \<Longrightarrow> take (Suc i) (buf[i := c]) = take i buf @ [c]"
  by (simp add: take_Suc_conv_app_nth)

lemma take_update_prefix [simp]: "take i (buf[i := c]) = take i buf"
  by simp

lemma zero_tail_update:
  "drop i buf = replicate (N - i) 0 \<Longrightarrow> drop (Suc i) (buf[i := c]) = replicate (N - Suc i) 0"
proof -
  assume "drop i buf = replicate (N - i) 0"
  then have "tl (drop i buf) = tl (replicate (N - i) 0)" by simp
  then have "drop (Suc i) buf = replicate (N - Suc i) 0" by (simp add: drop_Suc tl_drop)
  then show ?thesis by simp
qed

section \<open>Characters and formatted output\<close>

definition ascii :: "string \<Rightarrow> u8 list" where
  "ascii s = map of_char s"

lemma length_ascii [simp]: "length (ascii s) = length s"
  by (simp add: ascii_def)

abbreviation CR :: u8 where "CR \<equiv> 13"
abbreviation LF :: u8 where "LF \<equiv> 10"
abbreviation NUL :: u8 where "NUL \<equiv> 0"

text \<open>The digits of \<open>%u\<close>, the sign of \<open>%d\<close>, the padding of \<open>%0ku\<close>.\<close>

fun dec :: "nat \<Rightarrow> u8 list" where
  "dec n = (if n < 10 then [of_nat (48 + n)] else dec (n div 10) @ [of_nat (48 + n mod 10)])"

declare dec.simps [simp del]

definition fmt_d :: "int \<Rightarrow> u8 list" where
  "fmt_d i = (if i < 0 then 45 # dec (nat (- i)) else dec (nat i))"

definition pad0 :: "nat \<Rightarrow> u8 list \<Rightarrow> u8 list" where
  "pad0 k ds = replicate (k - length ds) 48 @ ds"

lemma dec_length: "n < 10 ^ k \<Longrightarrow> 0 < k \<Longrightarrow> length (dec n) \<le> k"
proof (induction n arbitrary: k rule: dec.induct)
  case (1 n)
  show ?case
  proof (cases "n < 10")
    case True
    with "1.prems" show ?thesis by (subst dec.simps) simp
  next
    case False
    with "1.prems" have k: "1 < k" by (cases "k = 1") auto
    then obtain j where j: "k = Suc j" "0 < j" by (cases k) auto
    with "1.prems" have "n div 10 < 10 ^ j" by (simp add: less_mult_imp_div_less mult.commute)
    with "1.IH" False j have "length (dec (n div 10)) \<le> j" by blast
    with False j show ?thesis by (subst dec.simps) simp
  qed
qed

text \<open>Reading the digits back.\<close>

definition undec :: "u8 list \<Rightarrow> nat" where
  "undec ds = foldl (\<lambda>n d. 10 * n + (unat d - 48)) 0 ds"

lemma unat_digit: "d < 10 \<Longrightarrow> unat (of_nat (48 + d) :: u8) - 48 = d"
  by (simp add: unat_of_nat take_bit_eq_mod del: of_nat_add)

lemma undec_dec [simp]: "undec (dec n) = n"
proof (induction n rule: dec.induct)
  case (1 n)
  show ?case
  proof (cases "n < 10")
    case True
    then show ?thesis by (subst dec.simps) (simp add: undec_def unat_digit del: of_nat_add)
  next
    case False
    with "1.IH" have "undec (dec (n div 10)) = n div 10" by simp
    with False show ?thesis
      by (subst dec.simps) (simp add: undec_def unat_digit del: of_nat_add)
  qed
qed

lemma undec_zeros: "foldl (\<lambda>n d. 10 * n + (unat (d :: u8) - 48)) 0 (replicate k 48) = 0"
  by (induction k) simp_all

lemma undec_pad0 [simp]: "undec (pad0 k ds) = undec ds"
  by (simp add: undec_def pad0_def undec_zeros)

lemma dec_no_zero: "0 \<notin> set (dec n)"
proof (induction n rule: dec.induct)
  case (1 n)
  have d: "(of_nat (48 + d) :: u8) \<noteq> 0" if "d < 10" for d
  proof
    assume "(of_nat (48 + d) :: u8) = 0"
    then have "unat (of_nat (48 + d) :: u8) = 0" by (simp del: of_nat_add)
    with that show False by (simp add: unat_of_nat take_bit_eq_mod del: of_nat_add)
  qed
  show ?case
    using 1 d [of n] d [of "n mod 10"] by (subst dec.simps) (auto simp del: of_nat_add)
qed

section \<open>Codecs\<close>

text \<open>
  What the clients of a codec use: decoding an encoded value that is in range gives it back,
  encoding a decoded code gives its normal form, and so encoding is injective on the range.
\<close>

locale codec =
  fixes enc :: "'v \<Rightarrow> 'c" and dcd :: "'c \<Rightarrow> 'v" and in_range :: "'v \<Rightarrow> bool" and norm :: "'c \<Rightarrow> 'c"
  assumes dec_enc: "in_range v \<Longrightarrow> dcd (enc v) = v"
    and enc_dec: "enc (dcd c) = norm c"
    and dec_range: "in_range (dcd c)"
begin

lemma enc_inj: "in_range u \<Longrightarrow> in_range v \<Longrightarrow> enc u = enc v \<Longrightarrow> u = v"
  by (metis dec_enc)

lemma dec_norm: "dcd (norm c) = dcd c"
  by (metis dec_enc enc_dec dec_range)

lemma norm_idem: "norm (norm c) = norm c"
  by (metis enc_dec dec_norm)

lemma same_dec_iff: "dcd c = dcd d \<longleftrightarrow> norm c = norm d"
  by (metis enc_dec dec_norm)

end

interpretation decimal: codec dec undec "\<lambda>_. True" "\<lambda>ds. dec (undec ds)"
  by unfold_locales simp_all

section \<open>Counters\<close>

text \<open>A counter that \<open>n\<close> increments take from \<open>a\<close> to \<open>b\<close>: exactly \<open>n\<close> more while an \<open>int\<close> holds it.\<close>

definition counts_up :: "u32 \<Rightarrow> nat \<Rightarrow> u32 \<Rightarrow> bool" where
  "counts_up a n b \<longleftrightarrow> b = a + word_of_nat n \<and> (sint a + int n < 2 ^ 31 \<longrightarrow> sint b = sint a + int n)"

lemma counts_up_add: "counts_up a n (a + word_of_nat n)"
proof -
  have "sint (a + word_of_nat n) = sint a + int n" if "sint a + int n < 2 ^ 31"
  proof -
    have "- (2 ^ 31) \<le> sint a" using sint_greater_eq [of a] by simp
    with that have t: "signed_take_bit 31 (sint a + int n) = sint a + int n"
      by (intro signed_take_bit_int_eq_self) simp_all
    have "sint (word_of_int (sint a + int n) :: u32) = signed_take_bit (LENGTH(32) - 1) (sint a + int n)"
      by (rule sint_sbintrunc')
    with t show ?thesis by simp
  qed
  then show ?thesis by (simp add: counts_up_def)
qed

end
