(* ===== verification/Zephyr.thy ===== *)
theory Zephyr
  imports Prelude
begin

text \<open>
  The operating system the program runs on is not part of the repository. Each of its
  services that the code calls is a field of one of the records below, a function on an
  abstract world \<open>'w\<close> (the hardware and the kernel); the definitions of the components
  take such a record as an argument and so hold for every implementation of it. What a
  theorem relies on is one of the contracts of the second half: documented behaviour,
  stated over projections of the world that the theorem is free to choose.
\<close>

section \<open>Names the program hands to the kernel\<close>

datatype fn =
    My_uart_int_handler | My_uart_b_int_handler | Transmit_string
  | Sending_guard_timer_expired | Serial_cb | Cdc_acm_interrupt_handler
  | Cdc_acm_composite_interrupt_handler | My_timer_handler | My_work_handler
  | Work_handler | Thread_echo_bot | Thread_mcp9808 | Thread_app | Thread_shell_module
  | ThreadA | Thread_http_get | Thread_socket_dumb_http | Dhcpv4_handler

datatype ptr = NULL_ptr | Device_ptr dev | Peer_ptr nat

datatype timer = Sending_guard_timer dev | My_timer

datatype work = My_work | My_work_item nat

datatype thread =
    Thread_echo_bot_data | Thread_mcp9808_data | Thread_app_data
  | Thread_shell_module_data | ThreadA_data | Thread_http_get_data
  | Thread_socket_dumb_http_data

datatype line_ctrl = UART_LINE_CTRL_DCD | UART_LINE_CTRL_DSR | UART_LINE_CTRL_DTR
  | UART_LINE_CTRL_BAUD_RATE

datatype gpio_flag = GPIO_INPUT | GPIO_OUTPUT_ACTIVE | GPIO_INT_EDGE_RISING
  | GPIO_INT_EDGE_TO_ACTIVE

record gpio_dt_spec =
  port :: dev
  pin :: nat

definition ENODEV :: int where "ENODEV = 19"
definition EAGAIN :: int where "EAGAIN = 11"
definition EMSGSIZE :: int where "EMSGSIZE = 90"

section \<open>Services\<close>

text \<open>
  \<open>uart_line_ctrl_get\<close> answers with what it wrote to the caller's variable, \<open>None\<close> for nothing.
  A log macro is not a service: its output is compiled out by configuration and read by no one.
\<close>

record 'w uart_api =
  uart_irq_update :: "dev \<Rightarrow> 'w \<Rightarrow> int \<times> 'w"
  uart_irq_is_pending :: "dev \<Rightarrow> 'w \<Rightarrow> int \<times> 'w"
  uart_irq_rx_ready :: "dev \<Rightarrow> 'w \<Rightarrow> int \<times> 'w"
  uart_irq_tx_ready :: "dev \<Rightarrow> 'w \<Rightarrow> int \<times> 'w"
  uart_fifo_read :: "dev \<Rightarrow> nat \<Rightarrow> 'w \<Rightarrow> int \<times> u8 list \<times> 'w"
  uart_fifo_fill :: "dev \<Rightarrow> u8 list \<Rightarrow> 'w \<Rightarrow> int \<times> 'w"
  uart_poll_in :: "dev \<Rightarrow> 'w \<Rightarrow> int \<times> u8 \<times> 'w"
  uart_poll_out :: "dev \<Rightarrow> u8 \<Rightarrow> 'w \<Rightarrow> 'w"
  uart_irq_rx_enable :: "dev \<Rightarrow> 'w \<Rightarrow> 'w"
  uart_irq_tx_enable :: "dev \<Rightarrow> 'w \<Rightarrow> 'w"
  uart_irq_tx_disable :: "dev \<Rightarrow> 'w \<Rightarrow> 'w"
  uart_irq_callback_user_data_set :: "dev \<Rightarrow> fn \<Rightarrow> ptr \<Rightarrow> 'w \<Rightarrow> 'w"
  uart_line_ctrl_set :: "dev \<Rightarrow> line_ctrl \<Rightarrow> u32 \<Rightarrow> 'w \<Rightarrow> int \<times> 'w"
  uart_line_ctrl_get :: "dev \<Rightarrow> line_ctrl \<Rightarrow> 'w \<Rightarrow> int \<times> u32 option \<times> 'w"

record 'w gpio_api =
  gpio_pin_configure_dt :: "gpio_dt_spec \<Rightarrow> gpio_flag list \<Rightarrow> 'w \<Rightarrow> int \<times> 'w"
  gpio_pin_interrupt_configure_dt :: "gpio_dt_spec \<Rightarrow> gpio_flag list \<Rightarrow> 'w \<Rightarrow> int \<times> 'w"
  gpio_init_callback :: "dev \<Rightarrow> fn \<Rightarrow> nat \<Rightarrow> 'w \<Rightarrow> 'w"
  gpio_add_callback :: "dev \<Rightarrow> dev \<Rightarrow> 'w \<Rightarrow> int \<times> 'w"

record 'w kernel_api =
  device_is_ready :: "dev \<Rightarrow> 'w \<Rightarrow> bool"
  device_get_binding :: "u8 list \<Rightarrow> 'w \<Rightarrow> dev option"
  printk :: "u8 list \<Rightarrow> 'w \<Rightarrow> 'w"
  k_sleep :: "nat \<Rightarrow> 'w \<Rightarrow> 'w"
  k_busy_wait :: "nat \<Rightarrow> 'w \<Rightarrow> 'w"
  k_uptime_get_32 :: "'w \<Rightarrow> u32 \<times> 'w"
  k_timer_init :: "timer \<Rightarrow> fn \<Rightarrow> 'w \<Rightarrow> 'w"
  k_timer_user_data_set :: "timer \<Rightarrow> ptr \<Rightarrow> 'w \<Rightarrow> 'w"
  k_timer_start :: "timer \<Rightarrow> nat \<Rightarrow> nat \<Rightarrow> 'w \<Rightarrow> 'w"
  k_work_init :: "work \<Rightarrow> fn \<Rightarrow> 'w \<Rightarrow> 'w"
  k_work_submit :: "work \<Rightarrow> 'w \<Rightarrow> 'w"
  k_work_queue_init :: "'w \<Rightarrow> 'w"
  k_work_queue_start :: "nat \<Rightarrow> nat \<Rightarrow> 'w \<Rightarrow> 'w"
  k_work_submit_to_queue :: "work \<Rightarrow> 'w \<Rightarrow> 'w"
  k_thread_create :: "thread \<Rightarrow> fn \<Rightarrow> nat \<Rightarrow> nat \<Rightarrow> 'w \<Rightarrow> 'w"
  k_thread_start :: "thread \<Rightarrow> 'w \<Rightarrow> 'w"
  usb_enable :: "'w \<Rightarrow> int \<times> 'w"

text \<open>
  Ring buffers and message queues are objects of the program (\<open>'rb\<close>, \<open>'q\<close>) that only
  the kernel's functions touch. An item of a ring buffer in item mode has a type, a value
  byte and a payload of 32-bit words; the payload is given as the bytes of these words.
\<close>

record 'rb ring_item_api =
  ring_buf_item_init :: "nat \<Rightarrow> 'rb"
  ring_buf_item_put :: "u16 \<Rightarrow> u8 \<Rightarrow> u8 list \<Rightarrow> u8 \<Rightarrow> 'rb \<Rightarrow> int \<times> 'rb"
  ring_buf_item_get :: "u8 \<Rightarrow> 'rb \<Rightarrow> int \<times> u16 \<times> u8 \<times> u8 list \<times> u8 \<times> 'rb"

record 'rb ring_api =
  ring_buf_init :: "nat \<Rightarrow> 'rb"
  ring_buf_put :: "u8 list \<Rightarrow> 'rb \<Rightarrow> nat \<times> 'rb"
  ring_buf_get :: "nat \<Rightarrow> 'rb \<Rightarrow> u8 list \<times> 'rb"

record ('m, 'q) msgq_api =
  k_msgq_put :: "'m \<Rightarrow> 'q \<Rightarrow> int \<times> 'q"
  k_msgq_get :: "'q \<Rightarrow> int \<times> 'm \<times> 'q"

section \<open>Contracts\<close>

text \<open>
  \<open>rx w\<close> is the bytes the receiver of device \<open>d\<close> will deliver, in order, before it
  reports that it has no more (bytes that arrive while the handler runs included);
  \<open>\<alpha> w\<close> is whatever else of the world the client observes, which asking the
  receiver does not change.
\<close>

definition query_contract :: "('w \<Rightarrow> int \<times> 'w) \<Rightarrow> ('w \<Rightarrow> u8 list) \<Rightarrow> ('w \<Rightarrow> 'a) \<Rightarrow> bool" where
  [contract_defs]: "query_contract q rx \<alpha> \<longleftrightarrow> (\<forall>w. rx (snd (q w)) = rx w \<and> \<alpha> (snd (q w)) = \<alpha> w)"

definition rx_ready_contract :: "'w uart_api \<Rightarrow> dev \<Rightarrow> ('w \<Rightarrow> u8 list) \<Rightarrow> ('w \<Rightarrow> 'a) \<Rightarrow> bool" where
  [contract_defs]: "rx_ready_contract U d rx \<alpha> \<longleftrightarrow>
     query_contract (uart_irq_rx_ready U d) rx \<alpha> \<and>
     (\<forall>w. fst (uart_irq_rx_ready U d w) \<noteq> 0 \<longleftrightarrow> rx w \<noteq> [])"

definition poll_in_contract :: "'w uart_api \<Rightarrow> dev \<Rightarrow> ('w \<Rightarrow> u8 list) \<Rightarrow> ('w \<Rightarrow> 'a) \<Rightarrow> bool" where
  [contract_defs]: "poll_in_contract U d rx \<alpha> \<longleftrightarrow>
     (\<forall>w. rx w = [] \<longrightarrow> fst (uart_poll_in U d w) \<noteq> 0 \<and>
            rx (snd (snd (uart_poll_in U d w))) = [] \<and>
            \<alpha> (snd (snd (uart_poll_in U d w))) = \<alpha> w) \<and>
     (\<forall>w c cs. rx w = c # cs \<longrightarrow> fst (uart_poll_in U d w) = 0 \<and>
            fst (snd (uart_poll_in U d w)) = c \<and>
            rx (snd (snd (uart_poll_in U d w))) = cs \<and>
            \<alpha> (snd (snd (uart_poll_in U d w))) = \<alpha> w)"

definition fifo_read_contract :: "'w uart_api \<Rightarrow> dev \<Rightarrow> ('w \<Rightarrow> u8 list) \<Rightarrow> ('w \<Rightarrow> 'a) \<Rightarrow> bool" where
  [contract_defs]: "fifo_read_contract U d rx \<alpha> \<longleftrightarrow>
     (\<forall>w c cs. rx w = c # cs \<longrightarrow>
        (\<exists>w'. uart_fifo_read U d 1 w = (1, [c], w') \<and> rx w' = cs \<and> \<alpha> w' = \<alpha> w))"

text \<open>What a handler that polls, and one that reads the FIFO, rely on together.\<close>

definition poll_uart_contract :: "'w uart_api \<Rightarrow> dev \<Rightarrow> ('w \<Rightarrow> u8 list) \<Rightarrow> ('w \<Rightarrow> 'a) \<Rightarrow> bool" where
  [contract_defs]: "poll_uart_contract U d rx \<alpha> \<longleftrightarrow>
     query_contract (uart_irq_update U d) rx \<alpha> \<and> rx_ready_contract U d rx \<alpha> \<and>
     poll_in_contract U d rx \<alpha>"

definition fifo_uart_contract :: "'w uart_api \<Rightarrow> dev \<Rightarrow> ('w \<Rightarrow> u8 list) \<Rightarrow> ('w \<Rightarrow> 'a) \<Rightarrow> bool" where
  [contract_defs]: "fifo_uart_contract U d rx \<alpha> \<longleftrightarrow>
     query_contract (uart_irq_update U d) rx \<alpha> \<and> rx_ready_contract U d rx \<alpha> \<and>
     fifo_read_contract U d rx \<alpha>"

text \<open>\<open>uart_poll_out\<close> puts one byte at the end of what device \<open>d\<close> has sent.\<close>

definition poll_out_contract :: "'w uart_api \<Rightarrow> dev \<Rightarrow> ('w \<Rightarrow> u8 list) \<Rightarrow> bool" where
  [contract_defs]: "poll_out_contract U d tx \<longleftrightarrow> (\<forall>c w. tx (uart_poll_out U d c w) = tx w @ [c])"

lemma poll_out_fold:
  "poll_out_contract U d tx \<Longrightarrow>
     tx (fold (\<lambda>i w. uart_poll_out U d (f i) w) is w) = tx w @ map f is"
  by (induction "is" arbitrary: w) (simp_all add: poll_out_contract_def)

text \<open>An operation that leaves the receiver and the observation alone.\<close>

definition keeps :: "('w \<Rightarrow> 'w) \<Rightarrow> ('w \<Rightarrow> 'a) \<Rightarrow> bool" where
  "keeps f \<alpha> \<longleftrightarrow> (\<forall>w. \<alpha> (f w) = \<alpha> w)"

lemma keepsD: "keeps f \<alpha> \<Longrightarrow> \<alpha> (f w) = \<alpha> w"
  by (simp add: keeps_def)

lemma query_contractD:
  assumes "query_contract q rx \<alpha>" and "q w = (r, w')"
  shows "rx w' = rx w" and "\<alpha> w' = \<alpha> w"
proof -
  from assms(1) have "rx (snd (q w)) = rx w \<and> \<alpha> (snd (q w)) = \<alpha> w"
    by (simp add: query_contract_def)
  with assms(2) show "rx w' = rx w" and "\<alpha> w' = \<alpha> w" by simp_all
qed

lemma rx_ready_contractD:
  assumes "rx_ready_contract U d rx \<alpha>" and "uart_irq_rx_ready U d w = (r, w')"
  shows "r \<noteq> 0 \<longleftrightarrow> rx w \<noteq> []" and "rx w' = rx w" and "\<alpha> w' = \<alpha> w"
proof -
  from assms(1) have "query_contract (uart_irq_rx_ready U d) rx \<alpha>"
    and "fst (uart_irq_rx_ready U d w) \<noteq> 0 \<longleftrightarrow> rx w \<noteq> []"
    by (simp_all add: rx_ready_contract_def)
  with assms(2) show "r \<noteq> 0 \<longleftrightarrow> rx w \<noteq> []" and "rx w' = rx w" and "\<alpha> w' = \<alpha> w"
    using query_contractD [where q = "uart_irq_rx_ready U d", OF _ assms(2)] by simp_all
qed

lemma poll_in_contract_empty:
  assumes "poll_in_contract U d rx \<alpha>" and "rx w = []"
  obtains r c w' where "uart_poll_in U d w = (r, c, w')" "r \<noteq> 0" "rx w' = []" "\<alpha> w' = \<alpha> w"
proof -
  obtain r c w' where p: "uart_poll_in U d w = (r, c, w')" by (cases "uart_poll_in U d w")
  from assms have "fst (uart_poll_in U d w) \<noteq> 0 \<and> rx (snd (snd (uart_poll_in U d w))) = [] \<and>
      \<alpha> (snd (snd (uart_poll_in U d w))) = \<alpha> w"
    by (simp add: poll_in_contract_def)
  with p that show thesis by simp
qed

lemma poll_in_contract_byte:
  assumes "poll_in_contract U d rx \<alpha>" and "rx w = c # cs"
  obtains w' where "uart_poll_in U d w = (0, c, w')" "rx w' = cs" "\<alpha> w' = \<alpha> w"
proof -
  obtain r c' w' where p: "uart_poll_in U d w = (r, c', w')" by (cases "uart_poll_in U d w")
  from assms have "fst (uart_poll_in U d w) = 0 \<and> fst (snd (uart_poll_in U d w)) = c \<and>
      rx (snd (snd (uart_poll_in U d w))) = cs \<and> \<alpha> (snd (snd (uart_poll_in U d w))) = \<alpha> w"
    by (simp add: poll_in_contract_def)
  with p that show thesis by simp
qed

lemma fifo_read_contractD:
  assumes "fifo_read_contract U d rx \<alpha>" and "rx w = c # cs"
  obtains w' where "uart_fifo_read U d 1 w = (1, [c], w')" "rx w' = cs" "\<alpha> w' = \<alpha> w"
  using assms unfolding fifo_read_contract_def by blast

text \<open>
  A message queue holding at most \<open>cap\<close> messages. \<open>k_msgq_put\<close> does not wait; \<open>k_msgq_get\<close>
  waits for as long as it takes, so that \<open>msgs q\<close>, for a client that only takes messages, is
  what it will be handed in order, and a failure is the queue being given up.
\<close>

definition msgq_put_contract :: "('m, 'q) msgq_api \<Rightarrow> ('q \<Rightarrow> 'm list) \<Rightarrow> nat \<Rightarrow> bool" where
  [contract_defs]: "msgq_put_contract M msgs cap \<longleftrightarrow>
     (\<forall>m q. if length (msgs q) < cap
        then fst (k_msgq_put M m q) = 0 \<and> msgs (snd (k_msgq_put M m q)) = msgs q @ [m]
        else fst (k_msgq_put M m q) \<noteq> 0 \<and> msgs (snd (k_msgq_put M m q)) = msgs q)"

definition msgq_get_contract :: "('m, 'q) msgq_api \<Rightarrow> ('q \<Rightarrow> 'm list) \<Rightarrow> bool" where
  [contract_defs]: "msgq_get_contract M msgs \<longleftrightarrow>
     (\<forall>q. msgs q = [] \<longrightarrow> fst (k_msgq_get M q) \<noteq> 0 \<and> msgs (snd (snd (k_msgq_get M q))) = []) \<and>
     (\<forall>q m ms. msgs q = m # ms \<longrightarrow> (\<exists>q'. k_msgq_get M q = (0, m, q') \<and> msgs q' = ms))"

text \<open>What happens to the contents when a message is put.\<close>

definition put_upto :: "nat \<Rightarrow> 'm \<Rightarrow> 'm list \<Rightarrow> 'm list" where
  "put_upto cap m ms = (if length ms < cap then ms @ [m] else ms)"

lemma msgq_put_contractD:
  "msgq_put_contract M msgs cap \<Longrightarrow> msgs (snd (k_msgq_put M m q)) = put_upto cap m (msgs q)"
  by (simp add: msgq_put_contract_def put_upto_def split: if_splits)

lemma msgq_get_contract_message:
  assumes "msgq_get_contract M msgs" and "msgs q = m # ms"
  obtains q' where "k_msgq_get M q = (0, m, q')" "msgs q' = ms"
  using assms unfolding msgq_get_contract_def by blast

lemma msgq_get_contract_empty:
  assumes "msgq_get_contract M msgs" and "msgs q = []"
  obtains r m q' where "k_msgq_get M q = (r, m, q')" "r \<noteq> 0" "msgs q' = []"
proof -
  obtain r m q' where g: "k_msgq_get M q = (r, m, q')" by (cases "k_msgq_get M q")
  from assms have "fst (k_msgq_get M q) \<noteq> 0 \<and> msgs (snd (snd (k_msgq_get M q))) = []"
    unfolding msgq_get_contract_def by blast
  with g that show thesis by simp
qed

text \<open>What the console shows.\<close>

definition printk_out_contract :: "'w kernel_api \<Rightarrow> ('w \<Rightarrow> u8 list) \<Rightarrow> bool" where
  [contract_defs]: "printk_out_contract Z out \<longleftrightarrow> (\<forall>bs w. out (printk Z bs w) = out w @ bs)"

text \<open>A contract for one observation is one for everything computed from it.\<close>

lemma poll_uart_contract_image:
  "poll_uart_contract U d rx \<alpha> \<Longrightarrow> poll_uart_contract U d rx (\<lambda>w. f (\<alpha> w))"
  unfolding poll_uart_contract_def rx_ready_contract_def poll_in_contract_def query_contract_def
  by simp

end
