(* ===== verification/Board.thy ===== *)
theory Board
  imports Zephyr
begin

text \<open>
  A concrete world: for every UART a receive queue, a transmit queue and the transmit
  interrupt's mask, the timers that run and the work that is submitted, the console, and the
  log of the kernel calls made. The witnesses run the program on it; no property depends on it.
\<close>

datatype kcall =
    Irq_callback_set dev fn ptr | Rx_enable dev | Line_ctrl_set dev line_ctrl u32
  | Gpio_configure gpio_dt_spec "gpio_flag list" | Gpio_interrupt gpio_dt_spec "gpio_flag list"
  | Gpio_init_callback dev fn nat | Gpio_add_callback dev dev
  | Sleep nat | Timer_init timer fn | Timer_user_data timer ptr | Timer_start timer nat nat
  | Work_init work fn | Work_submit work | Queue_init | Queue_start nat nat
  | Submit_to_queue work | Thread_create thread fn nat nat | Thread_start thread | Usb_enable

record board =
  rxq :: "dev \<Rightarrow> u8 list"
  txq :: "dev \<Rightarrow> u8 list"
  fills :: "dev \<Rightarrow> u8 list list"
  tx_on :: "dev \<Rightarrow> bool"
  running :: "timer \<Rightarrow> bool"
  submitted :: "work \<Rightarrow> bool"
  ready :: "dev \<Rightarrow> bool"
  gpio_ret :: int
  dtr_after :: nat
  console :: "u8 list"
  kcalls :: "kcall list"

definition board0 :: board where
  "board0 = \<lparr>rxq = (\<lambda>_. []), txq = (\<lambda>_. []), fills = (\<lambda>_. []), tx_on = (\<lambda>_. False), running = (\<lambda>_. False),
     submitted = (\<lambda>_. False), ready = (\<lambda>_. True),
     gpio_ret = 0, dtr_after = 0, console = [], kcalls = []\<rparr>"

definition board_rx :: "dev \<Rightarrow> u8 list \<Rightarrow> board" where
  "board_rx d bs = board0\<lparr>rxq := (\<lambda>e. if e = d then bs else [])\<rparr>"

definition bool_int :: "bool \<Rightarrow> int" where
  "bool_int b = (if b then 1 else 0)"

definition log :: "kcall \<Rightarrow> board \<Rightarrow> board" where
  "log k w = w\<lparr>kcalls := kcalls w @ [k]\<rparr>"

definition board_uart :: "board uart_api" where
  "board_uart =
     \<lparr>uart_irq_update = (\<lambda>d w. (1, w)),
      uart_irq_is_pending = (\<lambda>d w. (bool_int (rxq w d \<noteq> [] \<or> tx_on w d), w)),
      uart_irq_rx_ready = (\<lambda>d w. (bool_int (rxq w d \<noteq> []), w)),
      uart_irq_tx_ready = (\<lambda>d w. (bool_int (tx_on w d), w)),
      uart_fifo_read = (\<lambda>d n w. (int (min n (length (rxq w d))), take n (rxq w d),
         w\<lparr>rxq := (rxq w)(d := drop n (rxq w d))\<rparr>)),
      uart_fifo_fill = (\<lambda>d bs w. (int (length bs),
         w\<lparr>txq := (txq w)(d := txq w d @ bs), fills := (fills w)(d := fills w d @ [bs])\<rparr>)),
      uart_poll_in = (\<lambda>d w. case rxq w d of
           [] \<Rightarrow> (- 1, 0, w) | c # cs \<Rightarrow> (0, c, w\<lparr>rxq := (rxq w)(d := cs)\<rparr>)),
      uart_poll_out = (\<lambda>d c w. w\<lparr>txq := (txq w)(d := txq w d @ [c])\<rparr>),
      uart_irq_rx_enable = (\<lambda>d. log (Rx_enable d)),
      uart_irq_tx_enable = (\<lambda>d w. w\<lparr>tx_on := (tx_on w)(d := True)\<rparr>),
      uart_irq_tx_disable = (\<lambda>d w. w\<lparr>tx_on := (tx_on w)(d := False)\<rparr>),
      uart_irq_callback_user_data_set = (\<lambda>d f p. log (Irq_callback_set d f p)),
      uart_line_ctrl_set = (\<lambda>d c v w. (0, log (Line_ctrl_set d c v) w)),
      uart_line_ctrl_get = (\<lambda>d c w. (0, Some (if dtr_after w = 0 then 1 else 0),
         w\<lparr>dtr_after := dtr_after w - 1\<rparr>))\<rparr>"

definition board_gpio :: "board gpio_api" where
  "board_gpio =
     \<lparr>gpio_pin_configure_dt = (\<lambda>s fs w. (gpio_ret w, log (Gpio_configure s fs) w)),
      gpio_pin_interrupt_configure_dt = (\<lambda>s fs w. (0, log (Gpio_interrupt s fs) w)),
      gpio_init_callback = (\<lambda>d f m. log (Gpio_init_callback d f m)),
      gpio_add_callback = (\<lambda>p d w. (0, log (Gpio_add_callback p d) w))\<rparr>"

definition board_kernel :: "board kernel_api" where
  "board_kernel =
     \<lparr>device_is_ready = (\<lambda>d w. ready w d),
      device_get_binding = (\<lambda>name w. Some 1),
      printk = (\<lambda>bs w. w\<lparr>console := console w @ bs\<rparr>),
      k_sleep = (\<lambda>ms. log (Sleep ms)),
      k_busy_wait = (\<lambda>us w. w),
      k_uptime_get_32 = (\<lambda>w. (0, w)),
      k_timer_init = (\<lambda>t f. log (Timer_init t f)),
      k_timer_user_data_set = (\<lambda>t p. log (Timer_user_data t p)),
      k_timer_start = (\<lambda>t d p w. log (Timer_start t d p) (w\<lparr>running := (running w)(t := True)\<rparr>)),
      k_work_init = (\<lambda>k f. log (Work_init k f)),
      k_work_submit = (\<lambda>k w. log (Work_submit k) (w\<lparr>submitted := (submitted w)(k := True)\<rparr>)),
      k_work_queue_init = log Queue_init,
      k_work_queue_start = (\<lambda>s p. log (Queue_start s p)),
      k_work_submit_to_queue = (\<lambda>k. log (Submit_to_queue k)),
      k_thread_create = (\<lambda>t f s p. log (Thread_create t f s p)),
      k_thread_start = (\<lambda>t. log (Thread_start t)),
      usb_enable = (\<lambda>w. (0, log Usb_enable w))\<rparr>"

text \<open>What the kernel does itself when a timer without a period expires, and when it takes up a work item.\<close>

definition board_expire :: "timer \<Rightarrow> board \<Rightarrow> board" where
  "board_expire t w = w\<lparr>running := (running w)(t := False)\<rparr>"

definition board_begin_work :: "work \<Rightarrow> board \<Rightarrow> board" where
  "board_begin_work k w = w\<lparr>submitted := (submitted w)(k := False)\<rparr>"

section \<open>It satisfies the contracts\<close>

lemma board_sel [simp]:
  "uart_irq_update board_uart d w = (1, w)"
  "uart_irq_is_pending board_uart d w = (bool_int (rxq w d \<noteq> [] \<or> tx_on w d), w)"
  "uart_irq_rx_ready board_uart d w = (bool_int (rxq w d \<noteq> []), w)"
  "uart_irq_tx_ready board_uart d w = (bool_int (tx_on w d), w)"
  "uart_fifo_fill board_uart d bs w = (int (length bs),
     w\<lparr>txq := (txq w)(d := txq w d @ bs), fills := (fills w)(d := fills w d @ [bs])\<rparr>)"
  "uart_poll_out board_uart d c w = w\<lparr>txq := (txq w)(d := txq w d @ [c])\<rparr>"
  "uart_irq_tx_enable board_uart d w = w\<lparr>tx_on := (tx_on w)(d := True)\<rparr>"
  "uart_irq_tx_disable board_uart d w = w\<lparr>tx_on := (tx_on w)(d := False)\<rparr>"
  "device_is_ready board_kernel d w = ready w d"
  "printk board_kernel bs w = w\<lparr>console := console w @ bs\<rparr>"
  by (simp_all add: board_uart_def board_kernel_def)

lemma bool_int_simps [simp]:
  "bool_int True = 1" "bool_int False = 0" "(bool_int b = 0) = (\<not> b)"
  by (simp_all add: bool_int_def)

definition rxq_blind :: "(board \<Rightarrow> 'a) \<Rightarrow> bool" where
  "rxq_blind \<alpha> \<longleftrightarrow> (\<forall>w q. \<alpha> (w\<lparr>rxq := q\<rparr>) = \<alpha> w)"

lemma board_poll_uart:
  "rxq_blind \<alpha> \<Longrightarrow> poll_uart_contract board_uart d (\<lambda>w. rxq w d) \<alpha>"
  by (auto simp: contract_defs rxq_blind_def board_uart_def split: list.splits)

lemma board_fifo_uart:
  "rxq_blind \<alpha> \<Longrightarrow> fifo_uart_contract board_uart d (\<lambda>w. rxq w d) \<alpha>"
  by (auto simp: contract_defs rxq_blind_def board_uart_def)

lemma board_poll_out: "poll_out_contract board_uart d (\<lambda>w. txq w d)"
  by (simp add: contract_defs)

section \<open>Ring buffers and message queues\<close>

text \<open>
  A ring buffer in item mode: its size in words and its items, each taking its payload
  and one word of header. A byte ring buffer and a message queue: their capacity and
  contents.
\<close>

type_synonym board_items = "nat \<times> (u16 \<times> u8 \<times> u8 list \<times> u8) list"

definition items_used :: "(u16 \<times> u8 \<times> u8 list \<times> u8) list \<Rightarrow> nat" where
  "items_used is = sum_list (map (\<lambda>(t, v, p, n). unat n + 1) is)"

definition board_ring_items :: "board_items ring_item_api" where
  "board_ring_items =
     \<lparr>ring_buf_item_init = (\<lambda>words. (words, [])),
      ring_buf_item_put = (\<lambda>t v p n (words, is).
         if items_used is + unat n + 1 \<le> words then (0, (words, is @ [(t, v, p, n)]))
         else (- EMSGSIZE, (words, is))),
      ring_buf_item_get = (\<lambda>m (words, is). case is of
         [] \<Rightarrow> (- EAGAIN, 0, 0, [], m, (words, []))
       | (t, v, p, n) # rest \<Rightarrow>
           if n \<le> m then (0, t, v, p, n, (words, rest)) else (- EMSGSIZE, 0, 0, [], n, (words, is)))\<rparr>"

definition board_ring :: "nat \<Rightarrow> u8 list ring_api" where
  "board_ring cap =
     \<lparr>ring_buf_init = (\<lambda>size. []),
      ring_buf_put = (\<lambda>bs q. (min (length bs) (cap - length q), q @ take (cap - length q) bs)),
      ring_buf_get = (\<lambda>n q. (take n q, drop n q))\<rparr>"

text \<open>A queue of at most ten messages, as the programs have them.\<close>

definition board_msgq :: "('m, 'm list) msgq_api" where
  "board_msgq =
     \<lparr>k_msgq_put = (\<lambda>m q. if length q < 10 then (0, q @ [m]) else (- 35, q)),
      k_msgq_get = (\<lambda>q. case q of [] \<Rightarrow> (- 35, undefined, []) | m # ms \<Rightarrow> (0, m, ms))\<rparr>"

lemma board_msgq_contracts: "msgq_put_contract board_msgq id 10" "msgq_get_contract board_msgq id"
  by (simp_all add: contract_defs board_msgq_def)

end
