(* ===== verification/Framing.thy ===== *)
theory Framing
  imports Prelude
begin

text \<open>
  Three drivers and the HTTP server receive a byte stream one byte at a time and turn it
  into frames. What they share is stated here once: a step that takes a byte and an
  accumulator to a new accumulator and the frames that byte completes, its run over a
  stream, and two interfaces (\<open>framer\<close>, \<open>lossless_framer\<close>) with the facts their clients
  use. Each component defines its step and interprets the interface on it.
\<close>

section \<open>Runs\<close>

fun frun :: "('c \<Rightarrow> 'a \<Rightarrow> 'a \<times> 'e list) \<Rightarrow> 'c list \<Rightarrow> 'a \<Rightarrow> 'a \<times> 'e list" where
  "frun f [] a = (a, [])"
| "frun f (c # cs) a =
     (fst (frun f cs (fst (f c a))), snd (f c a) @ snd (frun f cs (fst (f c a))))"

definition residue :: "('c \<Rightarrow> 'a \<Rightarrow> 'a \<times> 'e list) \<Rightarrow> 'c list \<Rightarrow> 'a \<Rightarrow> 'a" where
  "residue f cs a = fst (frun f cs a)"

definition frames :: "('c \<Rightarrow> 'a \<Rightarrow> 'a \<times> 'e list) \<Rightarrow> 'c list \<Rightarrow> 'a \<Rightarrow> 'e list" where
  "frames f cs a = snd (frun f cs a)"

lemma residue_simps [simp]:
  "residue f [] a = a"
  "residue f (c # cs) a = residue f cs (fst (f c a))"
  by (simp_all add: residue_def)

lemma frames_simps [simp]:
  "frames f [] a = []"
  "frames f (c # cs) a = snd (f c a) @ frames f cs (fst (f c a))"
  by (simp_all add: frames_def)

lemma residue_append [simp]: "residue f (xs @ ys) a = residue f ys (residue f xs a)"
  by (induction xs arbitrary: a) simp_all

lemma frames_append:
  "frames f (xs @ ys) a = frames f xs a @ frames f ys (residue f xs a)"
  by (induction xs arbitrary: a) simp_all

lemma first_frame:
  assumes "frames f xs a \<noteq> []"
  obtains ys c zs where "xs = ys @ c # zs" "frames f ys a = []" "snd (f c (residue f ys a)) \<noteq> []"
  using assms
proof (induction xs arbitrary: a thesis)
  case Nil
  then show ?case by simp
next
  case (Cons x xs)
  show ?case
  proof (cases "snd (f x a) = []")
    case True
    with Cons.prems(2) have "frames f xs (fst (f x a)) \<noteq> []" by simp
    then obtain ys c zs where "xs = ys @ c # zs" "frames f ys (fst (f x a)) = []"
      "snd (f c (residue f ys (fst (f x a)))) \<noteq> []" by (rule Cons.IH [rotated])
    with True show ?thesis by (intro Cons.prems(1) [of "x # ys" c zs]) simp_all
  next
    case False
    then show ?thesis by (intro Cons.prems(1) [of "[]" x xs]) simp_all
  qed
qed

text \<open>
  A handler that keeps the accumulator and applies \<open>upd\<close> to each frame as it completes
  computes the residue and folds \<open>upd\<close> over the frames.
\<close>

definition fpush :: "('c \<Rightarrow> 'a \<Rightarrow> 'a \<times> 'e list) \<Rightarrow> ('e \<Rightarrow> 'b \<Rightarrow> 'b) \<Rightarrow> 'c \<Rightarrow> 'a \<times> 'b \<Rightarrow> 'a \<times> 'b" where
  "fpush f upd c p = (fst (f c (fst p)), fold upd (snd (f c (fst p))) (snd p))"

lemma fold_fpush:
  "fold (fpush f upd) cs (a, b) = (residue f cs a, fold upd (frames f cs a) b)"
  by (induction cs arbitrary: a b) (simp_all add: fpush_def)

section \<open>Interfaces\<close>

locale framer =
  fixes step :: "'c \<Rightarrow> 'a \<Rightarrow> 'a \<times> 'e list"
    and ok :: "'a \<Rightarrow> bool"
  assumes ok_step: "ok a \<Longrightarrow> ok (fst (step c a))"
    and one_frame: "ok a \<Longrightarrow> length (snd (step c a)) \<le> 1"
begin

lemma ok_residue: "ok a \<Longrightarrow> ok (residue step cs a)"
  by (induction cs arbitrary: a) (simp_all add: ok_step)

lemma frames_le_bytes: "ok a \<Longrightarrow> length (frames step cs a) \<le> length cs"
proof (induction cs arbitrary: a)
  case Nil
  then show ?case by simp
next
  case (Cons c cs)
  then have "length (frames step cs (fst (step c a))) \<le> length cs"
    by (simp add: ok_step)
  with one_frame [OF Cons.prems, of c] show ?case by simp
qed

end

text \<open>A framer that hands on every byte it takes, in order.\<close>

locale lossless_framer = framer step ok
  for step :: "'c \<Rightarrow> 'a \<Rightarrow> 'a \<times> 'e list" and ok +
  fixes held :: "'a \<Rightarrow> 'c list" and bytes :: "'e \<Rightarrow> 'c list"
  assumes lossless_step:
    "ok a \<Longrightarrow> concat (map bytes (snd (step c a))) @ held (fst (step c a)) = held a @ [c]"
begin

lemma lossless:
  "ok a \<Longrightarrow> concat (map bytes (frames step cs a)) @ held (residue step cs a) = held a @ cs"
proof (induction cs arbitrary: a)
  case Nil
  then show ?case by simp
next
  case (Cons c cs)
  let ?a = "fst (step c a)"
  have "concat (map bytes (frames step (c # cs) a)) @ held (residue step (c # cs) a) =
      concat (map bytes (snd (step c a))) @ held ?a @ cs"
    using Cons.IH [of ?a] Cons.prems by (simp add: ok_step)
  also have "\<dots> = held a @ c # cs"
    using lossless_step [OF Cons.prems, of c] by (metis append.assoc append_Cons append_Nil)
  finally show ?case .
qed

end

end
