(* ===== verification/My_Uart_Peripheral.thy ===== *)
theory My_Uart_Peripheral
  imports Board Framing
begin

text \<open>
  The driver \<^verbatim>\<open>drivers/my_uart_peripheral/driver.c\<close>: it accumulates received bytes into
  NUL-terminated strings for a callback and transmits a string when a button is pressed.
\<close>

section \<open>State\<close>

record my_uart_kconfig =
  MAX_STR_LEN :: nat
  RX_BUF_SIZE :: nat
  ASSERT :: bool

text \<open>
  A callback is an address \<open>'cb\<close>; what calling it does is the argument \<open>call\<close> of the
  functions below. It may change the driver's data, the program's other globals \<open>'g\<close> and
  the world \<open>'w\<close>.
\<close>

record ('cb, 'ud) my_uart_data =
  str :: "u8 list"
  rx_buf :: "u8 list"
  rx_data_len :: nat
  string_callback :: "'cb option"
  user_data :: "'ud option"

record my_uart_conf =
  uart_dev :: dev
  gpio_spec :: gpio_dt_spec

type_synonym ('cb, 'ud, 'g, 'w) my_uart_state = "('cb, 'ud) my_uart_data \<times> 'g \<times> 'w"

type_synonym ('cb, 'ud, 'g, 'w) my_uart_call =
  "'cb \<Rightarrow> dev \<Rightarrow> u8 list \<Rightarrow> nat \<Rightarrow> bool \<Rightarrow> 'ud option \<Rightarrow>
     ('cb, 'ud, 'g, 'w) my_uart_state \<Rightarrow> ('cb, 'ud, 'g, 'w) my_uart_state checked"

text \<open>The static initialiser of \<^verbatim>\<open>INIT_MY_UART_PERIPHERAL\<close>.\<close>

definition my_uart_data_init :: "my_uart_kconfig \<Rightarrow> u8 list \<Rightarrow> ('cb, 'ud) my_uart_data" where
  "my_uart_data_init K initial_string =
     \<lparr>str = take (MAX_STR_LEN K + 1) (initial_string @ replicate (MAX_STR_LEN K + 1) 0),
      rx_buf = replicate (RX_BUF_SIZE K) 0, rx_data_len = 0,
      string_callback = None, user_data = None\<rparr>"

section \<open>Operations\<close>

definition user_set_string ::
    "my_uart_kconfig \<Rightarrow> u8 list \<Rightarrow> nat \<Rightarrow> ('cb, 'ud) my_uart_data \<Rightarrow> ('cb, 'ud) my_uart_data checked" where
  "user_set_string K string len data =
     (if ASSERT K \<and> \<not> len \<le> MAX_STR_LEN K then Inl Assert_failed
      else sbind (memcpy 0 string len (str data)) (\<lambda>s.
           sbind (store len 0 s) (\<lambda>s'.
           Inr (data\<lparr>str := s'\<rparr>))))"

definition user_set_string_callback ::
    "'cb option \<Rightarrow> 'ud option \<Rightarrow> ('cb, 'ud) my_uart_data \<Rightarrow> ('cb, 'ud) my_uart_data" where
  "user_set_string_callback callback ud data = data\<lparr>string_callback := callback, user_data := ud\<rparr>"

text \<open>The driver's entry in its device, and the wrappers of \<^verbatim>\<open>api.h\<close> that call through it.\<close>

record ('cb, 'ud) my_uart_peripheral_api =
  set_string :: "u8 list \<Rightarrow> nat \<Rightarrow> ('cb, 'ud) my_uart_data \<Rightarrow> ('cb, 'ud) my_uart_data checked"
  set_callback :: "'cb option \<Rightarrow> 'ud option \<Rightarrow> ('cb, 'ud) my_uart_data \<Rightarrow> ('cb, 'ud) my_uart_data"

definition api :: "my_uart_kconfig \<Rightarrow> ('cb, 'ud) my_uart_peripheral_api" where
  "api K = \<lparr>set_string = user_set_string K, set_callback = user_set_string_callback\<rparr>"

definition my_uart_set_string ::
    "('cb, 'ud) my_uart_peripheral_api \<Rightarrow> u8 list \<Rightarrow> nat \<Rightarrow> ('cb, 'ud) my_uart_data \<Rightarrow>
     ('cb, 'ud) my_uart_data checked" where
  "my_uart_set_string a string len data = set_string a string len data"

definition my_uart_set_callback ::
    "('cb, 'ud) my_uart_peripheral_api \<Rightarrow> 'cb option \<Rightarrow> 'ud option \<Rightarrow> ('cb, 'ud) my_uart_data \<Rightarrow>
     ('cb, 'ud) my_uart_data" where
  "my_uart_set_callback a callback ud data = set_callback a callback ud data"

text \<open>The GPIO callback: the string, byte by byte, then its terminator.\<close>

definition transmit_string ::
    "'w uart_api \<Rightarrow> my_uart_conf \<Rightarrow> ('cb, 'ud) my_uart_data \<Rightarrow> 'w \<Rightarrow> 'w checked" where
  "transmit_string U conf data w =
     sbind (cstr (str data)) (\<lambda>s.
       let len = length s;
           w1 = fold (\<lambda>i w. uart_poll_out U (uart_dev conf) (str data ! i) w) [0..<len] w
       in Inr (uart_poll_out U (uart_dev conf) 0 w1))"

text \<open>Hand the buffer to the callback, if there is one, and start over.\<close>

definition deliver ::
    "my_uart_kconfig \<Rightarrow> ('cb, 'ud, 'g, 'w) my_uart_call \<Rightarrow> dev \<Rightarrow> 'cb option \<Rightarrow> bool \<Rightarrow>
     ('cb, 'ud, 'g, 'w) my_uart_state \<Rightarrow> ('cb, 'ud, 'g, 'w) my_uart_state checked" where
  "deliver K call dev callback is_string st =
     sbind (case callback of
              None \<Rightarrow> Inr st
            | Some cb \<Rightarrow> call cb dev (rx_buf (fst st)) (rx_data_len (fst st)) is_string
                          (user_data (fst st)) st)
       (\<lambda>(data, g, w).
          Inr (data\<lparr>rx_data_len := 0, rx_buf := replicate (RX_BUF_SIZE K) 0\<rparr>, g, w))"

text \<open>The body of the receive loop for the byte \<open>c\<close>.\<close>

definition rx_char ::
    "my_uart_kconfig \<Rightarrow> ('cb, 'ud, 'g, 'w) my_uart_call \<Rightarrow> dev \<Rightarrow> 'cb option \<Rightarrow> u8 \<Rightarrow>
     ('cb, 'ud, 'g, 'w) my_uart_state \<Rightarrow> ('cb, 'ud, 'g, 'w) my_uart_state checked" where
  "rx_char K call dev callback c st =
     (case st of (data, g, w) \<Rightarrow>
      sbind (store (rx_data_len data) c (rx_buf data)) (\<lambda>buf.
        let data1 = data\<lparr>rx_buf := buf, rx_data_len := rx_data_len data + 1\<rparr>;
            rx_buf_capacity = size_sub (RX_BUF_SIZE K) (rx_data_len data1)
        in if c = 0 then deliver K call dev callback True (data1, g, w)
           else if rx_buf_capacity = 0 then deliver K call dev callback False (data1, g, w)
           else Inr (data1, g, w)))"

text \<open>
  The receive loop. \<open>c\<close> is the loop's local variable: \<open>uart_poll_in\<close> writes it in every
  pass that runs the body.
\<close>

definition rx_loop ::
    "my_uart_kconfig \<Rightarrow> 'w uart_api \<Rightarrow> ('cb, 'ud, 'g, 'w) my_uart_call \<Rightarrow> dev \<Rightarrow> dev \<Rightarrow> 'cb option \<Rightarrow>
     u8 \<times> ('cb, 'ud, 'g, 'w) my_uart_state \<Rightarrow> (u8 \<times> ('cb, 'ud, 'g, 'w) my_uart_state) outcome" where
  "rx_loop K U call uart dev callback =
     whileM
       (\<lambda>(c, data, g, w). case uart_poll_in U uart w of (r, c', w') \<Rightarrow>
           (r = 0, (if r = 0 then c' else c), data, g, w'))
       (\<lambda>(c, st). Some (sbind (rx_char K call dev callback c st) (\<lambda>st'. Inr (c, st'))))"

definition uart_int_handler ::
    "my_uart_kconfig \<Rightarrow> 'w uart_api \<Rightarrow> ('cb, 'ud, 'g, 'w) my_uart_call \<Rightarrow> dev \<Rightarrow> dev \<Rightarrow>
     ('cb, 'ud, 'g, 'w) my_uart_state \<Rightarrow> ('cb, 'ud, 'g, 'w) my_uart_state outcome" where
  "uart_int_handler K U call uart dev st =
     (case st of (data, g, w) \<Rightarrow>
      let w1 = snd (uart_irq_update U uart w);
          (rdy, w2) = uart_irq_rx_ready U uart w1
      in if rdy \<noteq> 0
         then obind (rx_loop K U call uart dev (string_callback data) (0, data, g, w2))
                (\<lambda>(c, st'). Some (Inr st'))
         else Some (Inr (data, g, w2)))"

section \<open>Initialisation\<close>

definition init_uart :: "'w uart_api \<Rightarrow> my_uart_conf \<Rightarrow> dev \<Rightarrow> 'w \<Rightarrow> int \<times> 'w" where
  "init_uart U conf dev w =
     (let w1 = uart_irq_callback_user_data_set U (uart_dev conf) My_uart_int_handler (Device_ptr dev) w;
          w2 = uart_irq_rx_enable U (uart_dev conf) w1
      in (0, w2))"

definition init_gpio :: "'w gpio_api \<Rightarrow> my_uart_conf \<Rightarrow> dev \<Rightarrow> 'w \<Rightarrow> int \<times> 'w" where
  "init_gpio G conf dev w =
     (let (ret, w1) = gpio_pin_configure_dt G (gpio_spec conf) [GPIO_INPUT, GPIO_INT_EDGE_RISING] w
      in if ret \<noteq> 0 then (ret, w1)
         else let (ret, w2) = gpio_pin_interrupt_configure_dt G (gpio_spec conf)
                                [GPIO_INT_EDGE_TO_ACTIVE, GPIO_INT_EDGE_RISING] w1
         in if ret \<noteq> 0 then (ret, w2)
            else let w3 = gpio_init_callback G dev Transmit_string (2 ^ pin (gpio_spec conf)) w2
                 in gpio_add_callback G (port (gpio_spec conf)) dev w3)"

text \<open>
  \<^verbatim>\<open>__ASSERT(false, ...)\<close> stops the program where assertions are compiled in; otherwise
  the next statement returns the error.
\<close>

definition assert_false :: "bool \<Rightarrow> 'a \<Rightarrow> 'a checked" where
  "assert_false enabled x = (if enabled then Inl Assert_failed else Inr x)"

definition init_my_uart_peripheral ::
    "my_uart_kconfig \<Rightarrow> 'w kernel_api \<Rightarrow> 'w uart_api \<Rightarrow> 'w gpio_api \<Rightarrow> my_uart_conf \<Rightarrow> dev \<Rightarrow> 'w \<Rightarrow>
     (int \<times> 'w) checked" where
  "init_my_uart_peripheral K Z U G conf dev w =
     (if \<not> device_is_ready Z (uart_dev conf) w then assert_false (ASSERT K) (- ENODEV, w)
      else let (ret, w1) = init_uart U conf dev w
      in if ret \<noteq> 0 then assert_false (ASSERT K) (- ENODEV, w1)
      else if \<not> device_is_ready Z (port (gpio_spec conf)) w1 then assert_false (ASSERT K) (- ENODEV, w1)
      else let (ret, w2) = init_gpio G conf dev w1
      in if ret \<noteq> 0 then assert_false (ASSERT K) (- ENODEV, w2)
      else Inr (0, w2))"

section \<open>Instances\<close>

text \<open>
  What a node of the device tree gives its instance of the driver, and the instance
  \<^verbatim>\<open>INIT_MY_UART_PERIPHERAL\<close> defines for it: its data and its configuration.
\<close>

record my_uart_node =
  node_bus :: dev
  button_gpios :: gpio_dt_spec
  initial_string :: "u8 list option"

definition MY_UART_PERIPHERAL_INIT_PRIORITY :: nat where "MY_UART_PERIPHERAL_INIT_PRIORITY = 41"

definition my_uart_conf_init :: "my_uart_node \<Rightarrow> my_uart_conf" where
  "my_uart_conf_init node = \<lparr>uart_dev = node_bus node, gpio_spec = button_gpios node\<rparr>"

definition INIT_MY_UART_PERIPHERAL ::
    "my_uart_kconfig \<Rightarrow> my_uart_node \<Rightarrow> ('cb, 'ud) my_uart_data \<times> my_uart_conf" where
  "INIT_MY_UART_PERIPHERAL K node =
     (my_uart_data_init K (case initial_string node of None \<Rightarrow> [] | Some s \<Rightarrow> s), my_uart_conf_init node)"

section \<open>What receiving promises\<close>

text \<open>
  The framing the driver implements: bytes are collected until a NUL arrives (a string) or
  the buffer holds \<open>n\<close> bytes (a fragment).
\<close>

definition string_step :: "nat \<Rightarrow> u8 \<Rightarrow> u8 list \<Rightarrow> u8 list \<times> (u8 list \<times> bool) list" where
  "string_step n c acc =
     (if c = 0 then ([], [(acc @ [c], True)])
      else if length acc + 1 = n then ([], [(acc @ [c], False)])
      else (acc @ [c], []))"

definition string_acc_ok :: "nat \<Rightarrow> u8 list \<Rightarrow> bool" where
  "string_acc_ok n acc \<longleftrightarrow> length acc < n \<and> 0 \<notin> set acc"

interpretation string_framer: lossless_framer "string_step n" "string_acc_ok n" "\<lambda>acc. acc" fst
  for n
  by unfold_locales (auto simp: string_step_def string_acc_ok_def)

lemma string_step_simps:
  "string_step n 0 acc = ([], [(acc @ [0], True)])"
  "c \<noteq> 0 \<Longrightarrow> length acc + 1 = n \<Longrightarrow> string_step n c acc = ([], [(acc @ [c], False)])"
  "c \<noteq> 0 \<Longrightarrow> length acc + 1 \<noteq> n \<Longrightarrow> string_step n c acc = (acc @ [c], [])"
  by (simp_all add: string_step_def)

text \<open>A frame: a NUL-terminated string that fits the buffer, or a full buffer without NUL.\<close>

definition string_frame_ok :: "nat \<Rightarrow> u8 list \<times> bool \<Rightarrow> bool" where
  "string_frame_ok n e \<longleftrightarrow>
     (if snd e then fst e \<noteq> [] \<and> last (fst e) = 0 \<and> 0 \<notin> set (butlast (fst e)) \<and> length (fst e) \<le> n
      else 0 \<notin> set (fst e) \<and> length (fst e) = n)"

lemma string_step_shape:
  "string_acc_ok n acc \<Longrightarrow> list_all (string_frame_ok n) (snd (string_step n c acc))"
  by (simp add: string_step_def string_acc_ok_def string_frame_ok_def)

lemma string_frames_shape:
  "string_acc_ok n acc \<Longrightarrow> list_all (string_frame_ok n) (frames (string_step n) cs acc)"
proof (induction cs arbitrary: acc)
  case Nil
  then show ?case by simp
next
  case (Cons c cs)
  then show ?case
    using string_step_shape [OF Cons.prems] string_framer.ok_step [OF Cons.prems] by simp
qed

lemma string_frames_string:
  "0 \<notin> set s \<Longrightarrow> length acc + length s < n \<Longrightarrow>
     frames (string_step n) (s @ [0]) acc = [(acc @ s @ [0], True)] \<and>
     residue (string_step n) (s @ [0]) acc = []"
  by (induction s arbitrary: acc) (auto simp: string_step_simps)

lemma count_string_frames:
  "length (filter snd (frames (string_step n) cs acc)) = count_list cs 0"
proof (induction cs arbitrary: acc)
  case Nil
  then show ?case by simp
next
  case (Cons c cs)
  then show ?case
    by (cases "c = 0"; cases "length acc + 1 = n") (simp_all add: string_step_simps)
qed

text \<open>The driver's data is well formed: sizes, the zeroed tail, a terminated string.\<close>

definition pending :: "('cb, 'ud) my_uart_data \<Rightarrow> u8 list" where
  "pending data = take (rx_data_len data) (rx_buf data)"

definition wf_rx :: "my_uart_kconfig \<Rightarrow> ('cb, 'ud) my_uart_data \<Rightarrow> bool" where
  "wf_rx K data \<longleftrightarrow>
     length (rx_buf data) = RX_BUF_SIZE K \<and> RX_BUF_SIZE K < 2 ^ 32 \<and>
     rx_data_len data < RX_BUF_SIZE K \<and>
     drop (rx_data_len data) (rx_buf data) = replicate (RX_BUF_SIZE K - rx_data_len data) 0 \<and>
     0 \<notin> set (pending data)"

definition wf_str :: "my_uart_kconfig \<Rightarrow> ('cb, 'ud) my_uart_data \<Rightarrow> bool" where
  "wf_str K data \<longleftrightarrow> length (str data) = MAX_STR_LEN K + 1 \<and> 0 \<in> set (str data)"

text \<open>
  What the driver's users promise: the callback returns, touches neither the driver's
  data nor the receiver, and acts on what the theorem observes as \<open>upd\<close> says.
\<close>

definition callback_contract ::
    "('cb, 'ud, 'g, 'w) my_uart_call \<Rightarrow> dev \<Rightarrow> 'cb option \<Rightarrow> 'ud option \<Rightarrow> ('w \<Rightarrow> u8 list) \<Rightarrow>
     ('g \<times> 'w \<Rightarrow> 'a) \<Rightarrow> (u8 list \<times> bool \<Rightarrow> 'a \<Rightarrow> 'a) \<Rightarrow> bool" where
  [contract_defs]: "callback_contract call dev callback ud rx \<alpha> upd \<longleftrightarrow>
     (case callback of
        None \<Rightarrow> (\<forall>e a. upd e a = a)
      | Some cb \<Rightarrow> (\<forall>buf len b data g w.
          0 < len \<and> len \<le> length buf \<and> (b \<longrightarrow> buf ! (len - 1) = 0) \<longrightarrow>
          (\<exists>g' w'. call cb dev buf len b ud (data, g, w) = Inr (data, g', w') \<and>
             rx w' = rx w \<and> \<alpha> (g', w') = upd (take len buf, b) (\<alpha> (g, w)))))"

section \<open>The receive path implements the framing\<close>

lemma wf_rx_init: "0 < RX_BUF_SIZE K \<Longrightarrow> RX_BUF_SIZE K < 2 ^ 32 \<Longrightarrow> wf_rx K (my_uart_data_init K s)"
  by (simp add: wf_rx_def my_uart_data_init_def pending_def)

lemma callback_keeps:
  "wf_rx K (user_set_string_callback cb ud data) = wf_rx K data"
  "wf_str K (user_set_string_callback cb ud data) = wf_str K data"
  "pending (user_set_string_callback cb ud data) = pending data"
  "string_callback (user_set_string_callback cb ud data) = cb" "user_data (user_set_string_callback cb ud data) = ud"
  by (simp_all add: user_set_string_callback_def wf_rx_def wf_str_def pending_def)

lemma wf_str_init: "length s \<le> MAX_STR_LEN K \<Longrightarrow> wf_str K (my_uart_data_init K s)"
  by (simp add: wf_str_def my_uart_data_init_def min_def del: replicate_Suc)

lemma wf_rx_cleared:
  "0 < RX_BUF_SIZE K \<Longrightarrow> RX_BUF_SIZE K < 2 ^ 32 \<Longrightarrow>
     wf_rx K (data\<lparr>rx_data_len := 0, rx_buf := replicate (RX_BUF_SIZE K) 0\<rparr>)"
  by (simp add: wf_rx_def pending_def)

text \<open>The fields no received byte changes.\<close>

definition fixed_fields :: "('cb, 'ud) my_uart_data \<Rightarrow> u8 list \<times> 'cb option \<times> 'ud option" where
  "fixed_fields data = (str data, string_callback data, user_data data)"

lemma deliver_frames:
  assumes cb: "callback_contract call dev callback (user_data data) rx \<alpha> upd"
    and wf: "0 < rx_data_len data" "rx_data_len data \<le> length (rx_buf data)"
    and nul: "b \<longrightarrow> rx_buf data ! (rx_data_len data - 1) = 0"
  shows "\<exists>g' w'. deliver K call dev callback b (data, g, w) =
       Inr (data\<lparr>rx_data_len := 0, rx_buf := replicate (RX_BUF_SIZE K) 0\<rparr>, g', w') \<and>
     rx w' = rx w \<and> \<alpha> (g', w') = upd (pending data, b) (\<alpha> (g, w))"
proof (cases callback)
  case None
  with cb show ?thesis by (simp add: deliver_def callback_contract_def)
next
  case (Some c)
  with cb have "\<forall>buf len b D g w. 0 < len \<and> len \<le> length buf \<and> (b \<longrightarrow> buf ! (len - 1) = 0) \<longrightarrow>
      (\<exists>g' w'. call c dev buf len b (user_data data) (D, g, w) = Inr (D, g', w') \<and>
         rx w' = rx w \<and> \<alpha> (g', w') = upd (take len buf, b) (\<alpha> (g, w)))"
    by (simp add: callback_contract_def)
  with wf nul obtain g' w' where
    "call c dev (rx_buf data) (rx_data_len data) b (user_data data) (data, g, w) = Inr (data, g', w')"
    "rx w' = rx w" "\<alpha> (g', w') = upd (pending data, b) (\<alpha> (g, w))"
    unfolding pending_def by blast
  with Some show ?thesis by (simp add: deliver_def)
qed

lemma rx_char_frames:
  assumes cb: "callback_contract call dev callback (user_data data) rx \<alpha> upd"
    and wf: "wf_rx K data"
  shows "\<exists>data' g' w'. rx_char K call dev callback c (data, g, w) = Inr (data', g', w') \<and>
     wf_rx K data' \<and> fixed_fields data' = fixed_fields data \<and> rx w' = rx w \<and>
     (pending data', \<alpha> (g', w')) =
       fpush (string_step (RX_BUF_SIZE K)) upd c (pending data, \<alpha> (g, w))"
proof -
  let ?n = "rx_data_len data" and ?N = "RX_BUF_SIZE K"
  let ?d = "data\<lparr>rx_buf := (rx_buf data)[?n := c], rx_data_len := Suc ?n\<rparr>"
  from wf have n: "length (rx_buf data) = ?N" "?n < ?N" "?N < 2 ^ 32" and z: "0 \<notin> set (pending data)"
    by (simp_all add: wf_rx_def)
  have p: "pending ?d = pending data @ [c]" and l: "length (pending data) = ?n"
    using n by (simp_all add: pending_def)
  have cb': "callback_contract call dev callback (user_data ?d) rx \<alpha> upd"
    using cb by simp
  have d: "\<exists>g' w'. deliver K call dev callback b (?d, g, w) =
       Inr (?d\<lparr>rx_data_len := 0, rx_buf := replicate ?N 0\<rparr>, g', w') \<and>
       rx w' = rx w \<and> \<alpha> (g', w') = upd (pending data @ [c], b) (\<alpha> (g, w))"
    if "b \<longrightarrow> c = 0" for b
    using deliver_frames [OF cb', of b K g w] that n by (simp add: p)
  have clr: "wf_rx K (?d\<lparr>rx_data_len := 0, rx_buf := replicate ?N 0\<rparr>)"
    using n by (intro wf_rx_cleared) auto
  have e: "rx_char K call dev callback c (data, g, w) =
      (if c = 0 then deliver K call dev callback True (?d, g, w)
       else if ?n + 1 = ?N then deliver K call dev callback False (?d, g, w) else Inr (?d, g, w))"
    using n by (simp add: rx_char_def store_ok Let_def)
  consider "c = 0" | "c \<noteq> 0" "?n + 1 = ?N" | "c \<noteq> 0" "?n + 1 \<noteq> ?N" by blast
  then show ?thesis
  proof cases
    case 1
    with d [of True] obtain g' w' where
      r: "deliver K call dev callback True (?d, g, w) =
        Inr (?d\<lparr>rx_data_len := 0, rx_buf := replicate ?N 0\<rparr>, g', w')"
        "rx w' = rx w" "\<alpha> (g', w') = upd (pending data @ [c], True) (\<alpha> (g, w))" by blast
    moreover from 1 have "rx_char K call dev callback c (data, g, w) =
        deliver K call dev callback True (?d, g, w)" using e by simp
    moreover have "fpush (string_step ?N) upd c (pending data, \<alpha> (g, w)) =
        ([], upd (pending data @ [c], True) (\<alpha> (g, w)))"
      using 1 l by (simp add: fpush_def string_step_simps)
    ultimately show ?thesis
      using clr by (auto simp: fixed_fields_def pending_def)
  next
    case 2
    with d [of False] obtain g' w' where
      r: "deliver K call dev callback False (?d, g, w) =
        Inr (?d\<lparr>rx_data_len := 0, rx_buf := replicate ?N 0\<rparr>, g', w')"
        "rx w' = rx w" "\<alpha> (g', w') = upd (pending data @ [c], False) (\<alpha> (g, w))" by blast
    moreover from 2 have "rx_char K call dev callback c (data, g, w) =
        deliver K call dev callback False (?d, g, w)" using e by simp
    moreover have "fpush (string_step ?N) upd c (pending data, \<alpha> (g, w)) =
        ([], upd (pending data @ [c], False) (\<alpha> (g, w)))"
      using 2 l by (simp add: fpush_def string_step_simps)
    ultimately show ?thesis
      using clr by (auto simp: fixed_fields_def pending_def)
  next
    case 3
    have t: "drop (?n + 1) ((rx_buf data)[?n := c]) = replicate (?N - (?n + 1)) 0"
      using wf zero_tail_update [of ?n "rx_buf data" ?N c] by (simp add: wf_rx_def)
    with 3 n z have "wf_rx K ?d" by (simp add: wf_rx_def p)
    with 3 l p show ?thesis
      by (auto simp: e fpush_def string_step_simps fixed_fields_def)
  qed
qed

lemma rx_loop_run:
  fixes call :: "('cb, 'ud, 'g, 'w) my_uart_call" and \<alpha> :: "'g \<times> 'w \<Rightarrow> 'a"
  assumes poll: "poll_in_contract U uart rx (\<lambda>w g. \<alpha> (g, w))"
    and cb: "callback_contract call dev callback (user_data data) rx \<alpha> upd"
    and wf: "wf_rx K data"
  shows "\<exists>c' data' g' w'.
     rx_loop K U call uart dev callback (c, data, g, w) = Some (Inr (c', data', g', w')) \<and>
     wf_rx K data' \<and> fixed_fields data' = fixed_fields data \<and> rx w' = [] \<and>
     pending data' = residue (string_step (RX_BUF_SIZE K)) (rx w) (pending data) \<and>
     \<alpha> (g', w') = fold upd (frames (string_step (RX_BUF_SIZE K)) (rx w) (pending data)) (\<alpha> (g, w))"
proof -
  let ?P = "\<lambda>(c :: u8, D :: ('cb, 'ud) my_uart_data, g :: 'g, w :: 'w). wf_rx K D \<and> fixed_fields D = fixed_fields data"
  let ?inp = "\<lambda>(c :: u8, D :: ('cb, 'ud) my_uart_data, g :: 'g, w :: 'w). rx w"
  let ?abs = "\<lambda>(c :: u8, D :: ('cb, 'ud) my_uart_data, g :: 'g, w :: 'w). (pending D, \<alpha> (g, w))"
  let ?f = "fpush (string_step (RX_BUF_SIZE K)) upd"
  have "\<exists>s'. rx_loop K U call uart dev callback (c, data, g, w) = Some (Inr s') \<and> ?P s' \<and> ?inp s' = [] \<and>
      ?abs s' = fold ?f (?inp (c, data, g, w)) (?abs (c, data, g, w))"
    unfolding rx_loop_def
  proof (rule whileM_drain [where P = ?P and inp = ?inp and obs = ?abs and f = ?f])
    show "?P (c, data, g, w)" using wf by simp
  next
    fix s
    assume P: "?P s" and e: "?inp s = []"
    obtain c D g w where s: "s = (c, D, g, w)" by (cases s)
    with e have "rx w = []" by simp
    with poll obtain r c' w' where "uart_poll_in U uart w = (r, c', w')" "r \<noteq> 0" "rx w' = []"
      "(\<lambda>g. \<alpha> (g, w')) = (\<lambda>g. \<alpha> (g, w))" by (rule poll_in_contract_empty)
    with s P show "\<exists>s1. (case s of (c, data, g, w) \<Rightarrow> case uart_poll_in U uart w of (r, c', w') \<Rightarrow>
           (r = 0, (if r = 0 then c' else c), data, g, w')) = (False, s1) \<and>
         ?P s1 \<and> ?inp s1 = [] \<and> ?abs s1 = ?abs s"
      by (auto simp: fun_eq_iff)
  next
    fix s b bs
    assume P: "?P s" and i: "?inp s = b # bs"
    obtain c D g w where s: "s = (c, D, g, w)" by (cases s)
    with i have "rx w = b # bs" by simp
    with poll obtain w1 where w1: "uart_poll_in U uart w = (0, b, w1)" "rx w1 = bs"
      "(\<lambda>g. \<alpha> (g, w1)) = (\<lambda>g. \<alpha> (g, w))" by (rule poll_in_contract_byte)
    then have a: "\<alpha> (g, w1) = \<alpha> (g, w)" by (simp add: fun_eq_iff)
    from P s have D: "wf_rx K D" "fixed_fields D = fixed_fields data" by auto
    then have "user_data D = user_data data" by (simp add: fixed_fields_def)
    with cb have "callback_contract call dev callback (user_data D) rx \<alpha> upd" by simp
    from rx_char_frames [OF this D(1), of b g w1] obtain D' g' w' where
      r: "rx_char K call dev callback b (D, g, w1) = Inr (D', g', w')" "wf_rx K D'"
      "fixed_fields D' = fixed_fields D" "rx w' = rx w1"
      "(pending D', \<alpha> (g', w')) = ?f b (pending D, \<alpha> (g, w1))" by blast
    show "\<exists>s1 s2. (case s of (c, data, g, w) \<Rightarrow> case uart_poll_in U uart w of (r, c', w') \<Rightarrow>
           (r = 0, (if r = 0 then c' else c), data, g, w')) = (True, s1) \<and>
         (case s1 of (c, st) \<Rightarrow> Some (sbind (rx_char K call dev callback c st) (\<lambda>st'. Inr (c, st')))) =
           Some (Inr s2) \<and> ?P s2 \<and> ?inp s2 = bs \<and> ?abs s2 = ?f b (?abs s)"
      using s w1(1,2) r D a by auto
  qed
  then show ?thesis
    by (auto simp: fold_fpush)
qed

text \<open>The same for the handler, whether or not its first test finds the receiver ready.\<close>

lemma uart_int_handler_run:
  assumes U: "poll_uart_contract U uart rx (\<lambda>w g. \<alpha> (g, w))"
    and cb: "callback_contract call dev (string_callback data) (user_data data) rx \<alpha> upd"
    and wf: "wf_rx K data"
  shows "\<exists>data' g' w'.
     uart_int_handler K U call uart dev (data, g, w) = Some (Inr (data', g', w')) \<and>
     wf_rx K data' \<and> fixed_fields data' = fixed_fields data \<and> rx w' = [] \<and>
     pending data' = residue (string_step (RX_BUF_SIZE K)) (rx w) (pending data) \<and>
     \<alpha> (g', w') = fold upd (frames (string_step (RX_BUF_SIZE K)) (rx w) (pending data)) (\<alpha> (g, w))"
proof -
  let ?w1 = "snd (uart_irq_update U uart w)"
  obtain rdy w2 where q: "uart_irq_rx_ready U uart ?w1 = (rdy, w2)"
    by (cases "uart_irq_rx_ready U uart ?w1")
  from U have upd: "query_contract (uart_irq_update U uart) rx (\<lambda>w g. \<alpha> (g, w))"
    and rr: "rx_ready_contract U uart rx (\<lambda>w g. \<alpha> (g, w))"
    and pl: "poll_in_contract U uart rx (\<lambda>w g. \<alpha> (g, w))"
    by (simp_all add: poll_uart_contract_def)
  from upd have w1: "rx ?w1 = rx w" "\<alpha> (g, ?w1) = \<alpha> (g, w)"
    by (simp_all add: query_contract_def fun_eq_iff)
  from rx_ready_contractD [OF rr q] w1 have r: "rdy \<noteq> 0 \<longleftrightarrow> rx w \<noteq> []"
    and w2: "rx w2 = rx w" "\<alpha> (g, w2) = \<alpha> (g, w)"
    using fun_cong [OF rx_ready_contractD(3) [OF rr q], of g] by simp_all
  show ?thesis
  proof (cases "rdy = 0")
    case True
    with r have "rx w = []" by simp
    with True wf w2 show ?thesis by (simp add: uart_int_handler_def Let_def q)
  next
    case False
    with rx_loop_run [OF pl cb wf, of 0 g w2] w2 show ?thesis
      by (auto simp: uart_int_handler_def Let_def q)
  qed
qed

section \<open>Properties\<close>

text \<open>C8. Whatever bytes arrive, the interrupt handler returns without touching memory it does
  not own, leaves the receiver empty and the driver well formed, and calls the callback
  once per frame in order: a frame is a NUL-terminated string that fits the buffer or a
  full buffer without a NUL, and the frames followed by what is still pending are exactly
  what was pending followed by the bytes received, so no byte is lost, repeated or moved.\<close>

theorem uart_int_handler_frames:
  assumes "poll_uart_contract U uart rx (\<lambda>w g. \<alpha> (g, w))"
    and "callback_contract call dev (string_callback data) (user_data data) rx \<alpha> upd"
    and "wf_rx K data"
  shows "\<exists>data' g' w' fs.
     uart_int_handler K U call uart dev (data, g, w) = Some (Inr (data', g', w')) \<and>
     wf_rx K data' \<and> fixed_fields data' = fixed_fields data \<and> rx w' = [] \<and>
     \<alpha> (g', w') = fold upd fs (\<alpha> (g, w)) \<and>
     concat (map fst fs) @ pending data' = pending data @ rx w \<and>
     list_all (string_frame_ok (RX_BUF_SIZE K)) fs"
proof -
  let ?fs = "frames (string_step (RX_BUF_SIZE K)) (rx w) (pending data)"
  have ok: "string_acc_ok (RX_BUF_SIZE K) (pending data)"
    using assms(3) by (auto simp: wf_rx_def string_acc_ok_def pending_def)
  have "list_all (string_frame_ok (RX_BUF_SIZE K)) ?fs"
    by (rule string_frames_shape [OF ok])
  moreover have "concat (map fst ?fs) @ residue (string_step (RX_BUF_SIZE K)) (rx w) (pending data) =
      pending data @ rx w"
    by (rule string_framer.lossless [OF ok])
  moreover from uart_int_handler_run [OF assms, of g w] obtain data' g' w' where
    "uart_int_handler K U call uart dev (data, g, w) = Some (Inr (data', g', w'))"
    "wf_rx K data'" "fixed_fields data' = fixed_fields data" "rx w' = []"
    "pending data' = residue (string_step (RX_BUF_SIZE K)) (rx w) (pending data)"
    "\<alpha> (g', w') = fold upd ?fs (\<alpha> (g, w))" by blast
  ultimately show ?thesis by (intro exI [of _ data'] exI [of _ g'] exI [of _ w'] exI [of _ ?fs]) simp
qed

definition K64 :: my_uart_kconfig where
  "K64 = \<lparr>MAX_STR_LEN = 64, RX_BUF_SIZE = 64, ASSERT = False\<rparr>"

definition logging_call :: "(unit, unit, (u8 list \<times> bool) list, 'w) my_uart_call" where
  "logging_call cb dev buf len b ud st =
     (case st of (data, g, w) \<Rightarrow> Inr (data, g @ [(take len buf, b)], w))"

lemma logging_contract:
  "callback_contract logging_call dev (Some ()) ud rx fst (\<lambda>e a. a @ [e])"
  by (simp add: callback_contract_def logging_call_def)

theorem uart_int_handler_frames_witness:
  "\<exists>data' g' w' fs.
     uart_int_handler K64 board_uart logging_call 2 1
       (user_set_string_callback (Some ()) None (my_uart_data_init K64 []), [], board_rx 2 [72, 105, 0, 33])
       = Some (Inr (data', g', w')) \<and>
     g' = fold (\<lambda>e a. a @ [e]) fs [] \<and> concat (map fst fs) @ pending data' = [72, 105, 0, 33]"
proof -
  let ?D = "user_set_string_callback (Some ()) None (my_uart_data_init K64 []) :: (unit, unit) my_uart_data"
  have U: "poll_uart_contract board_uart 2 (\<lambda>w. rxq w 2) (\<lambda>w g. fst (g, w))"
    by (rule board_poll_uart) (simp add: rxq_blind_def)
  have wf: "wf_rx K64 ?D"
    by (simp add: wf_rx_def my_uart_data_init_def user_set_string_callback_def pending_def K64_def)
  have cb: "callback_contract logging_call 1 (string_callback ?D) (user_data ?D) (\<lambda>w. rxq w 2) fst (\<lambda>e a. a @ [e])"
    by (simp add: user_set_string_callback_def logging_contract)
  have p: "pending ?D = []"
    by (simp add: pending_def user_set_string_callback_def my_uart_data_init_def)
  from uart_int_handler_frames [OF U cb wf, of "[]" "board_rx 2 [72, 105, 0, 33]"] p show ?thesis
    by (auto simp: board_rx_def)
qed

text \<open>What the button sends.\<close>

lemma transmit_string_sends:
  assumes "poll_out_contract U (uart_dev conf) tx" and "str data = s @ 0 # t" and "0 \<notin> set s"
  shows "\<exists>w'. transmit_string U conf data w = Inr w' \<and> tx w' = tx w @ s @ [0]"
proof -
  have m: "map (\<lambda>i. str data ! i) [0..<length s] = s"
    unfolding assms(2) by (rule nth_equalityI) (simp_all add: nth_append)
  have c: "cstr (str data) = Inr s" unfolding assms(2) using assms(3) by (rule cstr_terminated)
  have "tx (fold (\<lambda>i w. uart_poll_out U (uart_dev conf) (str data ! i) w) [0..<length s] w) = tx w @ s"
    using poll_out_fold [OF assms(1), of "\<lambda>i. str data ! i" "[0..<length s]" w] unfolding m .
  with assms(1) show ?thesis unfolding transmit_string_def c by (simp add: Let_def poll_out_contract_def)
qed

lemma user_set_string_ok:
  assumes "wf_str K data" and "len \<le> length string" and "len \<le> MAX_STR_LEN K"
  shows "user_set_string K string len data =
    Inr (data\<lparr>str := take len string @ 0 # drop (len + 1) (str data)\<rparr>)"
proof -
  have l: "length (str data) = MAX_STR_LEN K + 1" using assms(1) by (simp add: wf_str_def)
  have "drop len (str data) = str data ! len # drop (Suc len) (str data)"
    using l assms(3) by (simp add: Cons_nth_drop_Suc)
  then show ?thesis
    using l assms(2,3) by (simp add: user_set_string_def mem_simps list_update_append)
qed

text \<open>Setting the string: up to the configured maximum it replaces the old one and is
  terminated; beyond it the program stops at the assertion if assertions are compiled in
  and writes past the array if they are not.\<close>

lemma user_set_string_cases:
  assumes "wf_str K data" and "len \<le> length string"
  shows "user_set_string K string len data =
    (if len \<le> MAX_STR_LEN K then Inr (data\<lparr>str := take len string @ 0 # drop (len + 1) (str data)\<rparr>)
     else Inl (if ASSERT K then Assert_failed else OOB_write))"
proof -
  have l: "length (str data) = MAX_STR_LEN K + 1" using assms(1) by (simp add: wf_str_def)
  consider "len \<le> MAX_STR_LEN K" | "len = MAX_STR_LEN K + 1" | "len > MAX_STR_LEN K + 1" by linarith
  then show ?thesis
  proof cases
    case 1
    with user_set_string_ok [OF assms] show ?thesis by simp
  qed (use l assms(2) in \<open>simp_all add: user_set_string_def mem_simps\<close>)
qed

text \<open>A string that was set is the string the button transmits, followed by one NUL, and
  the next string can be set afterwards.\<close>

lemma set_string_transmit:
  assumes "poll_out_contract U (uart_dev conf) tx" and "wf_str K data"
    and "0 \<notin> set s" and "length s \<le> MAX_STR_LEN K"
  shows "\<exists>data' w'. user_set_string K s (length s) data = Inr data' \<and> wf_str K data' \<and>
     transmit_string U conf data' w = Inr w' \<and> tx w' = tx w @ s @ [0]"
proof -
  let ?d = "data\<lparr>str := s @ 0 # drop (length s + 1) (str data)\<rparr>"
  have l: "length (str data) = MAX_STR_LEN K + 1" using assms(2) by (simp add: wf_str_def)
  have set: "user_set_string K s (length s) data = Inr ?d"
    using user_set_string_ok [OF assms(2) _ assms(4), of s] by simp
  from l have wf: "wf_str K ?d" using assms(4) by (simp add: wf_str_def)
  from transmit_string_sends [OF assms(1), of ?d s "drop (length s + 1) (str data)" w] assms(3) obtain w' where
    "transmit_string U conf ?d w = Inr w'" "tx w' = tx w @ s @ [0]" by auto
  with set wf show ?thesis by (intro exI [of _ ?d] exI [of _ w']) simp
qed

text \<open>C20. What one peripheral transmits another receives as the same string: the bytes the
  button sends, arriving at an idle receiver whose buffer has room for string and
  terminator, make exactly one callback, with the string, its NUL and \<open>is_string\<close> set.\<close>

theorem transmit_receive_roundtrip:
  assumes tx: "poll_out_contract U (uart_dev conf) tx"
    and sent: "cstr (str sender) = Inr s" "transmit_string U conf sender w = Inr w1" "tx w1 = tx w @ bs"
    and U': "poll_uart_contract U' uart rx (\<lambda>w g. \<alpha> (g, w))"
    and cb: "callback_contract call dev (string_callback data) (user_data data) rx \<alpha> upd"
    and wf: "wf_rx K data" "pending data = []" "length s < RX_BUF_SIZE K"
    and arrive: "rx wr = bs"
  shows "\<exists>data' g' w'. uart_int_handler K U' call uart dev (data, g, wr) = Some (Inr (data', g', w')) \<and>
     pending data' = [] \<and> \<alpha> (g', w') = upd (s @ [0], True) (\<alpha> (g, wr))"
proof -
  from cstr_Inr [OF sent(1)] obtain t where s: "0 \<notin> set s" "str sender = s @ 0 # t" by blast
  from transmit_string_sends [OF tx s(2,1), of w] sent(2) have "tx w1 = tx w @ s @ [0]" by simp
  with sent(3) arrive have r: "rx wr = s @ [0]" by simp
  from string_frames_string [OF s(1), of "[]" "RX_BUF_SIZE K"] wf(3)
  have f: "frames (string_step (RX_BUF_SIZE K)) (rx wr) (pending data) = [(s @ [0], True)]"
    "residue (string_step (RX_BUF_SIZE K)) (rx wr) (pending data) = []"
    by (simp_all add: r wf(2) del: frames_simps residue_simps)
  from uart_int_handler_run [OF U' cb wf(1), of g wr] f show ?thesis by auto
qed

theorem transmit_receive_roundtrip_witness:
  "\<exists>data' g' w'. uart_int_handler K64 board_uart logging_call 2 1
       (user_set_string_callback (Some ()) None (my_uart_data_init K64 []), [], board_rx 2 [72, 105, 0])
       = Some (Inr (data', g', w')) \<and> g' = [([72, 105, 0], True)]"
proof -
  let ?D = "user_set_string_callback (Some ()) None (my_uart_data_init K64 []) :: (unit, unit) my_uart_data"
  let ?S = "my_uart_data_init K64 [72, 105] :: (unit, unit) my_uart_data"
  let ?C = "\<lparr>uart_dev = 2, gpio_spec = \<lparr>port = 0, pin = 23\<rparr>\<rparr>"
  have U: "poll_uart_contract board_uart 2 (\<lambda>w. rxq w 2) (\<lambda>w g. fst (g, w))"
    by (rule board_poll_uart) (simp add: rxq_blind_def)
  have cb: "callback_contract logging_call 1 (string_callback ?D) (user_data ?D) (\<lambda>w. rxq w 2) fst (\<lambda>e a. a @ [e])"
    by (simp add: user_set_string_callback_def logging_contract)
  have wf: "wf_rx K64 ?D" "pending ?D = []" "length [72, 105 :: u8] < RX_BUF_SIZE K64"
    by (simp_all add: wf_rx_def my_uart_data_init_def user_set_string_callback_def pending_def K64_def)
  have s: "cstr (str ?S) = Inr [72, 105]"
    by (simp add: my_uart_data_init_def K64_def cstr_def)
  then obtain w1 where t: "transmit_string board_uart ?C ?S board0 = Inr w1"
    and w1: "txq w1 2 = txq board0 2 @ [72, 105, 0]"
    by (simp add: transmit_string_def my_uart_data_init_def K64_def board0_def upt_rec Let_def)
  show ?thesis
    using transmit_receive_roundtrip [OF _ s t w1 U cb wf, of "board_rx 2 [72, 105, 0]" "[]"]
    by (auto simp: board_rx_def board_poll_out)
qed

text \<open>The configuration accepts a receive buffer of size 0; with it the first byte that
  arrives is written outside the array.\<close>

lemma zero_rx_buf_overflows:
  assumes "poll_uart_contract U uart rx \<alpha>" and "RX_BUF_SIZE K = 0" and "rx w \<noteq> []"
  shows "uart_int_handler K U call uart dev (my_uart_data_init K s, g, w) = Some (Inl OOB_write)"
proof -
  let ?w1 = "snd (uart_irq_update U uart w)"
  obtain rdy w2 where q: "uart_irq_rx_ready U uart ?w1 = (rdy, w2)"
    by (cases "uart_irq_rx_ready U uart ?w1")
  from assms(1) have upd: "query_contract (uart_irq_update U uart) rx \<alpha>"
    and rr: "rx_ready_contract U uart rx \<alpha>" and pl: "poll_in_contract U uart rx \<alpha>"
    by (simp_all add: poll_uart_contract_def)
  from upd have "rx ?w1 = rx w" by (simp add: query_contract_def)
  with rx_ready_contractD [OF rr q] assms(3) have "rdy \<noteq> 0" "rx w2 \<noteq> []" by simp_all
  then obtain b bs where "rx w2 = b # bs" by (cases "rx w2") auto
  with pl obtain w3 where "uart_poll_in U uart w2 = (0, b, w3)" by (rule poll_in_contract_byte)
  then have "rx_loop K U call uart dev None (0, my_uart_data_init K s, g, w2) = Some (Inl OOB_write)"
    unfolding rx_loop_def using assms(2)
    by (intro whileM_fault) (auto simp: rx_char_def my_uart_data_init_def store_def)
  with \<open>rdy \<noteq> 0\<close> show ?thesis
    by (simp add: uart_int_handler_def Let_def q my_uart_data_init_def)
qed

text \<open>Initialisation answers 0 exactly when both devices are ready and all three GPIO
  calls succeed, and \<open>-ENODEV\<close> otherwise; when it is the GPIO that fails, the UART
  interrupt handler stays installed and its receive interrupt enabled.\<close>

lemma init_my_uart_peripheral_result:
  assumes "\<not> ASSERT K"
  shows "\<exists>ret w'. init_my_uart_peripheral K Z U G conf dev w = Inr (ret, w') \<and>
     (let wu = uart_irq_rx_enable U (uart_dev conf)
                 (uart_irq_callback_user_data_set U (uart_dev conf) My_uart_int_handler (Device_ptr dev) w);
          (gret, wg) = init_gpio G conf dev wu
      in if \<not> device_is_ready Z (uart_dev conf) w then ret = - ENODEV \<and> w' = w
         else if \<not> device_is_ready Z (port (gpio_spec conf)) wu then ret = - ENODEV \<and> w' = wu
         else w' = wg \<and> ret = (if gret = 0 then 0 else - ENODEV))"
  using assms
  by (auto simp: init_my_uart_peripheral_def init_uart_def assert_false_def Let_def split: prod.splits)

end
