(* ===== verification/Main_My_Uart_Peripheral.thy ===== *)
theory Main_My_Uart_Peripheral
  imports My_Uart_Peripheral
begin

text \<open>
  The client of the driver, \<^verbatim>\<open>src/main_my_uart_peripheral.c\<close>: a callback that prints each
  frame and counts strings and overflows.
\<close>

section \<open>State and operations\<close>

text \<open>The counters are \<open>int\<close>s of the program: 32 bits of two's complement, whose \<open>++\<close> wraps around.\<close>

record counter =
  strings :: u32
  overflows :: u32

definition tracker0 :: counter where
  "tracker0 = \<lparr>strings = 0, overflows = 0\<rparr>"

text \<open>The one function and the one object the client passes to the driver.\<close>

datatype client_fn = Peripheral_callback
datatype client_obj = Tracker

definition count_frame :: "bool \<Rightarrow> counter \<Rightarrow> counter" where
  "count_frame is_string c =
     (if is_string then c\<lparr>strings := strings c + 1\<rparr> else c\<lparr>overflows := overflows c + 1\<rparr>)"

text \<open>
  \<^verbatim>\<open>%s\<close> prints up to the NUL of the object, \<^verbatim>\<open>%.*s\<close> at most \<open>len\<close> bytes of it. The counters
  are reached through \<open>user_data\<close>; a null pointer there would be read through.
\<close>

definition peripheral_callback ::
    "'w kernel_api \<Rightarrow> dev \<Rightarrow> u8 list \<Rightarrow> nat \<Rightarrow> bool \<Rightarrow> client_obj option \<Rightarrow>
     (client_fn, client_obj, counter, 'w) my_uart_state \<Rightarrow>
     (client_fn, client_obj, counter, 'w) my_uart_state checked" where
  "peripheral_callback Z dev buf len is_string ud st =
     (case st of (data, tracker, w) \<Rightarrow>
      sbind (if is_string
             then sbind (cstr buf) (\<lambda>s. Inr (ascii ''Recieved string '' @ [34] @ s @ [34, LF]))
             else sbind (mem_get 0 len buf) (\<lambda>s. Inr
                    (ascii ''Buffer full. Recieved fragment '' @ takeWhile (\<lambda>c. c \<noteq> 0) s @ [LF])))
        (\<lambda>line. case ud of
           None \<Rightarrow> Inl OOB_read
         | Some Tracker \<Rightarrow>
             let tracker' = count_frame is_string tracker;
                 w1 = printk Z line w;
                 w2 = printk Z (ascii ''Strings: '' @ fmt_d (sint (strings tracker')) @ [LF] @
                                ascii ''Overflows: '' @ fmt_d (sint (overflows tracker')) @ [LF]) w1
             in Inr (data, tracker', w2)))"

definition client_call ::
    "'w kernel_api \<Rightarrow> (client_fn, client_obj, counter, 'w) my_uart_call" where
  "client_call Z cb = (case cb of Peripheral_callback \<Rightarrow> peripheral_callback Z)"

definition main_my_uart_peripheral ::
    "my_uart_kconfig \<Rightarrow> 'w kernel_api \<Rightarrow> (client_fn, client_obj) my_uart_data \<times> 'w \<Rightarrow>
     (client_fn, client_obj) my_uart_data \<times> 'w" where
  "main_my_uart_peripheral K Z st =
     (case st of (data, w) \<Rightarrow>
      let dev2 = device_get_binding Z (ascii ''my_uart_peripheral0'') w
      in if (case dev2 of None \<Rightarrow> True | Some d \<Rightarrow> \<not> device_is_ready Z d w)
         then (data, printk Z (ascii ''DEV2 device not found!'') w)
         else (my_uart_set_callback (api K) (Some Peripheral_callback) (Some Tracker) data, w))"

section \<open>The callback keeps its contract\<close>

text \<open>Printing does not touch the receiver.\<close>

definition printk_contract :: "'w kernel_api \<Rightarrow> ('w \<Rightarrow> u8 list) \<Rightarrow> bool" where
  [contract_defs]: "printk_contract Z rx \<longleftrightarrow> (\<forall>bs. keeps (printk Z bs) rx)"

lemma peripheral_callback_contract:
  assumes "printk_contract Z rx"
  shows "callback_contract (client_call Z) dev (Some Peripheral_callback) (Some Tracker) rx
           fst (\<lambda>e. count_frame (snd e))"
proof -
  have p: "rx (printk Z bs w) = rx w" for bs w
    using assms by (simp add: printk_contract_def keeps_def)
  have s: "\<exists>s. cstr buf = Inr s" if "0 < len" "len \<le> length buf" "buf ! (len - 1) = 0" for buf len
  proof -
    from that have "buf ! (len - 1) \<in> set buf" by (intro nth_mem) linarith
    with that(3) show ?thesis by (simp add: cstr_def)
  qed
  show ?thesis
    unfolding callback_contract_def option.case
  proof (intro allI impI)
    fix buf :: "u8 list" and len b data g w
    assume a: "0 < len \<and> len \<le> length buf \<and> (b \<longrightarrow> buf ! (len - 1) = 0)"
    then have "b \<Longrightarrow> \<exists>s. cstr buf = Inr s" using s by blast
    with a show "\<exists>g' w'. client_call Z Peripheral_callback dev buf len b (Some Tracker) (data, g, w) =
        Inr (data, g', w') \<and> rx w' = rx w \<and> fst (g', w') = count_frame (snd (take len buf, b)) (fst (g, w))"
      by (cases b) (auto simp: client_call_def peripheral_callback_def Let_def p mem_get_ok)
  qed
qed

lemma count_frames_fold:
  "fold (\<lambda>e. count_frame (snd e)) fs c =
     c\<lparr>strings := strings c + word_of_nat (length (filter snd fs)),
       overflows := overflows c + word_of_nat (length (filter (\<lambda>e. \<not> snd e) fs))\<rparr>"
  by (induction fs arbitrary: c) (simp_all add: count_frame_def ac_simps)

text \<open>The board keeps the contract for every part of it that is not the console.\<close>

lemma board_printk: "(\<And>w c. rx (w\<lparr>console := c\<rparr>) = rx w) \<Longrightarrow> printk_contract board_kernel rx"
  by (simp add: contract_defs keeps_def)

end
