(* ===== verification/Traces.thy ===== *)
theory Traces
  imports Prelude "HOL-Library.Sublist"
begin

text \<open>
  Runs of a step relation, which the systems of this development share, and the interface
  \<open>relay_line\<close>: a system that takes something in, holds it and puts it out in order.
\<close>

section \<open>Runs\<close>

inductive run :: "('s \<Rightarrow> 'e \<Rightarrow> 's \<Rightarrow> bool) \<Rightarrow> 's \<Rightarrow> 'e list \<Rightarrow> 's \<Rightarrow> bool" for step where
  idle [intro, simp]: "run step s [] s"
| extend: "run step s es t \<Longrightarrow> step t e u \<Longrightarrow> run step s (es @ [e]) u"

lemma run_append: "run step t bs u \<Longrightarrow> run step s as t \<Longrightarrow> run step s (as @ bs) u"
proof (induction rule: run.induct)
  case (idle s)
  then show ?case by simp
next
  case (extend s es t e u)
  then show ?case by (simp add: run.extend flip: append_assoc)
qed

lemma run_single: "step s e t \<Longrightarrow> run step s [e] t"
  using run.extend [OF run.idle] by fastforce

lemma run_pair: "step s e t \<Longrightarrow> step t f u \<Longrightarrow> run step s [e, f] u"
  using run.extend [OF run_single, of step s e t f u] by simp

lemma run_invariant: "run step s es t \<Longrightarrow> (\<And>s e t. P s \<Longrightarrow> step s e t \<Longrightarrow> P t) \<Longrightarrow> P s \<Longrightarrow> P t"
  by (induction rule: run.induct) blast+

text \<open>What the events of a run bring in.\<close>

definition inputs :: "('e \<Rightarrow> 'a list) \<Rightarrow> 'e list \<Rightarrow> 'a list" where
  "inputs inp es = concat (map inp es)"

lemma inputs_simps [simp]:
  "inputs inp [] = []" "inputs inp (e # es) = inp e @ inputs inp es" "inputs inp (es @ fs) = inputs inp es @ inputs inp fs"
  by (simp_all add: inputs_def)

section \<open>Systems that relay\<close>

text \<open>
  \<open>out s\<close> is what has been put out in state \<open>s\<close>, an item \<open>m\<close> as \<open>enc m\<close>; \<open>held s\<close> are the items
  on their way and \<open>inp e\<close> those that the event \<open>e\<close> brings. A step may lose items but neither
  invents nor reorders any; it loses none when as many as are there and come in \<open>fits\<close>.
\<close>

locale relay_line =
  fixes step :: "'s \<Rightarrow> 'e \<Rightarrow> 's \<Rightarrow> bool"
    and ok :: "'s \<Rightarrow> bool"
    and out :: "'s \<Rightarrow> 'b list"
    and enc :: "'a \<Rightarrow> 'b list"
    and held :: "'s \<Rightarrow> 'a list"
    and inp :: "'e \<Rightarrow> 'a list"
    and fits :: "nat \<Rightarrow> bool"
  assumes ok_step: "ok s \<Longrightarrow> step s e t \<Longrightarrow> ok t"
    and relay_step: "ok s \<Longrightarrow> step s e t \<Longrightarrow>
       \<exists>ms. out t = out s @ concat (map enc ms) \<and> subseq (ms @ held t) (held s @ inp e) \<and>
         (fits (length (held s) + length (inp e)) \<longrightarrow> ms @ held t = held s @ inp e)"
    and fits_less: "fits n \<Longrightarrow> m \<le> n \<Longrightarrow> fits m"
begin

lemma run_ok: "run step s es t \<Longrightarrow> ok s \<Longrightarrow> ok t"
  by (erule run_invariant) (rule ok_step)

lemma relay_run:
  "run step s es t \<Longrightarrow> ok s \<Longrightarrow>
     \<exists>ms. out t = out s @ concat (map enc ms) \<and> subseq (ms @ held t) (held s @ inputs inp es) \<and>
       (fits (length (held s) + length (inputs inp es)) \<longrightarrow> ms @ held t = held s @ inputs inp es)"
proof (induction rule: run.induct)
  case (idle s)
  then show ?case by (intro exI [of _ "[]"]) simp
next
  case (extend s es t e u)
  then obtain as where a: "out t = out s @ concat (map enc as)" "subseq (as @ held t) (held s @ inputs inp es)"
    "fits (length (held s) + length (inputs inp es)) \<longrightarrow> as @ held t = held s @ inputs inp es" by blast
  from relay_step [OF run_ok [OF extend.hyps(1) extend.prems] extend.hyps(2)] obtain bs where
    b: "out u = out t @ concat (map enc bs)" "subseq (bs @ held u) (held t @ inp e)"
    "fits (length (held t) + length (inp e)) \<longrightarrow> bs @ held u = held t @ inp e" by blast
  have "subseq (as @ bs @ held u) (as @ held t @ inp e)"
    by (rule list_emb_append_mono [OF subseq_order.refl b(2)])
  moreover have "subseq ((as @ held t) @ inp e) ((held s @ inputs inp es) @ inp e)"
    by (rule list_emb_append_mono [OF a(2) subseq_order.refl])
  ultimately have "subseq (as @ bs @ held u) (held s @ inputs inp es @ inp e)"
    unfolding append_assoc by (rule subseq_order.trans)
  moreover have "as @ bs @ held u = held s @ inputs inp es @ inp e"
    if f: "fits (length (held s) + length (inputs inp es @ inp e))"
  proof -
    from f have "fits (length (held s) + length (inputs inp es))" by (rule fits_less) simp
    with a(3) have A: "as @ held t = held s @ inputs inp es" by simp
    from list_emb_length [OF a(2)] have "length (held t) + length (inp e) \<le> length (held s) + length (inputs inp es @ inp e)"
      by simp
    with f have "fits (length (held t) + length (inp e))" by (rule fits_less)
    with b(3) have "as @ bs @ held u = (as @ held t) @ inp e" by simp
    then show ?thesis by (simp add: A)
  qed
  ultimately show ?case using a(1) b(1) by (intro exI [of _ "as @ bs"]) simp
qed

end

end
