(* ===== verification/Stop_And_Wait.thy ===== *)
theory Stop_And_Wait
  imports Traces
begin

text \<open>
  The protocol the second UART driver promises on its transmit side, as an abstract
  machine: messages are queued in order, and after one has been put on the wire the next
  waits for a release (an acknowledgement or a timeout). The driver's handlers are shown
  to be runs of this machine; what the protocol guarantees is proved here, once.
\<close>

record sw =
  queue :: "u8 list list"
  waiting :: bool
  wire :: "u8 list list"

datatype sw_action = Submit "u8 list" | Release | Transmit

inductive sw_step :: "sw \<Rightarrow> sw_action \<Rightarrow> sw \<Rightarrow> bool" where
  submit: "sw_step s (Submit m) (s\<lparr>queue := queue s @ [m]\<rparr>)"
| release: "sw_step s Release (s\<lparr>waiting := False\<rparr>)"
| transmit: "\<not> waiting s \<Longrightarrow> queue s = m # q \<Longrightarrow>
     sw_step s Transmit (s\<lparr>queue := q, waiting := True, wire := wire s @ [m]\<rparr>)"

inductive_cases sw_submitE [elim!]: "sw_step s (Submit m) t"
inductive_cases sw_releaseE [elim!]: "sw_step s Release t"
inductive_cases sw_transmitE [elim!]: "sw_step s Transmit t"

abbreviation sw_run :: "sw \<Rightarrow> sw_action list \<Rightarrow> sw \<Rightarrow> bool" where
  "sw_run \<equiv> run sw_step"

lemmas sw_run_one = run_single [where step = sw_step]

lemma sw_run_release_if:
  "sw_run s (if b then [Release] else []) (if b then s\<lparr>waiting := False\<rparr> else s)"
  by (simp add: sw_run_one sw_step.release)

lemma sw_run_submit_if:
  "sw_run s (if b then [Submit m] else []) (if b then s\<lparr>queue := queue s @ [m]\<rparr> else s)"
  by (simp add: sw_run_one sw_step.submit)

fun submitted :: "sw_action \<Rightarrow> u8 list list" where
  "submitted (Submit m) = [m]"
| "submitted a = []"

abbreviation submits :: "sw_action list \<Rightarrow> u8 list list" where
  "submits \<equiv> inputs submitted"

abbreviation releases :: "sw_action list \<Rightarrow> nat" where
  "releases as \<equiv> count_list as Release"

text \<open>In order, nothing lost or repeated: what is on the wire and what is still queued.\<close>

interpretation sw: relay_line sw_step "\<lambda>s. True" wire "\<lambda>m. [m]" queue submitted "\<lambda>n. True"
proof
  fix s t :: sw and e
  assume "sw_step s e t"
  then show "\<exists>ms. wire t = wire s @ concat (map (\<lambda>m. [m]) ms) \<and> subseq (ms @ queue t) (queue s @ submitted e) \<and>
      (True \<longrightarrow> ms @ queue t = queue s @ submitted e)"
    by (cases rule: sw_step.cases) (auto intro: exI [of _ "[]"] exI [of _ "[hd (queue s)]"])
qed simp_all

lemma sw_run_fifo: "sw_run s as t \<Longrightarrow> wire t @ queue t = wire s @ queue s @ submits as"
  using sw.relay_run [of s as t] by auto

text \<open>
  One message per credit: the credit is 1 at rest and 0 while waiting, every transmission
  spends it and a release restores it.
\<close>

definition credit :: "sw \<Rightarrow> nat" where
  "credit s = (if waiting s then 0 else 1)"

lemma sw_run_credit:
  "sw_run s as t \<Longrightarrow> length (wire t) + credit t \<le> length (wire s) + credit s + releases as"
proof (induction rule: run.induct)
  case (idle s)
  then show ?case by simp
next
  case (extend s as t a u)
  from extend.hyps(2) extend.IH show ?case by (cases rule: sw_step.cases) (auto simp: credit_def)
qed

lemma sw_run_wire_grows: "sw_run s as t \<Longrightarrow> length (wire s) \<le> length (wire t)"
proof (induction rule: run.induct)
  case (idle s)
  then show ?case by simp
next
  case (extend s as t a u)
  from extend.hyps(2) extend.IH show ?case by (cases rule: sw_step.cases) auto
qed

text \<open>Progress: with something queued, at most one release away from a transmission.\<close>

lemma sw_progress:
  assumes "queue s \<noteq> []"
  shows "\<exists>t. sw_run s [Release, Transmit] t \<and> wire t = wire s @ [hd (queue s)]"
proof -
  obtain m q where q: "queue s = m # q" using assms by (cases "queue s") auto
  let ?t = "s\<lparr>waiting := False\<rparr>"
  have "sw_run s [Release] ?t" by (rule sw_run_one [OF sw_step.release])
  moreover have "sw_step ?t Transmit (?t\<lparr>queue := q, waiting := True, wire := wire ?t @ [m]\<rparr>)"
    by (rule sw_step.transmit) (use q in simp_all)
  ultimately have "sw_run s ([Release] @ [Transmit]) (?t\<lparr>queue := q, waiting := True, wire := wire ?t @ [m]\<rparr>)"
    by (rule run.extend)
  with q show ?thesis by auto
qed

end
