(* ===== verification/My_Uart_Peripheral_B.thy ===== *)
theory My_Uart_Peripheral_B
  imports Board Framing Stop_And_Wait
begin

text \<open>
  The driver \<^verbatim>\<open>drivers/my_uart_peripheral_b/my_uart_peripheral_b.c\<close>: it hands received
  lines to a callback, queues outgoing data as items of a ring buffer, and after each item
  it sends holds the next one back until a line starting with \<^verbatim>\<open>OK\<close> arrives or a timer
  expires.
\<close>

section \<open>State\<close>

record my_uart_b_kconfig =
  B_RX_BUF_SIZE :: nat
  TX_BUF_WORDS :: nat
  TX_BUFFERING_BUF_WORDS :: nat
  B_ASSERT :: bool

record ('cb, 'rb) my_uart_b_data =
  b_rx_buf :: "u8 list"
  b_rx_data_len :: nat
  callback :: "'cb option"
  tx_rb :: 'rb
  sending_guard :: bool

record my_uart_b_conf =
  b_uart_dev :: dev
  b_gpio_spec :: gpio_dt_spec

type_synonym ('cb, 'rb, 'g, 'w) my_uart_b_state = "('cb, 'rb) my_uart_b_data \<times> 'g \<times> 'w"

type_synonym ('cb, 'rb, 'g, 'w) my_uart_b_call =
  "'cb \<Rightarrow> dev \<Rightarrow> u8 list \<Rightarrow> nat \<Rightarrow>
     ('cb, 'rb, 'g, 'w) my_uart_b_state \<Rightarrow> ('cb, 'rb, 'g, 'w) my_uart_b_state checked"

definition my_uart_b_data_init :: "my_uart_b_kconfig \<Rightarrow> 'rb \<Rightarrow> ('cb, 'rb) my_uart_b_data" where
  "my_uart_b_data_init K rb =
     \<lparr>b_rx_buf = replicate (B_RX_BUF_SIZE K) 0, b_rx_data_len = 0, callback = None,
      tx_rb = rb, sending_guard = False\<rparr>"

section \<open>Operations\<close>

definition check_sending_guard :: "u8 list \<Rightarrow> nat \<Rightarrow> bool checked" where
  "check_sending_guard data len =
     (if len < 2 then Inr False
      else sbind (mem_get 0 2 data) (\<lambda>p. Inr (p = ascii ''OK'')))"

definition sending_guard_timer_expired_function ::
    "'w uart_api \<Rightarrow> my_uart_b_conf \<Rightarrow> ('cb, 'rb) my_uart_b_data \<times> 'w \<Rightarrow>
     ('cb, 'rb) my_uart_b_data \<times> 'w" where
  "sending_guard_timer_expired_function U conf st =
     (case st of (data, w) \<Rightarrow>
      (data\<lparr>sending_guard := False\<rparr>, uart_irq_tx_enable U (b_uart_dev conf) w))"

text \<open>\<open>buf_size\<close> is passed by the caller and never looked at.\<close>

definition build_user_send_data ::
    "u8 list \<Rightarrow> nat \<Rightarrow> u8 list \<Rightarrow> nat \<Rightarrow> (u8 list \<times> nat) checked" where
  "build_user_send_data buf buf_size data len =
     sbind (memcpy 0 (ascii ''SEND:'') 5 buf) (\<lambda>buf1.
     sbind (memcpy 5 data len buf1) (\<lambda>buf2.
     Inr (buf2, (len + 5) mod 2 ^ 32)))"

text \<open>
  \<open>junk\<close> is what the stack array holds before it is written. \<open>ring_buf_item_put\<close> copies
  \<open>size32\<close> words out of it when it has room for them.
\<close>

definition user_send_data ::
    "my_uart_b_kconfig \<Rightarrow> 'rb ring_item_api \<Rightarrow> 'w uart_api \<Rightarrow> my_uart_b_conf \<Rightarrow> u8 list \<Rightarrow> u8 list \<Rightarrow> nat \<Rightarrow>
     ('cb, 'rb) my_uart_b_data \<times> 'w \<Rightarrow> (('cb, 'rb) my_uart_b_data \<times> 'w) checked" where
  "user_send_data K R U conf junk data len st =
     (case st of (d, w) \<Rightarrow>
      sbind (build_user_send_data junk (TX_BUF_WORDS K * 4) data len) (\<lambda>(buf, size).
        let size32 = word_of_nat (size div 4 + 1) :: u8;
            value = word_of_int (int (unat size32) * 4 - int size) :: u8;
            (ret, rb) = ring_buf_item_put R 0 value (take (4 * unat size32) buf) size32 (tx_rb d)
        in if ret = - EMSGSIZE then Inr (d\<lparr>tx_rb := rb\<rparr>, w)
           else if length buf < 4 * unat size32 then Inl OOB_read
           else Inr (d\<lparr>tx_rb := rb\<rparr>, uart_irq_tx_enable U (b_uart_dev conf) w)))"

definition user_set_callback :: "'cb option \<Rightarrow> ('cb, 'rb) my_uart_b_data \<Rightarrow> ('cb, 'rb) my_uart_b_data" where
  "user_set_callback cb data = data\<lparr>callback := cb\<rparr>"

text \<open>The entry of the driver in its device and the wrappers of its header.\<close>

record ('cb, 'rb, 'w) my_uart_peripheral_b_api =
  send_data :: "my_uart_b_conf \<Rightarrow> u8 list \<Rightarrow> u8 list \<Rightarrow> nat \<Rightarrow> ('cb, 'rb) my_uart_b_data \<times> 'w \<Rightarrow>
     (('cb, 'rb) my_uart_b_data \<times> 'w) checked"
  b_set_callback :: "'cb option \<Rightarrow> ('cb, 'rb) my_uart_b_data \<Rightarrow> ('cb, 'rb) my_uart_b_data"

definition api_b ::
    "my_uart_b_kconfig \<Rightarrow> 'rb ring_item_api \<Rightarrow> 'w uart_api \<Rightarrow> ('cb, 'rb, 'w) my_uart_peripheral_b_api" where
  "api_b K R U = \<lparr>send_data = user_send_data K R U, b_set_callback = user_set_callback\<rparr>"

definition my_uart_send_data ::
    "('cb, 'rb, 'w) my_uart_peripheral_b_api \<Rightarrow> my_uart_b_conf \<Rightarrow> u8 list \<Rightarrow> u8 list \<Rightarrow> nat \<Rightarrow>
     ('cb, 'rb) my_uart_b_data \<times> 'w \<Rightarrow> (('cb, 'rb) my_uart_b_data \<times> 'w) checked" where
  "my_uart_send_data a conf junk data len st = send_data a conf junk data len st"

definition my_uart_b_set_callback ::
    "('cb, 'rb, 'w) my_uart_peripheral_b_api \<Rightarrow> 'cb option \<Rightarrow> ('cb, 'rb) my_uart_b_data \<Rightarrow>
     ('cb, 'rb) my_uart_b_data" where
  "my_uart_b_set_callback a cb data = b_set_callback a cb data"

section \<open>The interrupt handler\<close>

definition clear_rx :: "my_uart_b_kconfig \<Rightarrow> ('cb, 'rb) my_uart_b_data \<Rightarrow> ('cb, 'rb) my_uart_b_data" where
  "clear_rx K d = d\<lparr>b_rx_data_len := 0, b_rx_buf := replicate (B_RX_BUF_SIZE K) 0\<rparr>"

text \<open>A terminator has been stored: release the guard on an \<^verbatim>\<open>OK\<close> line, call back, start over.\<close>

definition end_of_line ::
    "my_uart_b_kconfig \<Rightarrow> 'w uart_api \<Rightarrow> ('cb, 'rb, 'g, 'w) my_uart_b_call \<Rightarrow> my_uart_b_conf \<Rightarrow> dev \<Rightarrow>
     'cb option \<Rightarrow> ('cb, 'rb, 'g, 'w) my_uart_b_state \<Rightarrow> ('cb, 'rb, 'g, 'w) my_uart_b_state checked" where
  "end_of_line K U call conf dev cb st =
     (case st of (d, g, w) \<Rightarrow>
      sbind (check_sending_guard (b_rx_buf d) (b_rx_data_len d)) (\<lambda>ok.
      let d1 = (if ok then d\<lparr>sending_guard := False\<rparr> else d);
          w1 = (if ok then uart_irq_tx_enable U (b_uart_dev conf) w else w)
      in sbind (case cb of None \<Rightarrow> Inr (d1, g, w1)
                | Some f \<Rightarrow> call f dev (b_rx_buf d1) (b_rx_data_len d1) (d1, g, w1))
           (\<lambda>(d2, g2, w2). Inr (clear_rx K d2, g2, w2))))"

definition rx_char_b ::
    "my_uart_b_kconfig \<Rightarrow> 'w uart_api \<Rightarrow> ('cb, 'rb, 'g, 'w) my_uart_b_call \<Rightarrow> my_uart_b_conf \<Rightarrow> dev \<Rightarrow>
     u8 \<Rightarrow> ('cb, 'rb, 'g, 'w) my_uart_b_state \<Rightarrow> ('cb, 'rb, 'g, 'w) my_uart_b_state checked" where
  "rx_char_b K U call conf dev c st =
     (case st of (d, g, w) \<Rightarrow>
      sbind (store (b_rx_data_len d) c (b_rx_buf d)) (\<lambda>buf.
        let d1 = d\<lparr>b_rx_buf := buf, b_rx_data_len := b_rx_data_len d + 1\<rparr>;
            rx_buf_capacity = size_sub (B_RX_BUF_SIZE K) (b_rx_data_len d1)
        in if c = LF \<or> c = CR then end_of_line K U call conf dev (callback d) (d1, g, w)
           else if rx_buf_capacity = 0 then Inr (clear_rx K d1, g, w)
           else Inr (d1, g, w)))"

text \<open>\<open>c\<close> is a local of the loop body: if the read yields nothing it has no value.\<close>

definition rx_loop_b ::
    "my_uart_b_kconfig \<Rightarrow> 'w uart_api \<Rightarrow> ('cb, 'rb, 'g, 'w) my_uart_b_call \<Rightarrow> my_uart_b_conf \<Rightarrow> dev \<Rightarrow>
     dev \<Rightarrow> ('cb, 'rb, 'g, 'w) my_uart_b_state \<Rightarrow> ('cb, 'rb, 'g, 'w) my_uart_b_state outcome" where
  "rx_loop_b K U call conf uart dev =
     whileM
       (\<lambda>(d, g, w). case uart_irq_rx_ready U uart w of (r, w1) \<Rightarrow> (r \<noteq> 0, d, g, w1))
       (\<lambda>(d, g, w). case uart_fifo_read U uart 1 w of (n, bs, w1) \<Rightarrow>
          Some (case bs of [] \<Rightarrow> Inl Uninit_read
                | c # _ \<Rightarrow> rx_char_b K U call conf dev c (d, g, w1)))"

definition tx_part ::
    "my_uart_b_kconfig \<Rightarrow> 'w kernel_api \<Rightarrow> 'rb ring_item_api \<Rightarrow> 'w uart_api \<Rightarrow> dev \<Rightarrow> dev \<Rightarrow>
     ('cb, 'rb) my_uart_b_data \<times> 'w \<Rightarrow> (('cb, 'rb) my_uart_b_data \<times> 'w) checked" where
  "tx_part K Z R U uart dev st =
     (case st of (d, w) \<Rightarrow>
      if sending_guard d then Inr (d, uart_irq_tx_disable U uart w)
      else case ring_buf_item_get R (word_of_nat (TX_BUF_WORDS K)) (tx_rb d) of
        (ret, my_type, my_value, my_data, my_size, rb) \<Rightarrow>
          let d1 = d\<lparr>tx_rb := rb\<rparr> in
          if ret = - EMSGSIZE then
            Inr (d1, uart_irq_tx_disable U uart
              (printk Z (ascii ''Buffer is too small, need '' @ fmt_d (uint my_size) @ ascii '' uint32_t'' @ [LF]) w))
          else if ret = - EAGAIN then
            Inr (d1, uart_irq_tx_disable U uart (printk Z (ascii ''Ring buffer is empty'' @ [LF]) w))
          else
            let w1 = printk Z (ascii ''Got item of type '' @ dec (unat my_type) @ ascii '' value '' @
                       dec (unat my_value) @ ascii '' of size '' @ dec (unat my_size) @
                       ascii '' dwords'' @ [LF]) w;
                size = size_sub (unat my_size * 4) (unat my_value)
            in sbind (mem_get 0 size my_data) (\<lambda>bs.
                 let w2 = snd (uart_fifo_fill U uart bs w1);
                     w3 = k_timer_start Z (Sending_guard_timer dev) 5000 0 w2
                 in Inr (d1\<lparr>sending_guard := True\<rparr>, w3)))"

definition irq_pass ::
    "my_uart_b_kconfig \<Rightarrow> 'w kernel_api \<Rightarrow> 'rb ring_item_api \<Rightarrow> 'w uart_api \<Rightarrow>
     ('cb, 'rb, 'g, 'w) my_uart_b_call \<Rightarrow> my_uart_b_conf \<Rightarrow> dev \<Rightarrow> dev \<Rightarrow>
     ('cb, 'rb, 'g, 'w) my_uart_b_state \<Rightarrow> ('cb, 'rb, 'g, 'w) my_uart_b_state outcome" where
  "irq_pass K Z R U call conf uart dev st =
     obind (rx_loop_b K U call conf uart dev st) (\<lambda>(d, g, w).
       case uart_irq_tx_ready U uart w of (r, w1) \<Rightarrow>
         if r \<noteq> 0 then Some (sbind (tx_part K Z R U uart dev (d, w1)) (\<lambda>(d2, w2). Inr (d2, g, w2)))
         else Some (Inr (d, g, w1)))"

definition irq_guard :: "'w uart_api \<Rightarrow> dev \<Rightarrow> 's \<times> 'g \<times> 'w \<Rightarrow> bool \<times> 's \<times> 'g \<times> 'w" where
  "irq_guard U uart st =
     (case st of (d, g, w) \<Rightarrow>
      case uart_irq_update U uart w of (r, w1) \<Rightarrow>
        if r = 0 then (False, d, g, w1)
        else case uart_irq_is_pending U uart w1 of (p, w2) \<Rightarrow> (p \<noteq> 0, d, g, w2))"

definition uart_b_int_handler ::
    "my_uart_b_kconfig \<Rightarrow> 'w kernel_api \<Rightarrow> 'rb ring_item_api \<Rightarrow> 'w uart_api \<Rightarrow>
     ('cb, 'rb, 'g, 'w) my_uart_b_call \<Rightarrow> my_uart_b_conf \<Rightarrow> dev \<Rightarrow> dev \<Rightarrow>
     ('cb, 'rb, 'g, 'w) my_uart_b_state \<Rightarrow> ('cb, 'rb, 'g, 'w) my_uart_b_state outcome" where
  "uart_b_int_handler K Z R U call conf uart dev =
     whileM (irq_guard U uart) (irq_pass K Z R U call conf uart dev)"

section \<open>Initialisation\<close>

definition b_init_uart :: "'w uart_api \<Rightarrow> my_uart_b_conf \<Rightarrow> dev \<Rightarrow> 'w \<Rightarrow> int \<times> 'w" where
  "b_init_uart U conf dev w =
     (let w1 = uart_irq_callback_user_data_set U (b_uart_dev conf) My_uart_b_int_handler (Device_ptr dev) w;
          w2 = uart_irq_rx_enable U (b_uart_dev conf) w1
      in (0, w2))"

definition b_init_gpio :: "'w gpio_api \<Rightarrow> my_uart_b_conf \<Rightarrow> 'w \<Rightarrow> int \<times> 'w" where
  "b_init_gpio G conf w =
     (let (ret, w1) = gpio_pin_configure_dt G (b_gpio_spec conf) [GPIO_OUTPUT_ACTIVE] w
      in if ret \<noteq> 0 then (ret, w1) else (ret, w1))"

definition init_my_uart_peripheral_b ::
    "my_uart_b_kconfig \<Rightarrow> 'w kernel_api \<Rightarrow> 'rb ring_item_api \<Rightarrow> 'w uart_api \<Rightarrow> 'w gpio_api \<Rightarrow> my_uart_b_conf \<Rightarrow>
     dev \<Rightarrow> ('cb, 'rb) my_uart_b_data \<times> 'w \<Rightarrow> (int \<times> ('cb, 'rb) my_uart_b_data \<times> 'w) checked" where
  "init_my_uart_peripheral_b K Z R U G conf dev st =
     (case st of (d, w) \<Rightarrow>
      let fail = (\<lambda>w'. if B_ASSERT K then Inl Assert_failed else Inr (- ENODEV, d, w'))
      in if \<not> device_is_ready Z (b_uart_dev conf) w then fail w
      else let (ret, w1) = b_init_uart U conf dev w
      in if ret \<noteq> 0 then fail w1
      else if \<not> device_is_ready Z (port (b_gpio_spec conf)) w1 then fail w1
      else let (ret, w2) = b_init_gpio G conf w1
      in if ret \<noteq> 0 then fail w2
      else let rb = ring_buf_item_init R (TX_BUFFERING_BUF_WORDS K);
               w3 = k_timer_init Z (Sending_guard_timer dev) Sending_guard_timer_expired w2;
               w4 = k_timer_user_data_set Z (Sending_guard_timer dev) (Device_ptr dev) w3
      in Inr (0, d\<lparr>tx_rb := rb\<rparr>, w4))"

section \<open>Instances\<close>

text \<open>As for driver A. The ring buffer is a zeroed object until the initialisation of the device.\<close>

record my_uart_b_node =
  b_node_bus :: dev
  ctrl_gpios :: gpio_dt_spec

definition MY_UART_PERIPHERAL_B_INIT_PRIORITY :: nat where "MY_UART_PERIPHERAL_B_INIT_PRIORITY = 41"

definition my_uart_b_conf_init :: "my_uart_b_node \<Rightarrow> my_uart_b_conf" where
  "my_uart_b_conf_init node = \<lparr>b_uart_dev = b_node_bus node, b_gpio_spec = ctrl_gpios node\<rparr>"

definition INIT_MY_UART_PERIPHERAL_B ::
    "my_uart_b_kconfig \<Rightarrow> 'rb \<Rightarrow> my_uart_b_node \<Rightarrow> ('cb, 'rb) my_uart_b_data \<times> my_uart_b_conf" where
  "INIT_MY_UART_PERIPHERAL_B K zeroed node = (my_uart_b_data_init K zeroed, my_uart_b_conf_init node)"

end
