(* ===== verification/My_Uart_B_Protocol.thy ===== *)
theory My_Uart_B_Protocol
  imports My_Uart_Peripheral_B
begin

text \<open>
  The contracts the second UART driver relies on, and the proof that its handlers are runs
  of the stop-and-wait machine: every pass of the interrupt handler, the timer and
  \<open>user_send_data\<close>.
\<close>

section \<open>Lines\<close>

definition is_eol :: "u8 \<Rightarrow> bool" where
  "is_eol c \<longleftrightarrow> c = LF \<or> c = CR"

definition line_step :: "nat \<Rightarrow> u8 \<Rightarrow> u8 list \<Rightarrow> u8 list \<times> u8 list list" where
  "line_step n c acc =
     (if is_eol c then ([], [acc @ [c]])
      else if length acc + 1 = n then ([], [])
      else (acc @ [c], []))"

definition line_acc_ok :: "nat \<Rightarrow> u8 list \<Rightarrow> bool" where
  "line_acc_ok n acc \<longleftrightarrow> length acc < n \<and> list_all (\<lambda>c. \<not> is_eol c) acc"

interpretation line_framer: framer "line_step n" "line_acc_ok n" for n
  by unfold_locales (auto simp: line_step_def line_acc_ok_def)

lemma line_step_simps:
  "is_eol c \<Longrightarrow> line_step n c acc = ([], [acc @ [c]])"
  "\<not> is_eol c \<Longrightarrow> length acc + 1 = n \<Longrightarrow> line_step n c acc = ([], [])"
  "\<not> is_eol c \<Longrightarrow> length acc + 1 \<noteq> n \<Longrightarrow> line_step n c acc = (acc @ [c], [])"
  by (simp_all add: line_step_def)

lemma line_residue_short:
  "list_all (\<lambda>c. \<not> is_eol c) s \<Longrightarrow> length acc + length s < n \<Longrightarrow>
     residue (line_step n) s acc = acc @ s \<and> frames (line_step n) s acc = []"
  by (induction s arbitrary: acc) (simp_all add: line_step_simps)

definition is_ok_line :: "u8 list \<Rightarrow> bool" where
  "is_ok_line l \<longleftrightarrow> take 2 l = ascii ''OK''"

abbreviation ok_lines :: "u8 list list \<Rightarrow> nat" where
  "ok_lines ls \<equiv> length (filter is_ok_line ls)"

lemma check_sending_guard_ok:
  "len \<le> length buf \<Longrightarrow> check_sending_guard buf len = Inr (is_ok_line (take len buf))"
proof -
  assume l: "len \<le> length buf"
  show ?thesis
  proof (cases "len < 2")
    case True
    then have "length (take 2 (take len buf)) < length (ascii ''OK'')" using l by simp
    then have "\<not> is_ok_line (take len buf)" unfolding is_ok_line_def by (metis less_irrefl)
    with True show ?thesis by (simp add: check_sending_guard_def)
  next
    case False
    with l show ?thesis
      by (simp add: check_sending_guard_def mem_get_ok is_ok_line_def min_absorb1)
  qed
qed

section \<open>Items\<close>

type_synonym ring_item = "u16 \<times> u8 \<times> u8 list \<times> u8"

text \<open>The message in an item: its words less the \<open>value\<close> bytes of padding.\<close>

fun item_msg :: "ring_item \<Rightarrow> u8 list" where
  "item_msg (t, v, p, n) = take (size_sub (unat n * 4) (unat v)) p"

fun item_ok :: "nat \<Rightarrow> ring_item \<Rightarrow> bool" where
  "item_ok words (t, v, p, n) \<longleftrightarrow>
     length p = 4 * unat n \<and> unat v \<le> 4 * unat n \<and> unat n \<le> words"

text \<open>The documented behaviour of \<^verbatim>\<open>ring_buf_item_put\<close> and \<^verbatim>\<open>ring_buf_item_get\<close>.\<close>

definition item_put_contract :: "'rb ring_item_api \<Rightarrow> ('rb \<Rightarrow> ring_item list) \<Rightarrow> bool" where
  [contract_defs]: "item_put_contract R items \<longleftrightarrow>
     (\<forall>t v p n rb. (fst (ring_buf_item_put R t v p n rb) = 0 \<and>
          items (snd (ring_buf_item_put R t v p n rb)) = items rb @ [(t, v, p, n)]) \<or>
        (fst (ring_buf_item_put R t v p n rb) = - EMSGSIZE \<and>
          items (snd (ring_buf_item_put R t v p n rb)) = items rb))"

text \<open>
  When a ring buffer accepts an item, as documented: it has room for \<open>cap\<close> words, an item takes its
  payload and one word, and is refused exactly when that is more than is free. (The free word
  that some versions of the buffer keep is outside \<open>cap\<close>.)
\<close>

definition item_room_contract :: "'rb ring_item_api \<Rightarrow> ('rb \<Rightarrow> ring_item list) \<Rightarrow> ('rb \<Rightarrow> nat) \<Rightarrow> bool" where
  [contract_defs]: "item_room_contract R items cap \<longleftrightarrow>
     (\<forall>t v p n rb. cap (snd (ring_buf_item_put R t v p n rb)) = cap rb \<and>
        (if items_used (items rb) + unat n + 1 \<le> cap rb
         then fst (ring_buf_item_put R t v p n rb) = 0 \<and>
           items (snd (ring_buf_item_put R t v p n rb)) = items rb @ [(t, v, p, n)]
         else fst (ring_buf_item_put R t v p n rb) = - EMSGSIZE \<and>
           items (snd (ring_buf_item_put R t v p n rb)) = items rb))"

lemma item_room_put: "item_room_contract R items cap \<Longrightarrow> item_put_contract R items"
  unfolding item_room_contract_def item_put_contract_def by meson

lemma items_used_simps [simp]:
  "items_used [] = 0" "items_used (is @ [(t, v, p, n)]) = items_used is + (unat n + 1)"
  by (simp_all add: items_used_def)

definition item_get_contract :: "'rb ring_item_api \<Rightarrow> ('rb \<Rightarrow> ring_item list) \<Rightarrow> bool" where
  [contract_defs]: "item_get_contract R items \<longleftrightarrow>
     (\<forall>m rb. items rb = [] \<longrightarrow>
        (\<exists>t v p n rb'. ring_buf_item_get R m rb = (- EAGAIN, t, v, p, n, rb') \<and> items rb' = [])) \<and>
     (\<forall>m rb t v p n rest. items rb = (t, v, p, n) # rest \<longrightarrow>
        (if n \<le> m then \<exists>rb'. ring_buf_item_get R m rb = (0, t, v, p, n, rb') \<and> items rb' = rest
         else \<exists>t' v' p' rb'. ring_buf_item_get R m rb = (- EMSGSIZE, t', v', p', n, rb') \<and>
                items rb' = items rb))"

section \<open>The UART and the kernel\<close>

text \<open>
  \<open>txr w\<close>: the transmit interrupt is enabled and the transmitter ready. \<open>sent w\<close>: the
  chunks handed to \<open>uart_fifo_fill\<close> so far.
\<close>

definition b_uart_contract ::
    "'w uart_api \<Rightarrow> dev \<Rightarrow> ('w \<Rightarrow> u8 list) \<Rightarrow> ('w \<Rightarrow> bool) \<Rightarrow> ('w \<Rightarrow> u8 list list) \<Rightarrow> bool" where
  [contract_defs]: "b_uart_contract U d rx txr sent \<longleftrightarrow>
     fifo_uart_contract U d rx sent \<and>
     (\<forall>w. fst (uart_irq_update U d w) \<noteq> 0) \<and>
     keeps (\<lambda>w. snd (uart_irq_update U d w)) txr \<and>
     keeps (\<lambda>w. snd (uart_irq_rx_ready U d w)) txr \<and>
     query_contract (uart_irq_is_pending U d) rx sent \<and>
     keeps (\<lambda>w. snd (uart_irq_is_pending U d w)) txr \<and>
     (\<forall>w. fst (uart_irq_is_pending U d w) \<noteq> 0 \<longleftrightarrow> rx w \<noteq> [] \<or> txr w) \<and>
     query_contract (uart_irq_tx_ready U d) rx sent \<and>
     (\<forall>w. fst (uart_irq_tx_ready U d w) \<noteq> 0 \<longleftrightarrow> txr w) \<and>
     keeps (\<lambda>w. snd (uart_irq_tx_ready U d w)) txr \<and>
     keeps (uart_irq_tx_enable U d) (\<lambda>w. (rx w, sent w)) \<and>
     keeps (uart_irq_tx_disable U d) (\<lambda>w. (rx w, sent w)) \<and>
     (\<forall>w. \<not> txr (uart_irq_tx_disable U d w)) \<and>
     (\<forall>bs w. rx (snd (uart_fifo_fill U d bs w)) = rx w \<and>
        sent (snd (uart_fifo_fill U d bs w)) = sent w @ [bs])"

definition b_kernel_contract :: "'w kernel_api \<Rightarrow> ('w \<Rightarrow> u8 list) \<Rightarrow> ('w \<Rightarrow> u8 list list) \<Rightarrow> bool" where
  [contract_defs]: "b_kernel_contract Z rx sent \<longleftrightarrow>
     (\<forall>bs. keeps (printk Z bs) (\<lambda>w. (rx w, sent w))) \<and>
     (\<forall>t m p. keeps (k_timer_start Z t m p) (\<lambda>w. (rx w, sent w)))"

text \<open>
  The callback, for lines of at most \<open>limit\<close> bytes: it returns, changes of the driver only
  the ring buffer, by adding the message \<open>subm\<close> makes of the line or (when the ring buffer
  is full) nothing, and acts on the client's globals as \<open>upd\<close>.
\<close>

definition b_callback_contract ::
    "('cb, 'rb, 'g, 'w) my_uart_b_call \<Rightarrow> dev \<Rightarrow> 'cb option \<Rightarrow> ('w \<Rightarrow> u8 list) \<Rightarrow> ('w \<Rightarrow> u8 list list) \<Rightarrow>
     ('rb \<Rightarrow> ring_item list) \<Rightarrow> nat \<Rightarrow> nat \<Rightarrow> (u8 list \<Rightarrow> 'g \<Rightarrow> 'g) \<Rightarrow> (u8 list \<Rightarrow> u8 list) \<Rightarrow> bool" where
  [contract_defs]: "b_callback_contract call dev cb rx sent items words limit upd subm \<longleftrightarrow>
     (case cb of
        None \<Rightarrow> (\<forall>l g. upd l g = g)
      | Some f \<Rightarrow> (\<forall>buf len d g w.
          0 < len \<and> len \<le> length buf \<and> len \<le> limit \<and> list_all (item_ok words) (items (tx_rb d)) \<longrightarrow>
          (\<exists>rb' w'. call f dev buf len (d, g, w) = Inr (d\<lparr>tx_rb := rb'\<rparr>, upd (take len buf) g, w') \<and>
             rx w' = rx w \<and> sent w' = sent w \<and> list_all (item_ok words) (items rb') \<and>
             (map item_msg (items rb') = map item_msg (items (tx_rb d)) \<or>
              map item_msg (items rb') = map item_msg (items (tx_rb d)) @ [subm (take len buf)]))))"

section \<open>The abstraction\<close>

definition sw_of ::
    "('rb \<Rightarrow> ring_item list) \<Rightarrow> ('w \<Rightarrow> u8 list list) \<Rightarrow> ('cb, 'rb) my_uart_b_data \<Rightarrow> 'w \<Rightarrow> sw" where
  "sw_of items sent d w =
     \<lparr>queue = map item_msg (items (tx_rb d)), waiting = sending_guard d, wire = sent w\<rparr>"

definition b_pending :: "('cb, 'rb) my_uart_b_data \<Rightarrow> u8 list" where
  "b_pending d = take (b_rx_data_len d) (b_rx_buf d)"

definition wf_b :: "my_uart_b_kconfig \<Rightarrow> ('cb, 'rb) my_uart_b_data \<Rightarrow> bool" where
  "wf_b K d \<longleftrightarrow>
     length (b_rx_buf d) = B_RX_BUF_SIZE K \<and> B_RX_BUF_SIZE K < 2 ^ 32 \<and>
     b_rx_data_len d < B_RX_BUF_SIZE K \<and>
     drop (b_rx_data_len d) (b_rx_buf d) = replicate (B_RX_BUF_SIZE K - b_rx_data_len d) 0 \<and>
     list_all (\<lambda>c. \<not> is_eol c) (b_pending d)"

lemma wf_b_acc_ok: "wf_b K d \<Longrightarrow> line_acc_ok (B_RX_BUF_SIZE K) (b_pending d)"
  by (simp add: wf_b_def line_acc_ok_def b_pending_def)

lemma wf_b_clear_rx:
  "0 < B_RX_BUF_SIZE K \<Longrightarrow> B_RX_BUF_SIZE K < 2 ^ 32 \<Longrightarrow> wf_b K (clear_rx K d)"
  by (simp add: wf_b_def clear_rx_def b_pending_def)

lemma clear_rx_simps [simp]:
  "b_pending (clear_rx K d) = []" "callback (clear_rx K d) = callback d"
  "tx_rb (clear_rx K d) = tx_rb d" "sending_guard (clear_rx K d) = sending_guard d"
  "sw_of items sent (clear_rx K d) w = sw_of items sent d w"
  by (simp_all add: clear_rx_def b_pending_def sw_of_def)

section \<open>Receiving\<close>

lemma end_of_line_run:
  assumes cbc: "b_callback_contract call dev cb rx sent items words limit upd subm"
    and en: "keeps (uart_irq_tx_enable U (b_uart_dev conf)) (\<lambda>w. (rx w, sent w))"
    and len: "0 < b_rx_data_len d" "b_rx_data_len d \<le> length (b_rx_buf d)" "b_rx_data_len d \<le> limit"
    and ok: "list_all (item_ok words) (items (tx_rb d))"
  shows "\<exists>d' w' acts. end_of_line K U call conf dev cb (d, g, w) = Inr (clear_rx K d', upd (b_pending d) g, w') \<and>
     callback d' = callback d \<and> rx w' = rx w \<and> list_all (item_ok words) (items (tx_rb d')) \<and>
     sw_run (sw_of items sent d w) acts (sw_of items sent d' w') \<and>
     releases acts = (if is_ok_line (b_pending d) then 1 else 0) \<and>
     (submits acts = [] \<or> submits acts = [subm (b_pending d)])"
proof -
  let ?l = "b_pending d" and ?b = "is_ok_line (b_pending d)"
  let ?d1 = "if ?b then d\<lparr>sending_guard := False\<rparr> else d"
  let ?w1 = "if ?b then uart_irq_tx_enable U (b_uart_dev conf) w else w"
  let ?r = "if ?b then [Release] else []"
  have w1: "rx ?w1 = rx w" "sent ?w1 = sent w"
    using keepsD [OF en, of w] by simp_all
  have r: "sw_run (sw_of items sent d w) ?r (sw_of items sent ?d1 ?w1)"
    using sw_run_release_if [of "sw_of items sent d w" ?b] keepsD [OF en, of w]
    by (auto simp: sw_of_def)
  have e: "end_of_line K U call conf dev cb (d, g, w) =
      sbind (case cb of None \<Rightarrow> Inr (?d1, g, ?w1)
             | Some f \<Rightarrow> call f dev (b_rx_buf ?d1) (b_rx_data_len ?d1) (?d1, g, ?w1))
        (\<lambda>(d2, g2, w2). Inr (clear_rx K d2, g2, w2))"
    using len(2) by (simp add: end_of_line_def check_sending_guard_ok b_pending_def Let_def)
  have sel: "b_rx_buf ?d1 = b_rx_buf d" "b_rx_data_len ?d1 = b_rx_data_len d" "callback ?d1 = callback d"
    "tx_rb ?d1 = tx_rb d" by simp_all
  show ?thesis
  proof (cases cb)
    case None
    with cbc have "upd ?l g = g" by (simp add: b_callback_contract_def)
    with None e w1 r sel ok show ?thesis
      by (intro exI [of _ ?d1] exI [of _ ?w1] exI [of _ ?r]) simp
  next
    case (Some f)
    with cbc have "\<forall>buf len d g w. 0 < len \<and> len \<le> length buf \<and> len \<le> limit \<and>
        list_all (item_ok words) (items (tx_rb d)) \<longrightarrow>
        (\<exists>rb' w'. call f dev buf len (d, g, w) = Inr (d\<lparr>tx_rb := rb'\<rparr>, upd (take len buf) g, w') \<and>
           rx w' = rx w \<and> sent w' = sent w \<and> list_all (item_ok words) (items rb') \<and>
           (map item_msg (items rb') = map item_msg (items (tx_rb d)) \<or>
            map item_msg (items rb') = map item_msg (items (tx_rb d)) @ [subm (take len buf)]))"
      by (simp add: b_callback_contract_def)
    moreover have "0 < b_rx_data_len d \<and> b_rx_data_len d \<le> length (b_rx_buf d) \<and> b_rx_data_len d \<le> limit \<and>
        list_all (item_ok words) (items (tx_rb ?d1))"
      using len ok sel by simp
    ultimately obtain rb' w' where c:
      "call f dev (b_rx_buf d) (b_rx_data_len d) (?d1, g, ?w1) =
         Inr (?d1\<lparr>tx_rb := rb'\<rparr>, upd (take (b_rx_data_len d) (b_rx_buf d)) g, w')"
      "rx w' = rx ?w1" "sent w' = sent ?w1" "list_all (item_ok words) (items rb')"
      "map item_msg (items rb') = map item_msg (items (tx_rb ?d1)) \<or>
       map item_msg (items rb') = map item_msg (items (tx_rb ?d1)) @ [subm (take (b_rx_data_len d) (b_rx_buf d))]"
      by blast
    let ?d2 = "?d1\<lparr>tx_rb := rb'\<rparr>"
    let ?a = "map item_msg (items rb') = map item_msg (items (tx_rb d)) @ [subm ?l]"
    let ?s = "if ?a then [Submit (subm ?l)] else []"
    have "sw_run (sw_of items sent ?d1 ?w1) ?s (sw_of items sent ?d2 w')"
      using sw_run_submit_if [of "sw_of items sent ?d1 ?w1" ?a "subm ?l"] c(3,5)
      by (auto simp: sw_of_def b_pending_def split: if_splits)
    from run_append [OF this r]
    have "sw_run (sw_of items sent d w) (?r @ ?s) (sw_of items sent ?d2 w')" .
    moreover have "end_of_line K U call conf dev cb (d, g, w) = Inr (clear_rx K ?d2, upd ?l g, w')"
      unfolding e unfolding Some option.case sel(1,2) c(1) by (simp add: b_pending_def)
    ultimately show ?thesis
      using c(2,4) w1(1) by (intro exI [of _ ?d2] exI [of _ w'] exI [of _ "?r @ ?s"]) simp
  qed
qed

text \<open>One byte: the framing step, and the protocol actions of the line it completes.\<close>

lemma rx_char_b_run:
  assumes cbc: "b_callback_contract call dev (callback d) rx sent items words limit upd subm"
    and en: "keeps (uart_irq_tx_enable U (b_uart_dev conf)) (\<lambda>w. (rx w, sent w))"
    and wf: "wf_b K d" and ok: "list_all (item_ok words) (items (tx_rb d))"
    and lim: "list_all (\<lambda>l. length l \<le> limit) (snd (line_step (B_RX_BUF_SIZE K) c (b_pending d)))"
  shows "\<exists>d' g' w' acts. rx_char_b K U call conf dev c (d, g, w) = Inr (d', g', w') \<and>
     wf_b K d' \<and> callback d' = callback d \<and> rx w' = rx w \<and> list_all (item_ok words) (items (tx_rb d')) \<and>
     (b_pending d', g') = fpush (line_step (B_RX_BUF_SIZE K)) upd c (b_pending d, g) \<and>
     sw_run (sw_of items sent d w) acts (sw_of items sent d' w') \<and>
     releases acts = ok_lines (snd (line_step (B_RX_BUF_SIZE K) c (b_pending d))) \<and>
     subseq (submits acts) (map subm (snd (line_step (B_RX_BUF_SIZE K) c (b_pending d))))"
proof -
  let ?n = "b_rx_data_len d" and ?N = "B_RX_BUF_SIZE K"
  let ?d = "d\<lparr>b_rx_buf := (b_rx_buf d)[?n := c], b_rx_data_len := Suc ?n\<rparr>"
  from wf have n: "length (b_rx_buf d) = ?N" "?n < ?N" "?N < 2 ^ 32"
    and z: "list_all (\<lambda>c. \<not> is_eol c) (b_pending d)"
    by (simp_all add: wf_b_def)
  have p: "b_pending ?d = b_pending d @ [c]" and l: "length (b_pending d) = ?n"
    using n by (simp_all add: b_pending_def)
  have sw: "sw_of items sent ?d w = sw_of items sent d w" by (simp add: sw_of_def)
  have e: "rx_char_b K U call conf dev c (d, g, w) =
      (if is_eol c then end_of_line K U call conf dev (callback d) (?d, g, w)
       else if ?n + 1 = ?N then Inr (clear_rx K ?d, g, w) else Inr (?d, g, w))"
    using n by (simp add: rx_char_b_def store_ok Let_def is_eol_def)
  consider "is_eol c" | "\<not> is_eol c" "?n + 1 = ?N" | "\<not> is_eol c" "?n + 1 \<noteq> ?N" by blast
  then show ?thesis
  proof cases
    case 1
    with lim l have "Suc ?n \<le> limit" by (simp add: line_step_simps)
    then obtain d' w' acts where r:
      "end_of_line K U call conf dev (callback d) (?d, g, w) = Inr (clear_rx K d', upd (b_pending ?d) g, w')"
      "callback d' = callback d" "rx w' = rx w" "list_all (item_ok words) (items (tx_rb d'))"
      "sw_run (sw_of items sent ?d w) acts (sw_of items sent d' w')"
      "releases acts = (if is_ok_line (b_pending ?d) then 1 else 0)"
      "submits acts = [] \<or> submits acts = [subm (b_pending ?d)]"
      using end_of_line_run [OF cbc en, of ?d, where K = K and g = g and w = w] n ok by auto
    have "wf_b K (clear_rx K d')" using n by (intro wf_b_clear_rx) auto
    with 1 r show ?thesis
      unfolding e p sw
      by (intro exI [of _ "clear_rx K d'"] exI [of _ "upd (b_pending d @ [c]) g"] exI [of _ w'] exI [of _ acts])
        (auto simp: fpush_def line_step_simps)
  next
    case 2
    have "wf_b K (clear_rx K ?d)" using n by (intro wf_b_clear_rx) auto
    with 2 l ok sw show ?thesis
      unfolding e
      by (intro exI [of _ "clear_rx K ?d"] exI [of _ g] exI [of _ w] exI [of _ "[]"])
        (simp add: fpush_def line_step_simps)
  next
    case 3
    have "drop (Suc ?n) ((b_rx_buf d)[?n := c]) = replicate (?N - Suc ?n) 0"
      using wf zero_tail_update [of ?n "b_rx_buf d" ?N c] by (simp add: wf_b_def)
    with 3 n z have "wf_b K ?d" by (simp add: wf_b_def p)
    with 3 l p ok sw show ?thesis
      unfolding e
      by (intro exI [of _ ?d] exI [of _ g] exI [of _ w] exI [of _ "[]"])
        (simp add: fpush_def line_step_simps)
  qed
qed

text \<open>
  The invariant of a run: of the lines the run will have received (\<open>lns\<close>) those received
  so far (\<open>seen\<close>) are accounted for by a run of the protocol machine from its state at the
  start.
\<close>

definition b_inv ::
    "my_uart_b_kconfig \<Rightarrow> ('w \<Rightarrow> u8 list) \<Rightarrow> ('w \<Rightarrow> u8 list list) \<Rightarrow> ('rb \<Rightarrow> ring_item list) \<Rightarrow>
     (u8 list \<Rightarrow> u8 list) \<Rightarrow> sw \<Rightarrow> u8 list list \<Rightarrow> ('cb, 'rb) my_uart_b_data \<Rightarrow> 'w \<Rightarrow> bool" where
  "b_inv K rx sent items subm s0 lns d w \<longleftrightarrow>
     wf_b K d \<and> list_all (item_ok (TX_BUF_WORDS K)) (items (tx_rb d)) \<and>
     (\<exists>seen acts. lns = seen @ frames (line_step (B_RX_BUF_SIZE K)) (rx w) (b_pending d) \<and>
        sw_run s0 acts (sw_of items sent d w) \<and> releases acts = ok_lines seen \<and>
        subseq (submits acts) (map subm seen))"

lemma b_inv_start:
  "wf_b K d \<Longrightarrow> list_all (item_ok (TX_BUF_WORDS K)) (items (tx_rb d)) \<Longrightarrow>
     b_inv K rx sent items subm (sw_of items sent d w)
       (frames (line_step (B_RX_BUF_SIZE K)) (rx w) (b_pending d)) d w"
  unfolding b_inv_def by (intro conjI exI [of _ "[]"]) auto

lemma b_inv_world:
  "b_inv K rx sent items subm s0 lns d w \<Longrightarrow> rx w' = rx w \<Longrightarrow> sent w' = sent w \<Longrightarrow>
     b_inv K rx sent items subm s0 lns d w'"
  by (simp add: b_inv_def sw_of_def)

lemma b_inv_done:
  assumes "b_inv K rx sent items subm s0 lns d w" and "rx w = []"
  obtains acts where "sw_run s0 acts (sw_of items sent d w)" "releases acts = ok_lines lns"
    "subseq (submits acts) (map subm lns)"
  using assms by (auto simp: b_inv_def)

lemma rx_loop_b_run:
  fixes call :: "('cb, 'rb, 'g, 'w) my_uart_b_call" and cb :: "'cb option"
  assumes U: "fifo_uart_contract U uart rx sent"
    and en: "keeps (uart_irq_tx_enable U (b_uart_dev conf)) (\<lambda>w. (rx w, sent w))"
    and cbc: "b_callback_contract call dev cb rx sent items (TX_BUF_WORDS K) limit upd subm"
    and lim: "list_all (\<lambda>l. length l \<le> limit) lns"
    and inv: "b_inv K rx sent items subm s0 lns d w" and cb: "callback d = cb"
  shows "\<exists>d' g' w'. rx_loop_b K U call conf uart dev (d, g, w) = Some (Inr (d', g', w')) \<and>
     b_inv K rx sent items subm s0 lns d' w' \<and> callback d' = cb \<and> rx w' = [] \<and>
     (b_pending d', g') = fold (fpush (line_step (B_RX_BUF_SIZE K)) upd) (rx w) (b_pending d, g)"
proof -
  let ?P = "\<lambda>(d :: ('cb, 'rb) my_uart_b_data, g :: 'g, w :: 'w).
     b_inv K rx sent items subm s0 lns d w \<and> callback d = cb"
  let ?inp = "\<lambda>(d :: ('cb, 'rb) my_uart_b_data, g :: 'g, w :: 'w). rx w"
  let ?obs = "\<lambda>(d :: ('cb, 'rb) my_uart_b_data, g :: 'g, w :: 'w). (b_pending d, g)"
  let ?f = "fpush (line_step (B_RX_BUF_SIZE K)) upd"
  from U have rr: "rx_ready_contract U uart rx sent" and fr: "fifo_read_contract U uart rx sent"
    by (simp_all add: fifo_uart_contract_def)
  have "\<exists>s'. rx_loop_b K U call conf uart dev (d, g, w) = Some (Inr s') \<and> ?P s' \<and> ?inp s' = [] \<and>
      ?obs s' = fold ?f (?inp (d, g, w)) (?obs (d, g, w))"
    unfolding rx_loop_b_def
  proof (rule whileM_drain [where P = ?P and inp = ?inp and obs = ?obs and f = ?f])
    show "?P (d, g, w)" using inv cb by simp
  next
    fix s assume P: "?P s" and e: "?inp s = []"
    obtain d g w where s: "s = (d, g, w)" by (cases s)
    obtain r w1 where q: "uart_irq_rx_ready U uart w = (r, w1)" by (cases "uart_irq_rx_ready U uart w")
    from rx_ready_contractD [OF rr q] s e P show
      "\<exists>s1. (case s of (d, g, w) \<Rightarrow> case uart_irq_rx_ready U uart w of (r, w1) \<Rightarrow> (r \<noteq> 0, d, g, w1)) = (False, s1) \<and>
         ?P s1 \<and> ?inp s1 = [] \<and> ?obs s1 = ?obs s"
      by (auto simp: q intro: b_inv_world)
  next
    fix s b bs assume P: "?P s" and i: "?inp s = b # bs"
    obtain d g w where s: "s = (d, g, w)" by (cases s)
    obtain r w1 where q: "uart_irq_rx_ready U uart w = (r, w1)" by (cases "uart_irq_rx_ready U uart w")
    from rx_ready_contractD [OF rr q] s i have r: "r \<noteq> 0" and w1: "rx w1 = b # bs" "sent w1 = sent w"
      by simp_all
    from fr w1(1) obtain w2 where w2: "uart_fifo_read U uart 1 w1 = (1, [b], w2)" "rx w2 = bs" "sent w2 = sent w1"
      by (rule fifo_read_contractD)
    from P s i obtain seen acts where I: "wf_b K d" "callback d = cb"
      "list_all (item_ok (TX_BUF_WORDS K)) (items (tx_rb d))"
      "lns = seen @ snd (line_step (B_RX_BUF_SIZE K) b (b_pending d)) @
         frames (line_step (B_RX_BUF_SIZE K)) bs (fst (line_step (B_RX_BUF_SIZE K) b (b_pending d)))"
      "sw_run s0 acts (sw_of items sent d w)" "releases acts = ok_lines seen"
      "subseq (submits acts) (map subm seen)"
      by (auto simp: b_inv_def)
    have cbc': "b_callback_contract call dev (callback d) rx sent items (TX_BUF_WORDS K) limit upd subm"
      using cbc I(2) by simp
    have lim': "list_all (\<lambda>l. length l \<le> limit) (snd (line_step (B_RX_BUF_SIZE K) b (b_pending d)))"
      using lim I(4) by simp
    from rx_char_b_run [OF cbc' en I(1,3) lim', of g w2] obtain d' g' w' bcts where r':
      "rx_char_b K U call conf dev b (d, g, w2) = Inr (d', g', w')" "wf_b K d'" "callback d' = callback d"
      "rx w' = rx w2" "list_all (item_ok (TX_BUF_WORDS K)) (items (tx_rb d'))"
      "(b_pending d', g') = ?f b (b_pending d, g)"
      "sw_run (sw_of items sent d w2) bcts (sw_of items sent d' w')"
      "releases bcts = ok_lines (snd (line_step (B_RX_BUF_SIZE K) b (b_pending d)))"
      "subseq (submits bcts) (map subm (snd (line_step (B_RX_BUF_SIZE K) b (b_pending d))))"
      by blast
    have "sw_of items sent d w2 = sw_of items sent d w" using w1 w2 by (simp add: sw_of_def)
    with r'(7) I(5) have run: "sw_run s0 (acts @ bcts) (sw_of items sent d' w')"
      using run_append by metis
    have "b_pending d' = fst (line_step (B_RX_BUF_SIZE K) b (b_pending d))"
      using r'(6) by (simp add: fpush_def)
    then have "b_inv K rx sent items subm s0 lns d' w'"
      unfolding b_inv_def using r' I run w2
      by (intro conjI exI [of _ "seen @ snd (line_step (B_RX_BUF_SIZE K) b (b_pending d))"]
          exI [of _ "acts @ bcts"]) (auto intro: list_emb_append_mono)
    then show "\<exists>s1 s2. (case s of (d, g, w) \<Rightarrow> case uart_irq_rx_ready U uart w of (r, w1) \<Rightarrow> (r \<noteq> 0, d, g, w1)) = (True, s1) \<and>
        (case s1 of (d, g, w) \<Rightarrow> case uart_fifo_read U uart 1 w of (n, bs, w1) \<Rightarrow>
           Some (case bs of [] \<Rightarrow> Inl Uninit_read | c # x \<Rightarrow> rx_char_b K U call conf dev c (d, g, w1))) =
           Some (Inr s2) \<and> ?P s2 \<and> ?inp s2 = bs \<and> ?obs s2 = ?f b (?obs s)"
      using r' r w2 I(2) by (intro exI [of _ "(d, g, w1)"] exI [of _ "(d', g', w')"]) (simp add: s q)
  qed
  then show ?thesis by auto
qed

section \<open>Transmitting\<close>

lemma errno_simps [simp]: "EMSGSIZE \<noteq> 0" "EAGAIN \<noteq> 0" "EAGAIN \<noteq> EMSGSIZE" "EMSGSIZE \<noteq> EAGAIN"
  by (simp_all add: EMSGSIZE_def EAGAIN_def)

lemma b_inv_transmit:
  assumes inv: "b_inv K rx sent items subm s0 lns d w" and g: "\<not> sending_guard d"
    and it: "items (tx_rb d) = i # rest" "items rb' = rest"
    and w': "rx w' = rx w" "sent w' = sent w @ [item_msg i]"
  shows "b_inv K rx sent items subm s0 lns (d\<lparr>tx_rb := rb', sending_guard := True\<rparr>) w'"
proof -
  let ?d = "d\<lparr>tx_rb := rb', sending_guard := True\<rparr>"
  from inv obtain seen acts where I: "wf_b K d" "list_all (item_ok (TX_BUF_WORDS K)) (items (tx_rb d))"
    "lns = seen @ frames (line_step (B_RX_BUF_SIZE K)) (rx w) (b_pending d)"
    "sw_run s0 acts (sw_of items sent d w)" "releases acts = ok_lines seen"
    "subseq (submits acts) (map subm seen)"
    by (auto simp: b_inv_def)
  have "sw_step (sw_of items sent d w) Transmit
      (sw_of items sent d w\<lparr>queue := map item_msg rest, waiting := True, wire := sent w @ [item_msg i]\<rparr>)"
    using sw_step.transmit [of "sw_of items sent d w" "item_msg i" "map item_msg rest"] g it
    by (simp add: sw_of_def)
  with it w' have "sw_step (sw_of items sent d w) Transmit (sw_of items sent ?d w')"
    by (simp add: sw_of_def)
  with I(4) have "sw_run s0 (acts @ [Transmit]) (sw_of items sent ?d w')" by (rule run.extend)
  moreover have "wf_b K ?d" "b_pending ?d = b_pending d"
    using I(1) by (simp_all add: wf_b_def b_pending_def)
  ultimately show ?thesis
    unfolding b_inv_def using I it w'
    by (intro conjI exI [of _ seen] exI [of _ "acts @ [Transmit]"]) simp_all
qed

lemma b_inv_same_items:
  assumes "b_inv K rx sent items subm s0 lns d w" and "items rb' = items (tx_rb d)"
    and "rx w' = rx w" and "sent w' = sent w"
  shows "b_inv K rx sent items subm s0 lns (d\<lparr>tx_rb := rb'\<rparr>) w'"
  using assms by (simp add: b_inv_def wf_b_def b_pending_def sw_of_def)

lemma tx_part_run:
  assumes U: "b_uart_contract U uart rx txr sent" and Z: "b_kernel_contract Z rx sent"
    and R: "item_get_contract R items" and W: "TX_BUF_WORDS K < 256"
    and inv: "b_inv K rx sent items subm s0 lns d w"
  shows "\<exists>d' w'. tx_part K Z R U uart dev (d, w) = Inr (d', w') \<and>
     b_inv K rx sent items subm s0 lns d' w' \<and> rx w' = rx w \<and> b_pending d' = b_pending d \<and>
     callback d' = callback d \<and>
     (if sending_guard d then sending_guard d' \<and> \<not> txr w' else sending_guard d' \<or> \<not> txr w')"
proof -
  have dis: "rx (uart_irq_tx_disable U uart v) = rx v" "sent (uart_irq_tx_disable U uart v) = sent v"
    "\<not> txr (uart_irq_tx_disable U uart v)" for v
    using U unfolding b_uart_contract_def keeps_def by simp_all
  have pr: "rx (printk Z bs v) = rx v" "sent (printk Z bs v) = sent v" for bs v
    using Z unfolding b_kernel_contract_def keeps_def by simp_all
  have ts: "rx (k_timer_start Z t m q v) = rx v" "sent (k_timer_start Z t m q v) = sent v" for t m q v
    using Z unfolding b_kernel_contract_def keeps_def by simp_all
  have ff: "rx (snd (uart_fifo_fill U uart bs v)) = rx v"
    "sent (snd (uart_fifo_fill U uart bs v)) = sent v @ [bs]" for bs v
    using U unfolding b_uart_contract_def by simp_all
  let ?m = "word_of_nat (TX_BUF_WORDS K) :: u8"
  consider (hold) "sending_guard d" | (empty) "\<not> sending_guard d" "items (tx_rb d) = []"
    | (item) i rest where "\<not> sending_guard d" "items (tx_rb d) = i # rest"
    by (cases "items (tx_rb d)") auto
  then show ?thesis
  proof cases
    case hold
    then show ?thesis
      using b_inv_world [OF inv, of "uart_irq_tx_disable U uart w"]
      by (simp add: tx_part_def dis)
  next
    case empty
    with R obtain t v p n rb' where
      "ring_buf_item_get R ?m (tx_rb d) = (- EAGAIN, t, v, p, n, rb')" "items rb' = []"
      unfolding item_get_contract_def by blast
    with empty show ?thesis
      using b_inv_same_items [OF inv, of rb'] by (simp add: tx_part_def dis pr Let_def b_pending_def)
  next
    case item
    obtain t v p n where i: "i = (t, v, p, n)" by (cases i)
    from inv item i have ok: "length p = 4 * unat n" "unat v \<le> 4 * unat n" "unat n \<le> TX_BUF_WORDS K"
      by (simp_all add: b_inv_def)
    have "n \<le> ?m"
      using ok(3) W by (simp add: word_le_nat_alt unat_of_nat take_bit_eq_mod)
    with R item i obtain rb' where get: "ring_buf_item_get R ?m (tx_rb d) = (0, t, v, p, n, rb')"
      "items rb' = rest"
      unfolding item_get_contract_def by meson
    have "unat n < 256" using unsigned_less [of n] by simp
    then have msg: "mem_get 0 (size_sub (unat n * 4) (unat v)) p = Inr (item_msg i)"
      using ok by (simp add: i mem_get_ok)
    show ?thesis
      using b_inv_transmit [OF inv item(1,2) get(2)] item msg
      by (simp add: tx_part_def get Let_def pr ts ff b_pending_def)
  qed
qed

section \<open>The handler\<close>

lemma irq_guard_run:
  assumes U: "b_uart_contract U uart rx txr sent"
  shows "\<exists>w'. irq_guard U uart (d, g, w) = (rx w \<noteq> [] \<or> txr w, d, g, w') \<and>
     rx w' = rx w \<and> sent w' = sent w \<and> txr w' = txr w"
proof -
  obtain r w1 where u: "uart_irq_update U uart w = (r, w1)" by (cases "uart_irq_update U uart w")
  obtain q w2 where p: "uart_irq_is_pending U uart w1 = (q, w2)" by (cases "uart_irq_is_pending U uart w1")
  from U have c: "query_contract (uart_irq_update U uart) rx sent"
    "query_contract (uart_irq_is_pending U uart) rx sent"
    and k: "txr (snd (uart_irq_update U uart w)) = txr w" "fst (uart_irq_update U uart w) \<noteq> 0"
      "txr (snd (uart_irq_is_pending U uart w1)) = txr w1"
      "fst (uart_irq_is_pending U uart w1) \<noteq> 0 \<longleftrightarrow> rx w1 \<noteq> [] \<or> txr w1"
    unfolding b_uart_contract_def fifo_uart_contract_def keeps_def by simp_all
  from query_contractD [OF c(1) u] query_contractD [OF c(2) p] k show ?thesis
    by (simp add: irq_guard_def u p)
qed

lemma rx_loop_b_empty:
  assumes U: "b_uart_contract U uart rx txr sent" and "rx w = []"
  shows "\<exists>w'. rx_loop_b K U call conf uart dev (d, g, w) = Some (Inr (d, g, w')) \<and>
     rx w' = [] \<and> sent w' = sent w \<and> txr w' = txr w"
proof -
  obtain r w1 where q: "uart_irq_rx_ready U uart w = (r, w1)" by (cases "uart_irq_rx_ready U uart w")
  from U have rr: "rx_ready_contract U uart rx sent" and k: "txr (snd (uart_irq_rx_ready U uart w)) = txr w"
    unfolding b_uart_contract_def fifo_uart_contract_def keeps_def by simp_all
  from rx_ready_contractD [OF rr q] assms(2) k show ?thesis
    unfolding rx_loop_b_def by (intro exI [of _ w1] conjI whileM_stop) (simp_all add: q)
qed

definition pass_measure :: "('w \<Rightarrow> u8 list) \<Rightarrow> ('w \<Rightarrow> bool) \<Rightarrow> ('cb, 'rb) my_uart_b_data \<Rightarrow> 'w \<Rightarrow> nat" where
  "pass_measure rx txr d w =
     (if rx w \<noteq> [] then 3 else 0) + (if sending_guard d then 0 else 1) + (if txr w then 1 else 0)"

lemma irq_pass_run:
  fixes call :: "('cb, 'rb, 'g, 'w) my_uart_b_call"
  assumes U: "b_uart_contract U uart rx txr sent" and Z: "b_kernel_contract Z rx sent"
    and R: "item_get_contract R items" and W: "TX_BUF_WORDS K < 256"
    and cbc: "b_callback_contract call dev (callback d) rx sent items (TX_BUF_WORDS K) limit upd subm"
    and conf: "b_uart_dev conf = uart"
    and lim: "list_all (\<lambda>l. length l \<le> limit) lns"
    and inv: "b_inv K rx sent items subm s0 lns d w" and pend: "rx w \<noteq> [] \<or> txr w"
  shows "\<exists>d' g' w'. irq_pass K Z R U call conf uart dev (d, g, w) = Some (Inr (d', g', w')) \<and>
     b_inv K rx sent items subm s0 lns d' w' \<and> callback d' = callback d \<and> rx w' = [] \<and>
     (b_pending d', g') = fold (fpush (line_step (B_RX_BUF_SIZE K)) upd) (rx w) (b_pending d, g) \<and>
     pass_measure rx txr d' w' < pass_measure rx txr d w"
proof -
  let ?f = "fold (fpush (line_step (B_RX_BUF_SIZE K)) upd) (rx w) (b_pending d, g)"
  have fu: "fifo_uart_contract U uart rx sent"
    and en: "keeps (uart_irq_tx_enable U (b_uart_dev conf)) (\<lambda>w. (rx w, sent w))"
    and tq: "query_contract (uart_irq_tx_ready U uart) rx sent"
    using U conf unfolding b_uart_contract_def by simp_all
  have tr: "fst (uart_irq_tx_ready U uart v) \<noteq> 0 \<longleftrightarrow> txr v"
    "txr (snd (uart_irq_tx_ready U uart v)) = txr v" for v
    using U unfolding b_uart_contract_def keeps_def by simp_all
  obtain d1 g1 w1 where l: "rx_loop_b K U call conf uart dev (d, g, w) = Some (Inr (d1, g1, w1))"
    "b_inv K rx sent items subm s0 lns d1 w1" "callback d1 = callback d" "rx w1 = []"
    "(b_pending d1, g1) = ?f" "rx w = [] \<Longrightarrow> d1 = d \<and> txr w1 = txr w"
  proof (cases "rx w = []")
    case True
    with rx_loop_b_empty [OF U True, of K call conf dev d g] b_inv_world [OF inv] that show ?thesis by auto
  next
    case False
    with rx_loop_b_run [OF fu en cbc lim inv refl, of g] that show ?thesis by auto
  qed
  obtain r w2 where q: "uart_irq_tx_ready U uart w1 = (r, w2)" by (cases "uart_irq_tx_ready U uart w1")
  have w2: "rx w2 = []" "sent w2 = sent w1" "txr w2 = txr w1" "r \<noteq> 0 \<longleftrightarrow> txr w1"
    using query_contractD [OF tq q] tr [of w1] q l(4) by simp_all
  have inv2: "b_inv K rx sent items subm s0 lns d1 w2"
    using b_inv_world [OF l(2)] w2 l(4) by simp
  show ?thesis
  proof (cases "txr w1")
    case False
    then have "rx w \<noteq> []" using pend l(6) by auto
    with False l w2 inv2 show ?thesis
      by (intro exI [of _ d1] exI [of _ g1] exI [of _ w2]) (simp add: irq_pass_def q pass_measure_def)
  next
    case True
    from tx_part_run [OF U Z R W inv2, of dev] obtain d' w' where t:
      "tx_part K Z R U uart dev (d1, w2) = Inr (d', w')" "b_inv K rx sent items subm s0 lns d' w'"
      "rx w' = rx w2" "b_pending d' = b_pending d1" "callback d' = callback d1"
      "if sending_guard d1 then sending_guard d' \<and> \<not> txr w' else sending_guard d' \<or> \<not> txr w'" by blast
    have "pass_measure rx txr d' w' < pass_measure rx txr d w"
      using t(3,6) w2(1) l(6) True by (auto simp: pass_measure_def split: if_splits)
    with t l w2 True show ?thesis
      by (intro exI [of _ d'] exI [of _ g1] exI [of _ w']) (simp add: irq_pass_def q)
  qed
qed

lemma uart_b_int_handler_run:
  fixes call :: "('cb, 'rb, 'g, 'w) my_uart_b_call"
  assumes U: "b_uart_contract U uart rx txr sent" and Z: "b_kernel_contract Z rx sent"
    and R: "item_get_contract R items" and W: "TX_BUF_WORDS K < 256"
    and cbc: "b_callback_contract call dev (callback d) rx sent items (TX_BUF_WORDS K) limit upd subm"
    and conf: "b_uart_dev conf = uart"
    and lim: "list_all (\<lambda>l. length l \<le> limit) lns"
    and inv: "b_inv K rx sent items subm s0 lns d w"
  shows "\<exists>d' g' w'. uart_b_int_handler K Z R U call conf uart dev (d, g, w) = Some (Inr (d', g', w')) \<and>
     b_inv K rx sent items subm s0 lns d' w' \<and> callback d' = callback d \<and> rx w' = [] \<and> \<not> txr w' \<and>
     (b_pending d', g') = fold (fpush (line_step (B_RX_BUF_SIZE K)) upd) (rx w) (b_pending d, g)"
proof -
  let ?F = "\<lambda>w d g. fold (fpush (line_step (B_RX_BUF_SIZE K)) upd) (rx w) (b_pending d, g)"
  let ?P = "\<lambda>(d' :: ('cb, 'rb) my_uart_b_data, g' :: 'g, w' :: 'w).
     b_inv K rx sent items subm s0 lns d' w' \<and> callback d' = callback d \<and> ?F w' d' g' = ?F w d g"
  let ?Q = "\<lambda>(d' :: ('cb, 'rb) my_uart_b_data, g' :: 'g, w' :: 'w).
     b_inv K rx sent items subm s0 lns d' w' \<and> callback d' = callback d \<and> rx w' = [] \<and> \<not> txr w' \<and>
     (b_pending d', g') = ?F w d g"
  let ?m = "\<lambda>(d' :: ('cb, 'rb) my_uart_b_data, g' :: 'g, w' :: 'w). pass_measure rx txr d' w'"
  have "\<exists>s'. uart_b_int_handler K Z R U call conf uart dev (d, g, w) = Some (Inr s') \<and> ?Q s'"
    unfolding uart_b_int_handler_def
  proof (rule whileM_total [where P = ?P and Q = ?Q and m = ?m])
    show "?P (d, g, w)" using inv by simp
  next
    fix s s1 assume P: "?P s" and go: "irq_guard U uart s = (True, s1)"
    obtain d1 g1 w1 where s: "s = (d1, g1, w1)" by (cases s)
    from irq_guard_run [OF U, of d1 g1 w1] go s obtain w2 where w2: "s1 = (d1, g1, w2)"
      "rx w2 = rx w1" "sent w2 = sent w1" "txr w2 = txr w1" "rx w1 \<noteq> [] \<or> txr w1" by auto
    from P s have P': "b_inv K rx sent items subm s0 lns d1 w1" "callback d1 = callback d"
      "?F w1 d1 g1 = ?F w d g" by auto
    have inv': "b_inv K rx sent items subm s0 lns d1 w2" using b_inv_world [OF P'(1)] w2 by simp
    have cbc': "b_callback_contract call dev (callback d1) rx sent items (TX_BUF_WORDS K) limit upd subm"
      using cbc P'(2) by simp
    from irq_pass_run [OF U Z R W cbc' conf lim inv', of g1] w2 obtain d' g' w' where
      r: "irq_pass K Z R U call conf uart dev (d1, g1, w2) = Some (Inr (d', g', w'))"
      "b_inv K rx sent items subm s0 lns d' w'" "callback d' = callback d1" "rx w' = []"
      "(b_pending d', g') = ?F w2 d1 g1" "pass_measure rx txr d' w' < pass_measure rx txr d1 w2" by auto
    have "pass_measure rx txr d1 w2 = pass_measure rx txr d1 w1" using w2 by (simp add: pass_measure_def)
    with r P' w2 show "\<exists>s2. irq_pass K Z R U call conf uart dev s1 = Some (Inr s2) \<and> ?P s2 \<and> ?m s2 < ?m s"
      by (intro exI [of _ "(d', g', w')"]) (simp add: s)
  next
    fix s s1 assume P: "?P s" and stop: "irq_guard U uart s = (False, s1)"
    obtain d1 g1 w1 where s: "s = (d1, g1, w1)" by (cases s)
    from irq_guard_run [OF U, of d1 g1 w1] stop s obtain w2 where "s1 = (d1, g1, w2)"
      "rx w2 = rx w1" "sent w2 = sent w1" "txr w2 = txr w1" "rx w1 = []" "\<not> txr w1" by auto
    with P s show "?Q s1" by (auto intro: b_inv_world)
  qed
  then show ?thesis by auto
qed

section \<open>Queueing a message\<close>

text \<open>The item \<open>user_send_data\<close> builds: enough words for the bytes, and how many are padding.\<close>

lemma words_cover:
  fixes size :: nat
  shows "size < (size div 4 + 1) * 4" and "(size div 4 + 1) * 4 \<le> size + 4"
proof -
  show "size < (size div 4 + 1) * 4" by presburger
  show "(size div 4 + 1) * 4 \<le> size + 4" by presburger
qed

lemma size_sub_padding: "a < 1020 \<Longrightarrow> a < b \<Longrightarrow> b \<le> a + 4 \<Longrightarrow> size_sub b (b - a) = a"
  by simp

lemma item_size_arith:
  fixes size :: nat
  assumes "size < 1020"
  shows "unat (word_of_nat (size div 4 + 1) :: u8) = size div 4 + 1"
    and "unat (word_of_int (int (size div 4 + 1) * 4 - int size) :: u8) = (size div 4 + 1) * 4 - size"
proof -
  show "unat (word_of_nat (size div 4 + 1) :: u8) = size div 4 + 1"
    by (rule unat_of_nat_u8) (use assms in linarith)
  have "size \<le> (size div 4 + 1) * 4" using words_cover(1) [of size] by linarith
  then have "int (size div 4 + 1) * 4 - int size = int ((size div 4 + 1) * 4 - size)"
    by (simp add: of_nat_diff)
  moreover have "unat (word_of_nat ((size div 4 + 1) * 4 - size) :: u8) = (size div 4 + 1) * 4 - size"
    by (rule unat_of_nat_u8) (use words_cover(2) [of size] in linarith)
  ultimately show "unat (word_of_int (int (size div 4 + 1) * 4 - int size) :: u8) = (size div 4 + 1) * 4 - size"
    by (metis of_int_of_nat_eq)
qed

lemma build_user_send_data_ok:
  assumes "len \<le> length data" and "len + 5 \<le> length buf" and "length buf < 2 ^ 32"
  shows "build_user_send_data buf n data len =
    Inr (ascii ''SEND:'' @ take len data @ drop (len + 5) buf, len + 5)"
  using assms by (simp add: build_user_send_data_def mem_simps add.commute)

text \<open>What a send of data that fits puts into the ring buffer.\<close>

lemma user_send_data_item:
  assumes W: "TX_BUF_WORDS K < 256" and junk: "length junk = 4 * TX_BUF_WORDS K"
    and len: "len \<le> length data" "len + 6 \<le> 4 * TX_BUF_WORDS K"
  shows "\<exists>v p n. item_ok (TX_BUF_WORDS K) (0, v, p, n) \<and> item_msg (0, v, p, n) = ascii ''SEND:'' @ take len data \<and>
     unat n = (len + 5) div 4 + 1 \<and>
     user_send_data K R U conf junk data len (d, w) =
       (case ring_buf_item_put R 0 v p n (tx_rb d) of (ret, rb) \<Rightarrow>
          Inr (d\<lparr>tx_rb := rb\<rparr>, if ret = - EMSGSIZE then w else uart_irq_tx_enable U (b_uart_dev conf) w))"
proof -
  let ?size = "len + 5"
  let ?n = "word_of_nat (?size div 4 + 1) :: u8"
  let ?v = "word_of_int (int (unat ?n) * 4 - int ?size) :: u8"
  let ?buf = "ascii ''SEND:'' @ take len data @ drop (len + 5) junk"
  have sz: "?size < 1020" using len W by linarith
  have n: "unat ?n = ?size div 4 + 1" by (rule item_size_arith(1) [OF sz])
  have v: "unat ?v = (?size div 4 + 1) * 4 - ?size"
    unfolding n by (rule item_size_arith(2) [OF sz])
  have w: "?size div 4 + 1 \<le> TX_BUF_WORDS K" using len by linarith
  have lb: "length ?buf = 4 * TX_BUF_WORDS K" using len junk by simp
  have b: "build_user_send_data junk (TX_BUF_WORDS K * 4) data len = Inr (?buf, ?size)"
    by (rule build_user_send_data_ok) (use len junk W in simp_all)
  let ?p = "take (4 * unat ?n) ?buf"
  have fit: "4 * unat ?n \<le> length ?buf" unfolding lb n by (rule mult_le_mono2 [OF w])
  have pad: "unat ?v \<le> 4 * unat ?n" by (subst v, subst n) simp
  have ok: "item_ok (TX_BUF_WORDS K) (0, ?v, ?p, ?n)"
    unfolding item_ok.simps using fit pad w by (simp only: length_take min_absorb2 n)
  have "size_sub ((?size div 4 + 1) * 4) ((?size div 4 + 1) * 4 - ?size) = ?size"
    using sz words_cover [of ?size] by (rule size_sub_padding)
  then have "size_sub (unat ?n * 4) (unat ?v) = ?size" by (subst v, subst n)
  moreover have "?size \<le> 4 * unat ?n" using words_cover(1) [of ?size] by (subst n) linarith
  ultimately have "item_msg (0, ?v, ?p, ?n) = take ?size ?buf"
    by (simp only: item_msg.simps take_take min_absorb1)
  also have "\<dots> = ascii ''SEND:'' @ take len data" using len by simp
  finally have msg: "item_msg (0, ?v, ?p, ?n) = ascii ''SEND:'' @ take len data" .
  obtain ret rb where put: "ring_buf_item_put R 0 ?v ?p ?n (tx_rb d) = (ret, rb)"
    by (cases "ring_buf_item_put R 0 ?v ?p ?n (tx_rb d)")
  have u: "user_send_data K R U conf junk data len (d, w) =
      (if ret = - EMSGSIZE then Inr (d\<lparr>tx_rb := rb\<rparr>, w)
       else Inr (d\<lparr>tx_rb := rb\<rparr>, uart_irq_tx_enable U (b_uart_dev conf) w))"
    unfolding user_send_data_def prod.case b sbind_simps Let_def put
    using fit by (simp only: not_less [symmetric] if_False)
  show ?thesis
  proof (intro exI conjI)
    show "user_send_data K R U conf junk data len (d, w) = (case ring_buf_item_put R 0 ?v ?p ?n (tx_rb d) of (ret, rb) \<Rightarrow>
        Inr (d\<lparr>tx_rb := rb\<rparr>, if ret = - EMSGSIZE then w else uart_irq_tx_enable U (b_uart_dev conf) w))"
      unfolding u put by (simp split: if_splits)
  qed (rule ok msg n)+
qed

lemma user_send_data_ok:
  assumes R: "item_put_contract R items" and "TX_BUF_WORDS K < 256"
    and "length junk = 4 * TX_BUF_WORDS K" and "len \<le> length data" and "len + 6 \<le> 4 * TX_BUF_WORDS K"
  shows "\<exists>rb w'. user_send_data K R U conf junk data len (d, w) = Inr (d\<lparr>tx_rb := rb\<rparr>, w') \<and>
     (w' = w \<and> items rb = items (tx_rb d) \<or>
      w' = uart_irq_tx_enable U (b_uart_dev conf) w \<and>
      (\<exists>i. items rb = items (tx_rb d) @ [i] \<and> item_ok (TX_BUF_WORDS K) i \<and>
         item_msg i = ascii ''SEND:'' @ take len data))"
proof -
  from user_send_data_item [OF assms(2-5), of R U conf d w] obtain v p n where
    i: "item_ok (TX_BUF_WORDS K) (0, v, p, n)" "item_msg (0, v, p, n) = ascii ''SEND:'' @ take len data" and
    u: "user_send_data K R U conf junk data len (d, w) = (case ring_buf_item_put R 0 v p n (tx_rb d) of (ret, rb) \<Rightarrow>
        Inr (d\<lparr>tx_rb := rb\<rparr>, if ret = - EMSGSIZE then w else uart_irq_tx_enable U (b_uart_dev conf) w))" by blast
  obtain ret rb where put: "ring_buf_item_put R 0 v p n (tx_rb d) = (ret, rb)" by (cases "ring_buf_item_put R 0 v p n (tx_rb d)")
  from R put consider "ret = 0" "items rb = items (tx_rb d) @ [(0, v, p, n)]" | "ret = - EMSGSIZE" "items rb = items (tx_rb d)"
    unfolding item_put_contract_def by (metis fst_conv snd_conv)
  then show ?thesis
  proof cases
    case 1
    with u put have "user_send_data K R U conf junk data len (d, w) = Inr (d\<lparr>tx_rb := rb\<rparr>, uart_irq_tx_enable U (b_uart_dev conf) w)"
      by (simp add: EMSGSIZE_def)
    with 1(2) i show ?thesis by blast
  next
    case 2
    with u put have "user_send_data K R U conf junk data len (d, w) = Inr (d\<lparr>tx_rb := rb\<rparr>, w)" by simp
    with 2(2) show ?thesis by blast
  qed
qed

text \<open>With the room of the ring buffer: queued when there is room for it, and nothing done otherwise.\<close>

lemma user_send_data_room:
  assumes R: "item_room_contract R items cap" and "TX_BUF_WORDS K < 256"
    and "length junk = 4 * TX_BUF_WORDS K" and "len \<le> length data" and "len + 6 \<le> 4 * TX_BUF_WORDS K"
  shows "\<exists>rb. cap rb = cap (tx_rb d) \<and>
     (if items_used (items (tx_rb d)) + (len + 5) div 4 + 2 \<le> cap (tx_rb d)
      then user_send_data K R U conf junk data len (d, w) = Inr (d\<lparr>tx_rb := rb\<rparr>, uart_irq_tx_enable U (b_uart_dev conf) w) \<and>
        (\<exists>i. items rb = items (tx_rb d) @ [i] \<and> item_ok (TX_BUF_WORDS K) i \<and> item_msg i = ascii ''SEND:'' @ take len data) \<and>
        items_used (items rb) = items_used (items (tx_rb d)) + (len + 5) div 4 + 2
      else user_send_data K R U conf junk data len (d, w) = Inr (d\<lparr>tx_rb := rb\<rparr>, w) \<and> items rb = items (tx_rb d))"
proof -
  from user_send_data_item [OF assms(2-5), of R U conf d w] obtain v p n where
    i: "item_ok (TX_BUF_WORDS K) (0, v, p, n)" "item_msg (0, v, p, n) = ascii ''SEND:'' @ take len data"
      "unat n = (len + 5) div 4 + 1" and
    u: "user_send_data K R U conf junk data len (d, w) = (case ring_buf_item_put R 0 v p n (tx_rb d) of (ret, rb) \<Rightarrow>
        Inr (d\<lparr>tx_rb := rb\<rparr>, if ret = - EMSGSIZE then w else uart_irq_tx_enable U (b_uart_dev conf) w))" by blast
  obtain ret rb where put: "ring_buf_item_put R 0 v p n (tx_rb d) = (ret, rb)" by (cases "ring_buf_item_put R 0 v p n (tx_rb d)")
  from R put have c: "cap rb = cap (tx_rb d)"
    "if items_used (items (tx_rb d)) + unat n + 1 \<le> cap (tx_rb d) then ret = 0 \<and> items rb = items (tx_rb d) @ [(0, v, p, n)]
     else ret = - EMSGSIZE \<and> items rb = items (tx_rb d)"
    unfolding item_room_contract_def by (metis fst_conv snd_conv)+
  show ?thesis
  proof (cases "items_used (items (tx_rb d)) + unat n + 1 \<le> cap (tx_rb d)")
    case True
    with c(2) u put have "user_send_data K R U conf junk data len (d, w) = Inr (d\<lparr>tx_rb := rb\<rparr>, uart_irq_tx_enable U (b_uart_dev conf) w)"
      by (simp add: EMSGSIZE_def)
    moreover have "items rb = items (tx_rb d) @ [(0, v, p, n)]" using True c(2) by simp
    ultimately show ?thesis using True c(1) i by (intro exI [of _ rb]) (auto simp del: item_msg.simps item_ok.simps)
  next
    case False
    with c(2) u put have "user_send_data K R U conf junk data len (d, w) = Inr (d\<lparr>tx_rb := rb\<rparr>, w)" by simp
    with False c i(3) show ?thesis by (intro exI [of _ rb]) simp
  qed
qed

end
