(* ===== verification/My_Uart_B_System.thy ===== *)
theory My_Uart_B_System
  imports My_Uart_B_Protocol
begin

text \<open>
  The second UART driver as a system: interrupts, timer expiries and calls of
  \<open>my_uart_send_data\<close> in any order. Its properties, among them the bound the sending
  guard gives and the order in which messages reach the wire.
\<close>

section \<open>Traces\<close>

datatype b_event = Interrupt "u8 list list" | Timeout | Send "u8 list" | Elsewhere

text \<open>
  A step is one handler run to its end, or something elsewhere in the world that sends
  nothing on this UART (bytes arrive, the transmitter becomes ready). An interrupt is labelled
  with the lines it completes, a send with its data.
\<close>

inductive b_step ::
    "my_uart_b_kconfig \<Rightarrow> 'w kernel_api \<Rightarrow> 'rb ring_item_api \<Rightarrow> 'w uart_api \<Rightarrow>
     ('cb, 'rb, 'g, 'w) my_uart_b_call \<Rightarrow> my_uart_b_conf \<Rightarrow> dev \<Rightarrow> ('w \<Rightarrow> u8 list) \<Rightarrow> ('w \<Rightarrow> u8 list list) \<Rightarrow>
     ('cb, 'rb, 'g, 'w) my_uart_b_state \<Rightarrow> b_event \<Rightarrow> ('cb, 'rb, 'g, 'w) my_uart_b_state \<Rightarrow> bool"
  for K Z R U call conf dev rx sent where
  interrupt: "uart_b_int_handler K Z R U call conf (b_uart_dev conf) dev (d, g, w) = Some (Inr st') \<Longrightarrow>
     lns = frames (line_step (B_RX_BUF_SIZE K)) (rx w) (b_pending d) \<Longrightarrow>
     b_step K Z R U call conf dev rx sent (d, g, w) (Interrupt lns) st'"
| timeout: "sending_guard_timer_expired_function U conf (d, w) = (d', w') \<Longrightarrow>
     b_step K Z R U call conf dev rx sent (d, g, w) Timeout (d', g, w')"
| send: "my_uart_send_data (api_b K R U) conf junk data len (d, w) = Inr (d', w') \<Longrightarrow>
     length junk = 4 * TX_BUF_WORDS K \<Longrightarrow> len \<le> length data \<Longrightarrow> msg = take len data \<Longrightarrow>
     b_step K Z R U call conf dev rx sent (d, g, w) (Send msg) (d', g, w')"
| elsewhere: "sent w' = sent w \<Longrightarrow>
     b_step K Z R U call conf dev rx sent (d, g, w) Elsewhere (d, g, w')"

abbreviation b_trace ::
    "my_uart_b_kconfig \<Rightarrow> 'w kernel_api \<Rightarrow> 'rb ring_item_api \<Rightarrow> 'w uart_api \<Rightarrow>
     ('cb, 'rb, 'g, 'w) my_uart_b_call \<Rightarrow> my_uart_b_conf \<Rightarrow> dev \<Rightarrow> ('w \<Rightarrow> u8 list) \<Rightarrow> ('w \<Rightarrow> u8 list list) \<Rightarrow>
     ('cb, 'rb, 'g, 'w) my_uart_b_state \<Rightarrow> b_event list \<Rightarrow> ('cb, 'rb, 'g, 'w) my_uart_b_state \<Rightarrow> bool" where
  "b_trace K Z R U call conf dev rx sent \<equiv> run (b_step K Z R U call conf dev rx sent)"

text \<open>What an event can add to the queue, and the releases it carries.\<close>

fun event_msgs :: "(u8 list \<Rightarrow> u8 list) \<Rightarrow> b_event \<Rightarrow> u8 list list" where
  "event_msgs subm (Interrupt lns) = map subm lns"
| "event_msgs subm (Send m) = [ascii ''SEND:'' @ m]"
| "event_msgs subm e = []"

fun event_acks :: "b_event \<Rightarrow> nat" where
  "event_acks (Interrupt lns) = ok_lines lns"
| "event_acks Timeout = 1"
| "event_acks e = 0"

text \<open>Lines the callback can take and data the send buffer has room for.\<close>

fun event_fits :: "my_uart_b_kconfig \<Rightarrow> nat \<Rightarrow> b_event \<Rightarrow> bool" where
  "event_fits K limit (Interrupt lns) = list_all (\<lambda>l. length l \<le> limit) lns"
| "event_fits K limit (Send m) = (length m + 6 \<le> 4 * TX_BUF_WORDS K)"
| "event_fits K limit e = True"

section \<open>Every event is a run of the protocol machine\<close>

definition b_ok :: "my_uart_b_kconfig \<Rightarrow> ('rb \<Rightarrow> ring_item list) \<Rightarrow> ('cb, 'rb) my_uart_b_data \<Rightarrow> bool" where
  "b_ok K items d \<longleftrightarrow> wf_b K d \<and> list_all (item_ok (TX_BUF_WORDS K)) (items (tx_rb d))"

lemma uart_b_int_handler_sw:
  fixes call :: "('cb, 'rb, 'g, 'w) my_uart_b_call"
  assumes U: "b_uart_contract U uart rx txr sent" and Z: "b_kernel_contract Z rx sent"
    and R: "item_get_contract R items" and W: "TX_BUF_WORDS K < 256"
    and cbc: "b_callback_contract call dev (callback d) rx sent items (TX_BUF_WORDS K) limit upd subm"
    and conf: "b_uart_dev conf = uart" and ok: "b_ok K items d"
    and lns: "lns = frames (line_step (B_RX_BUF_SIZE K)) (rx w) (b_pending d)"
    and lim: "list_all (\<lambda>l. length l \<le> limit) lns"
  shows "\<exists>d' g' w' acts. uart_b_int_handler K Z R U call conf uart dev (d, g, w) = Some (Inr (d', g', w')) \<and>
     b_ok K items d' \<and> callback d' = callback d \<and> rx w' = [] \<and> \<not> txr w' \<and>
     b_pending d' = residue (line_step (B_RX_BUF_SIZE K)) (rx w) (b_pending d) \<and> g' = fold upd lns g \<and>
     sw_run (sw_of items sent d w) acts (sw_of items sent d' w') \<and>
     releases acts = ok_lines lns \<and> subseq (submits acts) (map subm lns)"
proof -
  let ?s0 = "sw_of items sent d w"
  have "b_inv K rx sent items subm ?s0 lns d w"
    using b_inv_start [of K d items rx sent subm w] ok unfolding lns b_ok_def by blast
  from uart_b_int_handler_run [OF U Z R W cbc conf lim this, of g] obtain d' g' w' where r:
    "uart_b_int_handler K Z R U call conf uart dev (d, g, w) = Some (Inr (d', g', w'))"
    "b_inv K rx sent items subm ?s0 lns d' w'" "callback d' = callback d" "rx w' = []" "\<not> txr w'"
    "(b_pending d', g') = fold (fpush (line_step (B_RX_BUF_SIZE K)) upd) (rx w) (b_pending d, g)" by blast
  from b_inv_done [OF r(2,4)] obtain acts where "sw_run ?s0 acts (sw_of items sent d' w')"
    "releases acts = ok_lines lns" "subseq (submits acts) (map subm lns)" .
  moreover have "b_ok K items d'" using r(2) by (simp add: b_inv_def b_ok_def)
  ultimately show ?thesis
    using r(1,3-6) unfolding fold_fpush lns
    by (intro exI [of _ d'] exI [of _ g'] exI [of _ w'] exI [of _ acts]) simp
qed

lemma timer_sw:
  assumes en: "keeps (uart_irq_tx_enable U (b_uart_dev conf)) (\<lambda>w. (rx w, sent w))" and ok: "b_ok K items d"
    and t: "sending_guard_timer_expired_function U conf (d, w) = (d', w')"
  shows "b_ok K items d' \<and> callback d' = callback d \<and>
     sw_run (sw_of items sent d w) [Release] (sw_of items sent d' w')"
proof -
  from t keepsD [OF en, of w] have "d' = d\<lparr>sending_guard := False\<rparr>" "sent w' = sent w"
    by (auto simp: sending_guard_timer_expired_function_def)
  moreover have "sw_run (sw_of items sent d w) [Release] (sw_of items sent d w\<lparr>waiting := False\<rparr>)"
    by (rule sw_run_one [OF sw_step.release])
  ultimately show ?thesis using ok by (simp add: sw_of_def b_ok_def wf_b_def b_pending_def)
qed

lemma send_sw:
  assumes R: "item_put_contract R items" and W: "TX_BUF_WORDS K < 256"
    and en: "keeps (uart_irq_tx_enable U (b_uart_dev conf)) (\<lambda>w. (rx w, sent w))"
    and junk: "length junk = 4 * TX_BUF_WORDS K" and len: "len \<le> length data" "len + 6 \<le> 4 * TX_BUF_WORDS K"
    and ok: "b_ok K items d"
  shows "\<exists>rb w' acts. user_send_data K R U conf junk data len (d, w) = Inr (d\<lparr>tx_rb := rb\<rparr>, w') \<and>
     b_ok K items (d\<lparr>tx_rb := rb\<rparr>) \<and> rx w' = rx w \<and>
     sw_run (sw_of items sent d w) acts (sw_of items sent (d\<lparr>tx_rb := rb\<rparr>) w') \<and>
     (acts = [] \<or> acts = [Submit (ascii ''SEND:'' @ take len data)])"
proof -
  let ?m = "ascii ''SEND:'' @ take len data"
  from user_send_data_ok [OF R W junk len, of U conf d w] obtain rb w' where
    r: "user_send_data K R U conf junk data len (d, w) = Inr (d\<lparr>tx_rb := rb\<rparr>, w')" and
    c: "w' = w \<and> items rb = items (tx_rb d) \<or> w' = uart_irq_tx_enable U (b_uart_dev conf) w \<and>
      (\<exists>i. items rb = items (tx_rb d) @ [i] \<and> item_ok (TX_BUF_WORDS K) i \<and> item_msg i = ?m)" by blast
  from c show ?thesis
  proof
    assume "w' = w \<and> items rb = items (tx_rb d)"
    with r ok show ?thesis
      by (intro exI [of _ rb] exI [of _ w'] exI [of _ "[]"])
        (simp add: sw_of_def b_ok_def wf_b_def b_pending_def)
  next
    assume a: "w' = uart_irq_tx_enable U (b_uart_dev conf) w \<and>
      (\<exists>i. items rb = items (tx_rb d) @ [i] \<and> item_ok (TX_BUF_WORDS K) i \<and> item_msg i = ?m)"
    then have "rx w' = rx w" "sent w' = sent w" using keepsD [OF en, of w] by simp_all
    moreover have "sw_run (sw_of items sent d w) [Submit ?m]
        (sw_of items sent d w\<lparr>queue := queue (sw_of items sent d w) @ [?m]\<rparr>)"
      by (rule sw_run_one [OF sw_step.submit])
    ultimately show ?thesis
      using a r ok by (intro exI [of _ rb] exI [of _ w'] exI [of _ "[Submit ?m]"])
        (auto simp: sw_of_def b_ok_def wf_b_def b_pending_def)
  qed
qed

lemma b_step_sw:
  fixes call :: "('cb, 'rb, 'g, 'w) my_uart_b_call"
  assumes U: "b_uart_contract U (b_uart_dev conf) rx txr sent" and Z: "b_kernel_contract Z rx sent"
    and R: "item_get_contract R items" "item_put_contract R items" and W: "TX_BUF_WORDS K < 256"
    and cbc: "b_callback_contract call dev (callback d) rx sent items (TX_BUF_WORDS K) limit upd subm"
    and ok: "b_ok K items d" and fits: "event_fits K limit e"
    and step: "b_step K Z R U call conf dev rx sent (d, g, w) e (d', g', w')"
  shows "b_ok K items d' \<and> callback d' = callback d \<and>
     (\<exists>acts. sw_run (sw_of items sent d w) acts (sw_of items sent d' w') \<and>
        releases acts = event_acks e \<and> subseq (submits acts) (event_msgs subm e))"
proof -
  have en: "keeps (uart_irq_tx_enable U (b_uart_dev conf)) (\<lambda>w. (rx w, sent w))"
    using U unfolding b_uart_contract_def by simp
  from step show ?thesis
  proof (cases rule: b_step.cases)
    case (interrupt lns)
    then have lim: "list_all (\<lambda>l. length l \<le> limit) lns" using fits by simp
    from uart_b_int_handler_sw [OF U Z R(1) W cbc refl ok interrupt(3) lim, of g] interrupt show ?thesis
      by auto
  next
    case timeout
    from timer_sw [OF en ok timeout(3)] timeout show ?thesis
      by (intro conjI exI [of _ "[Release]"]) simp_all
  next
    case (send junk data len msg)
    then have len: "len + 6 \<le> 4 * TX_BUF_WORDS K" using fits by (simp add: min_absorb2)
    from send_sw [OF R(2) W en send(4,5) len ok, of w] obtain rb w1 acts where
      "user_send_data K R U conf junk data len (d, w) = Inr (d\<lparr>tx_rb := rb\<rparr>, w1)"
      "b_ok K items (d\<lparr>tx_rb := rb\<rparr>)"
      "sw_run (sw_of items sent d w) acts (sw_of items sent (d\<lparr>tx_rb := rb\<rparr>) w1)"
      "acts = [] \<or> acts = [Submit (ascii ''SEND:'' @ take len data)]" by blast
    with send show ?thesis
      by (auto simp: my_uart_send_data_def api_b_def)
  next
    case elsewhere
    with ok show ?thesis by (intro conjI exI [of _ "[]"]) (simp_all add: sw_of_def)
  qed
qed

lemma b_trace_sw:
  fixes call :: "('cb, 'rb, 'g, 'w) my_uart_b_call"
  assumes U: "b_uart_contract U (b_uart_dev conf) rx txr sent" and Z: "b_kernel_contract Z rx sent"
    and R: "item_get_contract R items" "item_put_contract R items" and W: "TX_BUF_WORDS K < 256"
    and cbc: "b_callback_contract call dev (callback d) rx sent items (TX_BUF_WORDS K) limit upd subm"
    and ok: "b_ok K items d"
    and trace: "b_trace K Z R U call conf dev rx sent (d, g, w) evs (d', g', w')"
    and fits: "list_all (event_fits K limit) evs"
  shows "b_ok K items d' \<and> callback d' = callback d \<and>
     (\<exists>acts. sw_run (sw_of items sent d w) acts (sw_of items sent d' w') \<and>
        releases acts = sum_list (map event_acks evs) \<and>
        subseq (submits acts) (concat (map (event_msgs subm) evs)))"
  using trace fits
proof (induction "(d, g, w)" evs "(d', g', w')" arbitrary: d' g' w' rule: run.induct)
  case idle
  with ok show ?case by (intro conjI exI [of _ "[]"]) simp_all
next
  case (extend evs st' e)
  obtain d1 g1 w1 where st': "st' = (d1, g1, w1)" by (cases st')
  from extend st' obtain acts where I: "b_ok K items d1" "callback d1 = callback d"
    "sw_run (sw_of items sent d w) acts (sw_of items sent d1 w1)"
    "releases acts = sum_list (map event_acks evs)"
    "subseq (submits acts) (concat (map (event_msgs subm) evs))" by auto
  have cbc1: "b_callback_contract call dev (callback d1) rx sent items (TX_BUF_WORDS K) limit upd subm"
    using cbc I(2) by simp
  from extend.hyps(3) st' have step: "b_step K Z R U call conf dev rx sent (d1, g1, w1) e (d', g', w')"
    by simp
  from extend.prems have fits1: "event_fits K limit e" by simp
  from b_step_sw [OF U Z R W cbc1 I(1) fits1 step] obtain bcts where J: "b_ok K items d'" "callback d' = callback d1"
    "sw_run (sw_of items sent d1 w1) bcts (sw_of items sent d' w')"
    "releases bcts = event_acks e" "subseq (submits bcts) (event_msgs subm e)" by blast
  from run_append [OF J(3) I(3)] I J show ?case
    by (intro conjI exI [of _ "acts @ bcts"]) (simp_all add: list_emb_append_mono)
qed

text \<open>At the bound, with every byte of the buffer used, one word more is read than it has.\<close>

lemma user_send_data_edge:
  assumes W: "TX_BUF_WORDS K < 255"
    and junk: "length junk = 4 * TX_BUF_WORDS K" and len: "len \<le> length data" "len + 5 = 4 * TX_BUF_WORDS K"
  shows "\<exists>ret rb v p n. ring_buf_item_put R 0 v p n (tx_rb d) = (ret, rb) \<and> unat n = TX_BUF_WORDS K + 1 \<and>
     user_send_data K R U conf junk data len (d, w) = (if ret = - EMSGSIZE then Inr (d\<lparr>tx_rb := rb\<rparr>, w) else Inl OOB_read)"
proof -
  let ?size = "len + 5"
  let ?n = "word_of_nat (?size div 4 + 1) :: u8"
  let ?v = "word_of_int (int (unat ?n) * 4 - int ?size) :: u8"
  let ?buf = "ascii ''SEND:'' @ take len data @ drop (len + 5) junk"
  have b: "build_user_send_data junk (TX_BUF_WORDS K * 4) data len = Inr (?buf, ?size)"
    by (rule build_user_send_data_ok) (use len junk W in simp_all)
  have "?size div 4 + 1 = TX_BUF_WORDS K + 1" using len(2) by simp
  then have n: "unat ?n = TX_BUF_WORDS K + 1" using W by (simp only: unat_of_nat_u8)
  have short: "length ?buf < 4 * unat ?n" using len junk by (subst n) simp
  obtain ret rb where put: "ring_buf_item_put R 0 ?v (take (4 * unat ?n) ?buf) ?n (tx_rb d) = (ret, rb)"
    by (cases "ring_buf_item_put R 0 ?v (take (4 * unat ?n) ?buf) ?n (tx_rb d)")
  have "user_send_data K R U conf junk data len (d, w) =
      (if ret = - EMSGSIZE then Inr (d\<lparr>tx_rb := rb\<rparr>, w) else Inl OOB_read)"
    unfolding user_send_data_def prod.case b sbind_simps Let_def put using short by (simp only: if_True)
  with put n show ?thesis by blast
qed

section \<open>Progress\<close>

text \<open>With the guard down, something queued and the transmitter ready, the first pass sends it.\<close>

lemma tx_part_sends:
  assumes U: "b_uart_contract U uart rx txr sent" and Z: "b_kernel_contract Z rx sent"
    and R: "item_get_contract R items" and W: "TX_BUF_WORDS K < 256" and ok: "b_ok K items d"
    and idle: "\<not> sending_guard d" and it: "items (tx_rb d) = i # rest"
  shows "\<exists>rb w'. tx_part K Z R U uart dev (d, w) = Inr (d\<lparr>tx_rb := rb, sending_guard := True\<rparr>, w') \<and>
     items rb = rest \<and> rx w' = rx w \<and> sent w' = sent w @ [item_msg i]"
proof -
  obtain t v p n where i: "i = (t, v, p, n)" by (cases i)
  let ?m = "word_of_nat (TX_BUF_WORDS K) :: u8"
  from ok it i have sz: "length p = 4 * unat n" "unat v \<le> 4 * unat n" "unat n \<le> TX_BUF_WORDS K"
    by (simp_all add: b_ok_def)
  have "n \<le> ?m" using sz(3) W by (simp add: word_le_nat_alt unat_of_nat take_bit_eq_mod)
  with R it i obtain rb where get: "ring_buf_item_get R ?m (tx_rb d) = (0, t, v, p, n, rb)" "items rb = rest"
    unfolding item_get_contract_def by meson
  have "unat n < 256" using unsigned_less [of n] by simp
  then have msg: "mem_get 0 (size_sub (unat n * 4) (unat v)) p = Inr (item_msg i)"
    using sz by (simp add: i mem_get_ok)
  have w: "rx (printk Z bs v) = rx v" "sent (printk Z bs v) = sent v"
    "rx (k_timer_start Z x m q v) = rx v" "sent (k_timer_start Z x m q v) = sent v"
    "rx (snd (uart_fifo_fill U uart bs v)) = rx v"
    "sent (snd (uart_fifo_fill U uart bs v)) = sent v @ [bs]" for bs v x m q
    using U Z unfolding b_uart_contract_def b_kernel_contract_def keeps_def by simp_all
  show ?thesis
    using idle msg get by (intro exI [of _ rb]) (simp add: tx_part_def Let_def w)
qed

lemma uart_b_int_handler_sends:
  fixes call :: "('cb, 'rb, 'g, 'w) my_uart_b_call"
  assumes U: "b_uart_contract U uart rx txr sent" and Z: "b_kernel_contract Z rx sent"
    and R: "item_get_contract R items" and W: "TX_BUF_WORDS K < 256"
    and cbc: "b_callback_contract call dev (callback d) rx sent items (TX_BUF_WORDS K) limit upd subm"
    and conf: "b_uart_dev conf = uart" and ok: "b_ok K items d"
    and idle: "\<not> sending_guard d" and it: "items (tx_rb d) = i # rest"
    and w: "rx w = []" "txr w"
  shows "\<exists>d' g' w'. uart_b_int_handler K Z R U call conf uart dev (d, g, w) = Some (Inr (d', g', w')) \<and>
     b_ok K items d' \<and> callback d' = callback d \<and> b_pending d' = b_pending d \<and>
     sending_guard d' \<and> rx w' = [] \<and>
     map item_msg (items (tx_rb d')) = map item_msg rest \<and> sent w' = sent w @ [item_msg i]"
proof -
  from irq_guard_run [OF U, of d g w] w obtain w1 where
    g: "irq_guard U uart (d, g, w) = (True, d, g, w1)" "rx w1 = []" "sent w1 = sent w" "txr w1" by auto
  from rx_loop_b_empty [OF U g(2), of K call conf dev d g] obtain w2 where
    l: "rx_loop_b K U call conf uart dev (d, g, w1) = Some (Inr (d, g, w2))"
      "rx w2 = []" "sent w2 = sent w1" "txr w2 = txr w1" by blast
  obtain r w3 where q: "uart_irq_tx_ready U uart w2 = (r, w3)" by (cases "uart_irq_tx_ready U uart w2")
  have tq: "query_contract (uart_irq_tx_ready U uart) rx sent"
    and tr: "fst (uart_irq_tx_ready U uart w2) \<noteq> 0 \<longleftrightarrow> txr w2"
    using U unfolding b_uart_contract_def by simp_all
  have w3: "r \<noteq> 0" "rx w3 = []" "sent w3 = sent w"
    using query_contractD [OF tq q] tr q l g by simp_all
  from tx_part_sends [OF U Z R W ok idle it, of dev w3] obtain rb w4 where
    t: "tx_part K Z R U uart dev (d, w3) = Inr (d\<lparr>tx_rb := rb, sending_guard := True\<rparr>, w4)"
      "items rb = rest" "rx w4 = rx w3" "sent w4 = sent w3 @ [item_msg i]" by blast
  let ?d = "d\<lparr>tx_rb := rb, sending_guard := True\<rparr>"
  have pass: "irq_pass K Z R U call conf uart dev (d, g, w1) = Some (Inr (?d, g, w4))"
    using w3 by (simp add: irq_pass_def l q t(1))
  have h: "uart_b_int_handler K Z R U call conf uart dev (d, g, w) =
      uart_b_int_handler K Z R U call conf uart dev (?d, g, w4)"
    unfolding uart_b_int_handler_def by (rule whileM_step) (rule g(1), rule pass)
  have ok': "b_ok K items ?d" using ok it t(2) by (simp add: b_ok_def wf_b_def b_pending_def)
  have rx4: "rx w4 = []" using t(3) w3(2) by simp
  have lns: "[] = frames (line_step (B_RX_BUF_SIZE K)) (rx w4) (b_pending ?d)" by (simp add: rx4)
  have cbc': "b_callback_contract call dev (callback ?d) rx sent items (TX_BUF_WORDS K) limit upd subm"
    using cbc by simp
  from uart_b_int_handler_sw [OF U Z R W cbc' conf ok' lns, of g] obtain d' g' w' acts where
    r: "uart_b_int_handler K Z R U call conf uart dev (?d, g, w4) = Some (Inr (d', g', w'))"
      "b_ok K items d'" "callback d' = callback ?d" "rx w' = []"
      "b_pending d' = residue (line_step (B_RX_BUF_SIZE K)) (rx w4) (b_pending ?d)"
      "sw_run (sw_of items sent ?d w4) acts (sw_of items sent d' w')"
      "releases acts = 0" "submits acts = []" by auto
  from sw_run_credit [OF r(6)] r(7) have c: "length (sent w') + (if sending_guard d' then 0 else 1) \<le> length (sent w4)"
    by (simp add: sw_of_def credit_def)
  from sw_run_fifo [OF r(6)] r(8) t(2) have f:
    "sent w' @ map item_msg (items (tx_rb d')) = sent w4 @ map item_msg rest"
    by (simp add: sw_of_def)
  have le: "length (sent w4) \<le> length (sent w')" by (rule sw_run_wire_grows [OF r(6), unfolded sw_of_def sw.simps])
  with c have "length (sent w') = length (sent w4)" and "sending_guard d'" by (auto split: if_splits)
  with f have "sent w' = sent w4" "map item_msg (items (tx_rb d')) = map item_msg rest" by simp_all
  with h r(1-5) t(3,4) w3 rx4 \<open>sending_guard d'\<close> show ?thesis
    by (intro exI [of _ d'] exI [of _ g'] exI [of _ w']) (simp add: b_pending_def)
qed

text \<open>A timer expiry and the interrupt it enables.\<close>

lemma released_sends:
  fixes call :: "('cb, 'rb, 'g, 'w) my_uart_b_call"
  assumes U: "b_uart_contract U (b_uart_dev conf) rx txr sent" and Z: "b_kernel_contract Z rx sent"
    and R: "item_get_contract R items" and W: "TX_BUF_WORDS K < 256"
    and cbc: "b_callback_contract call dev (callback d) rx sent items (TX_BUF_WORDS K) limit upd subm"
    and rdy: "\<And>w. txr (uart_irq_tx_enable U (b_uart_dev conf) w)"
    and ok: "b_ok K items d" and it: "items (tx_rb d) = i # rest" and w: "rx w = []"
  shows "\<exists>d1 w1 d' g' w'. b_step K Z R U call conf dev rx sent (d, g, w) Timeout (d1, g, w1) \<and>
     b_step K Z R U call conf dev rx sent (d1, g, w1) (Interrupt []) (d', g', w') \<and>
     b_ok K items d1 \<and> callback d1 = callback d \<and> \<not> sending_guard d1 \<and> txr w1 \<and>
     b_ok K items d' \<and> callback d' = callback d \<and> sending_guard d' \<and> rx w' = [] \<and>
     map item_msg (items (tx_rb d')) = map item_msg rest \<and> sent w' = sent w @ [item_msg i]"
proof -
  let ?d = "d\<lparr>sending_guard := False\<rparr>" and ?w = "uart_irq_tx_enable U (b_uart_dev conf) w"
  have en: "keeps (uart_irq_tx_enable U (b_uart_dev conf)) (\<lambda>w. (rx w, sent w))"
    using U unfolding b_uart_contract_def by simp
  have t: "b_step K Z R U call conf dev rx sent (d, g, w) Timeout (?d, g, ?w)"
    by (rule b_step.timeout) (simp add: sending_guard_timer_expired_function_def)
  have w': "rx ?w = []" "sent ?w = sent w" using keepsD [OF en, of w] w by simp_all
  have ok': "b_ok K items ?d" using ok by (simp add: b_ok_def wf_b_def b_pending_def)
  have cbc': "b_callback_contract call dev (callback ?d) rx sent items (TX_BUF_WORDS K) limit upd subm"
    using cbc by simp
  have it': "items (tx_rb ?d) = i # rest" and idle: "\<not> sending_guard ?d" using it by simp_all
  from uart_b_int_handler_sends [OF U Z R W cbc' refl ok' idle it' w'(1) rdy, of g] obtain d' g' w1 where
    r: "uart_b_int_handler K Z R U call conf (b_uart_dev conf) dev (?d, g, ?w) = Some (Inr (d', g', w1))"
      "b_ok K items d'" "callback d' = callback d" "sending_guard d'" "rx w1 = []"
      "map item_msg (items (tx_rb d')) = map item_msg rest" "sent w1 = sent w @ [item_msg i]"
    using w' by auto
  have "b_step K Z R U call conf dev rx sent (?d, g, ?w) (Interrupt []) (d', g', w1)"
    by (rule b_step.interrupt [OF r(1)]) (simp add: w')
  with t r ok' rdy show ?thesis
    by (intro exI [of _ ?d] exI [of _ ?w] exI [of _ d'] exI [of _ g'] exI [of _ w1]) simp
qed

lemma timeout_then_interrupt:
  fixes call :: "('cb, 'rb, 'g, 'w) my_uart_b_call"
  assumes "b_uart_contract U (b_uart_dev conf) rx txr sent" and "b_kernel_contract Z rx sent"
    and "item_get_contract R items" and "TX_BUF_WORDS K < 256"
    and "b_callback_contract call dev (callback d) rx sent items (TX_BUF_WORDS K) limit upd subm"
    and "\<And>w. txr (uart_irq_tx_enable U (b_uart_dev conf) w)"
    and "b_ok K items d" and "items (tx_rb d) = i # rest" and "rx w = []"
  shows "\<exists>d' g' w'. b_trace K Z R U call conf dev rx sent (d, g, w) [Timeout, Interrupt []] (d', g', w') \<and>
     map item_msg (items (tx_rb d')) = map item_msg rest \<and> sent w' = sent w @ [item_msg i]"
proof -
  from released_sends [where dev = dev and g = g, OF assms] obtain d1 w1 d' g' w' where
    "b_step K Z R U call conf dev rx sent (d, g, w) Timeout (d1, g, w1)"
    "b_step K Z R U call conf dev rx sent (d1, g, w1) (Interrupt []) (d', g', w')"
    and r: "map item_msg (items (tx_rb d')) = map item_msg rest" "sent w' = sent w @ [item_msg i]" by blast
  from run_pair [where step = "b_step K Z R U call conf dev rx sent", OF this(1,2)] r show ?thesis by blast
qed

section \<open>The concrete world keeps the contracts\<close>

lemma board_b_uart: "b_uart_contract board_uart d (\<lambda>w. rxq w d) (\<lambda>w. tx_on w d) (\<lambda>w. fills w d)"
  unfolding b_uart_contract_def using board_fifo_uart [of "\<lambda>w. fills w d" d]
  by (simp add: rxq_blind_def keeps_def query_contract_def)

lemma board_b_kernel: "b_kernel_contract board_kernel (\<lambda>w. rxq w d) (\<lambda>w. fills w d)"
  by (simp add: b_kernel_contract_def keeps_def board_kernel_def log_def)

lemma board_put: "item_put_contract board_ring_items snd"
  by (auto simp: item_put_contract_def board_ring_items_def)

lemma board_get: "item_get_contract board_ring_items snd"
  by (auto simp: item_get_contract_def board_ring_items_def split: list.splits)

lemma board_room: "item_room_contract board_ring_items snd fst"
  by (auto simp: item_room_contract_def board_ring_items_def)

definition K16 :: my_uart_b_kconfig where
  "K16 = \<lparr>B_RX_BUF_SIZE = 64, TX_BUF_WORDS = 16, TX_BUFFERING_BUF_WORDS = 128, B_ASSERT = False\<rparr>"

definition conf_b :: my_uart_b_conf where
  "conf_b = \<lparr>b_uart_dev = 2, b_gpio_spec = \<lparr>port = 0, pin = 23\<rparr>\<rparr>"

definition quiet_call :: "(unit, 'rb, unit, 'w) my_uart_b_call" where
  "quiet_call f dev buf len st = Inr st"

text \<open>A driver that has sent something, waits, and has one more message queued.\<close>

definition waiting_b :: "(unit, board_items) my_uart_b_data" where
  "waiting_b = my_uart_b_data_init K16 (128, [(0, 1, ascii ''SEND:Hi'' @ [0], 2)])\<lparr>sending_guard := True\<rparr>"

lemma quiet_contract:
  "b_callback_contract quiet_call dev (callback waiting_b) rx sent items words limit (\<lambda>l g. g) subm"
  by (auto simp: b_callback_contract_def waiting_b_def my_uart_b_data_init_def)

lemma waiting_b_sel:
  "sending_guard waiting_b" "tx_rb waiting_b = (128, [(0, 1, ascii ''SEND:Hi'' @ [0], 2)])"
  "b_pending waiting_b = []" "item_msg (0, 1, ascii ''SEND:Hi'' @ [0], 2) = ascii ''SEND:Hi''"
  "B_RX_BUF_SIZE K16 = 64" "TX_BUF_WORDS K16 = 16" "b_uart_dev conf_b = 2"
  by (simp_all add: waiting_b_def my_uart_b_data_init_def b_pending_def K16_def conf_b_def)

lemma waiting_b_ok: "b_ok K16 snd waiting_b"
  by (simp add: b_ok_def wf_b_def waiting_b_sel) (simp add: waiting_b_def my_uart_b_data_init_def K16_def)

lemma waiting_b_trace:
  "\<exists>d' g' w'. b_trace K16 board_kernel board_ring_items board_uart quiet_call conf_b 1
       (\<lambda>w. rxq w 2) (\<lambda>w. fills w 2) (waiting_b, (), board0) [Timeout, Interrupt []] (d', g', w') \<and>
     snd (tx_rb d') = []"
proof -
  have U: "b_uart_contract board_uart (b_uart_dev conf_b) (\<lambda>w. rxq w 2) (\<lambda>w. tx_on w 2) (\<lambda>w. fills w 2)"
    using board_b_uart [of 2] by (simp add: waiting_b_sel)
  have W: "TX_BUF_WORDS K16 < 256" by (simp add: waiting_b_sel)
  have r: "tx_on (uart_irq_tx_enable board_uart (b_uart_dev conf_b) w) 2" for w
    by (simp add: waiting_b_sel)
  have i: "snd (tx_rb waiting_b) = (0, 1, ascii ''SEND:Hi'' @ [0], 2) # []" by (simp add: waiting_b_sel)
  have q: "rxq board0 2 = []" by (simp add: board0_def)
  from timeout_then_interrupt [OF U board_b_kernel board_get W
      quiet_contract [where limit = 0 and subm = id and sent = "\<lambda>w. fills w 2"] r waiting_b_ok i q, of 1 "()"]
  show ?thesis by auto
qed

section \<open>Properties\<close>

text \<open>C3. The interrupt handler of the second driver is a run of the stop-and-wait machine: if each
  line the receiver completes is at most as long as the callback takes (for the program's, the
  send buffer less six bytes), it returns without a fault, the receiver drained and the
  transmit interrupt off, with the callback called once per line in order; it releases the
  guard exactly once per line that starts with OK, queues at most what the callback submits,
  in order, and transmits only by the machine's rule.\<close>

theorem uart_b_int_handler_protocol:
  fixes call :: "('cb, 'rb, 'g, 'w) my_uart_b_call"
  assumes "b_uart_contract U (b_uart_dev conf) rx txr sent" and "b_kernel_contract Z rx sent"
    and "item_get_contract R items" and "TX_BUF_WORDS K < 256"
    and "b_callback_contract call dev (callback d) rx sent items (TX_BUF_WORDS K) limit upd subm"
    and "b_ok K items d" and "lns = frames (line_step (B_RX_BUF_SIZE K)) (rx w) (b_pending d)"
    and "list_all (\<lambda>l. length l \<le> limit) lns"
  shows "\<exists>d' g' w' acts.
     uart_b_int_handler K Z R U call conf (b_uart_dev conf) dev (d, g, w) = Some (Inr (d', g', w')) \<and>
     b_ok K items d' \<and> callback d' = callback d \<and> rx w' = [] \<and> \<not> txr w' \<and>
     b_pending d' = residue (line_step (B_RX_BUF_SIZE K)) (rx w) (b_pending d) \<and> g' = fold upd lns g \<and>
     sw_run (sw_of items sent d w) acts (sw_of items sent d' w') \<and>
     releases acts = ok_lines lns \<and> subseq (submits acts) (map subm lns)"
  using assms(1-5) refl assms(6-8) by (rule uart_b_int_handler_sw)

theorem uart_b_int_handler_protocol_witness:
  "\<exists>d' g' w' acts.
     uart_b_int_handler K16 board_kernel board_ring_items board_uart quiet_call conf_b (b_uart_dev conf_b) 1
       (waiting_b, (), board_rx 2 (ascii ''OK'' @ [LF])) = Some (Inr (d', g', w')) \<and>
     sw_run (sw_of snd (\<lambda>w. fills w 2) waiting_b (board_rx 2 (ascii ''OK'' @ [LF]))) acts
       (sw_of snd (\<lambda>w. fills w 2) d' w') \<and> releases acts = 1"
proof -
  have U: "b_uart_contract board_uart (b_uart_dev conf_b) (\<lambda>w. rxq w 2) (\<lambda>w. tx_on w 2) (\<lambda>w. fills w 2)"
    using board_b_uart [of 2] by (simp add: waiting_b_sel)
  have W: "TX_BUF_WORDS K16 < 256" by (simp add: waiting_b_sel)
  have l: "frames (line_step (B_RX_BUF_SIZE K16)) (rxq (board_rx 2 (ascii ''OK'' @ [LF])) 2) (b_pending waiting_b) =
      [ascii ''OK'' @ [LF]]"
    by (simp add: waiting_b_sel board_rx_def line_step_def is_eol_def ascii_def)
  have k: "list_all (\<lambda>l. length l \<le> 58) [ascii ''OK'' @ [LF]]" by simp
  from uart_b_int_handler_protocol [OF U board_b_kernel board_get W
      quiet_contract [where limit = 58 and subm = id and sent = "\<lambda>w. fills w 2"] waiting_b_ok l [symmetric] k, of 1 "()"]
  show ?thesis by (fastforce simp: is_ok_line_def ascii_def)
qed

text \<open>C1. Stop and wait: over any sequence of interrupts, timer expiries and sends, with lines
  that fit the callback and data that fits the send buffer, the driver puts at most one message
  on the wire more than it has received acknowledgements or seen timeouts, and none more if it
  was already waiting.\<close>

theorem stop_and_wait:
  fixes call :: "('cb, 'rb, 'g, 'w) my_uart_b_call"
  assumes "b_uart_contract U (b_uart_dev conf) rx txr sent" and "b_kernel_contract Z rx sent"
    and "item_get_contract R items" and "item_put_contract R items" and "TX_BUF_WORDS K < 256"
    and "b_callback_contract call dev (callback d) rx sent items (TX_BUF_WORDS K) limit upd subm"
    and "b_ok K items d"
    and "b_trace K Z R U call conf dev rx sent (d, g, w) evs (d', g', w')"
    and "list_all (event_fits K limit) evs"
  shows "length (sent w') + (if sending_guard d' then 0 else 1) \<le>
     length (sent w) + (if sending_guard d then 0 else 1) + sum_list (map event_acks evs)"
proof -
  from b_trace_sw [OF assms] obtain acts where
    "sw_run (sw_of items sent d w) acts (sw_of items sent d' w')"
    "releases acts = sum_list (map event_acks evs)" by blast
  from sw_run_credit [OF this(1)] this(2) show ?thesis
    by (simp add: credit_def sw_of_def)
qed

theorem stop_and_wait_witness:
  "\<exists>d' g' w'. b_trace K16 board_kernel board_ring_items board_uart quiet_call conf_b 1
       (\<lambda>w. rxq w 2) (\<lambda>w. fills w 2) (waiting_b, (), board0) [Timeout, Interrupt []] (d', g', w') \<and>
     length (fills w' 2) \<le> 1"
proof -
  have U: "b_uart_contract board_uart (b_uart_dev conf_b) (\<lambda>w. rxq w 2) (\<lambda>w. tx_on w 2) (\<lambda>w. fills w 2)"
    using board_b_uart [of 2] by (simp add: waiting_b_sel)
  have W: "TX_BUF_WORDS K16 < 256" by (simp add: waiting_b_sel)
  from waiting_b_trace obtain d' g' w' where t: "b_trace K16 board_kernel board_ring_items board_uart quiet_call
      conf_b 1 (\<lambda>w. rxq w 2) (\<lambda>w. fills w 2) (waiting_b, (), board0) [Timeout, Interrupt []] (d', g', w')"
    by blast
  have f: "list_all (event_fits K16 0) [Timeout, Interrupt []]" by simp
  from stop_and_wait [OF U board_b_kernel board_get board_put W
      quiet_contract [where limit = 0 and subm = id and sent = "\<lambda>w. fills w 2"] waiting_b_ok t f] t
  show ?thesis
    by (intro exI [of _ d'] exI [of _ g'] exI [of _ w']) (simp add: waiting_b_sel board0_def)
qed

text \<open>C4. In order and at most once: over any such sequence, with lines and data that fit, the
  messages on the wire followed by those still queued are the ones there at the start followed
  by a subsequence of those submitted.\<close>

theorem messages_in_order:
  fixes call :: "('cb, 'rb, 'g, 'w) my_uart_b_call"
  assumes "b_uart_contract U (b_uart_dev conf) rx txr sent" and "b_kernel_contract Z rx sent"
    and "item_get_contract R items" and "item_put_contract R items" and "TX_BUF_WORDS K < 256"
    and "b_callback_contract call dev (callback d) rx sent items (TX_BUF_WORDS K) limit upd subm"
    and "b_ok K items d"
    and "b_trace K Z R U call conf dev rx sent (d, g, w) evs (d', g', w')"
    and "list_all (event_fits K limit) evs"
  shows "\<exists>ms. subseq ms (concat (map (event_msgs subm) evs)) \<and>
     sent w' @ map item_msg (items (tx_rb d')) = sent w @ map item_msg (items (tx_rb d)) @ ms"
proof -
  from b_trace_sw [OF assms] obtain acts where
    "sw_run (sw_of items sent d w) acts (sw_of items sent d' w')"
    "subseq (submits acts) (concat (map (event_msgs subm) evs))" by blast
  from sw_run_fifo [OF this(1)] this(2) show ?thesis
    by (intro exI [of _ "submits acts"]) (simp add: sw_of_def)
qed

theorem messages_in_order_witness:
  "\<exists>d' g' w'. b_trace K16 board_kernel board_ring_items board_uart quiet_call conf_b 1
       (\<lambda>w. rxq w 2) (\<lambda>w. fills w 2) (waiting_b, (), board0) [Timeout, Interrupt []] (d', g', w') \<and>
     fills w' 2 = [ascii ''SEND:Hi'']"
proof -
  have U: "b_uart_contract board_uart (b_uart_dev conf_b) (\<lambda>w. rxq w 2) (\<lambda>w. tx_on w 2) (\<lambda>w. fills w 2)"
    using board_b_uart [of 2] by (simp add: waiting_b_sel)
  have W: "TX_BUF_WORDS K16 < 256" by (simp add: waiting_b_sel)
  from waiting_b_trace obtain d' g' w' where t: "b_trace K16 board_kernel board_ring_items board_uart quiet_call
      conf_b 1 (\<lambda>w. rxq w 2) (\<lambda>w. fills w 2) (waiting_b, (), board0) [Timeout, Interrupt []] (d', g', w')"
    "snd (tx_rb d') = []"
    by blast
  have f: "list_all (event_fits K16 0) [Timeout, Interrupt []]" by simp
  from messages_in_order [OF U board_b_kernel board_get board_put W
      quiet_contract [where limit = 0 and subm = id and sent = "\<lambda>w. fills w 2"] waiting_b_ok t(1) f] t
  show ?thesis
    by (intro exI [of _ d'] exI [of _ g'] exI [of _ w'])
      (auto simp: waiting_b_sel(2,4) board0_def simp del: item_msg.simps)
qed

text \<open>C30. Sending data of every length, with a ring buffer of \<open>cap\<close> words: data at least six bytes
  shorter than the send buffer is queued with its prefix, and the transmit interrupt enabled,
  exactly when the ring buffer has room for its words and a header; otherwise it is dropped
  without a word. Data five bytes shorter than the buffer makes the ring buffer read one word
  past the send buffer, unless it is too full to take it. Any longer data is copied past the
  send buffer's end. (The send buffer has 2 to 254 words.)\<close>

theorem user_send_data_by_length:
  assumes R: "item_room_contract R items cap" and W: "2 \<le> TX_BUF_WORDS K" "TX_BUF_WORDS K < 255"
    and junk: "length junk = 4 * TX_BUF_WORDS K" and len: "len \<le> length data"
  shows "if len + 6 \<le> 4 * TX_BUF_WORDS K then
       \<exists>rb. (if items_used (items (tx_rb d)) + (len + 5) div 4 + 2 \<le> cap (tx_rb d)
         then my_uart_send_data (api_b K R U) conf junk data len (d, w) =
             Inr (d\<lparr>tx_rb := rb\<rparr>, uart_irq_tx_enable U (b_uart_dev conf) w) \<and>
           map item_msg (items rb) = map item_msg (items (tx_rb d)) @ [ascii ''SEND:'' @ take len data]
         else my_uart_send_data (api_b K R U) conf junk data len (d, w) = Inr (d\<lparr>tx_rb := rb\<rparr>, w) \<and>
           items rb = items (tx_rb d))
     else if len + 5 = 4 * TX_BUF_WORDS K then
       (if items_used (items (tx_rb d)) + TX_BUF_WORDS K + 2 \<le> cap (tx_rb d)
        then my_uart_send_data (api_b K R U) conf junk data len (d, w) = Inl OOB_read
        else \<exists>rb. my_uart_send_data (api_b K R U) conf junk data len (d, w) = Inr (d\<lparr>tx_rb := rb\<rparr>, w) \<and>
          items rb = items (tx_rb d))
     else my_uart_send_data (api_b K R U) conf junk data len (d, w) = Inl OOB_write"
proof -
  have m: "my_uart_send_data (api_b K R U) conf junk data len (d, w) = user_send_data K R U conf junk data len (d, w)"
    by (simp add: my_uart_send_data_def api_b_def)
  consider "len + 6 \<le> 4 * TX_BUF_WORDS K" | "len + 5 = 4 * TX_BUF_WORDS K" | "len + 5 > 4 * TX_BUF_WORDS K"
    by linarith
  then show ?thesis
  proof cases
    case 1
    have W': "TX_BUF_WORDS K < 256" using W(2) by simp
    from user_send_data_room [OF R W' junk len 1, of d U conf w] 1 show ?thesis
      unfolding m by (auto split: if_splits)
  next
    case 2
    from user_send_data_edge [OF W(2) junk len 2, of R d U conf w] obtain ret rb v p n where
      put: "ring_buf_item_put R 0 v p n (tx_rb d) = (ret, rb)" and n: "unat n = TX_BUF_WORDS K + 1" and
      u: "user_send_data K R U conf junk data len (d, w) = (if ret = - EMSGSIZE then Inr (d\<lparr>tx_rb := rb\<rparr>, w) else Inl OOB_read)"
      by blast
    from R put have "if items_used (items (tx_rb d)) + unat n + 1 \<le> cap (tx_rb d) then ret = 0
        else ret = - EMSGSIZE \<and> items rb = items (tx_rb d)"
      unfolding item_room_contract_def by (metis fst_conv snd_conv)
    with 2 u n show ?thesis unfolding m by (auto simp: EMSGSIZE_def split: if_splits)
  next
    case 3
    then have "memcpy 5 data len (ascii ''SEND:'' @ drop 5 junk) = Inl OOB_write"
      using junk len W(1) by (intro memcpy_oob) auto
    then have "build_user_send_data junk (TX_BUF_WORDS K * 4) data len = Inl OOB_write"
      using junk W(1) by (simp add: build_user_send_data_def mem_simps)
    with 3 show ?thesis unfolding m by (simp add: user_send_data_def)
  qed
qed

theorem user_send_data_by_length_witness:
  "my_uart_send_data (api_b K16 board_ring_items board_uart) conf_b (replicate 64 0) (replicate 60 65) 60
     (waiting_b, board0) = Inl OOB_write \<and>
   my_uart_send_data (api_b K16 board_ring_items board_uart) conf_b (replicate 64 0) (replicate 60 65) 59
     (waiting_b, board0) = Inl OOB_read \<and>
   (\<exists>rb. my_uart_send_data (api_b K16 board_ring_items board_uart) conf_b (replicate 64 0) (replicate 60 65) 2
     (waiting_b, board0) = Inr (waiting_b\<lparr>tx_rb := rb\<rparr>, uart_irq_tx_enable board_uart 2 board0) \<and>
     map item_msg (snd rb) = [ascii ''SEND:Hi'', ascii ''SEND:'' @ [65, 65]])"
proof (intro conjI)
  note K = waiting_b_sel(5-7)
  have l: "60 \<le> length (replicate 60 (65 :: u8))" "59 \<le> length (replicate 60 (65 :: u8))" "2 \<le> length (replicate 60 (65 :: u8))"
    "length (replicate 64 (0 :: u8)) = 4 * TX_BUF_WORDS K16" "2 \<le> TX_BUF_WORDS K16" "TX_BUF_WORDS K16 < 255"
    by (simp_all add: K)
  have u: "items_used (snd (tx_rb waiting_b)) = 3" "fst (tx_rb waiting_b) = 128"
    by (simp_all add: waiting_b_sel(2) items_used_def)
  from user_send_data_by_length [OF board_room l(5,6,4,1), of waiting_b board_uart conf_b board0]
  show "my_uart_send_data (api_b K16 board_ring_items board_uart) conf_b (replicate 64 0) (replicate 60 65) 60
     (waiting_b, board0) = Inl OOB_write" by (simp add: K)
  from user_send_data_by_length [OF board_room l(5,6,4,2), of waiting_b board_uart conf_b board0]
  show "my_uart_send_data (api_b K16 board_ring_items board_uart) conf_b (replicate 64 0) (replicate 60 65) 59
     (waiting_b, board0) = Inl OOB_read" by (simp add: K u)
  have t: "take 2 (replicate 60 (65 :: u8)) = [65, 65]" by (simp add: numeral_2_eq_2)
  have m: "map item_msg (snd (tx_rb waiting_b)) = [ascii ''SEND:Hi'']"
    using waiting_b_sel(4) by (simp add: waiting_b_sel(2) del: item_msg.simps)
  from user_send_data_by_length [OF board_room l(5,6,4,3), of waiting_b board_uart conf_b board0, unfolded t m u K]
  show "\<exists>rb. my_uart_send_data (api_b K16 board_ring_items board_uart) conf_b (replicate 64 0) (replicate 60 65) 2
     (waiting_b, board0) = Inr (waiting_b\<lparr>tx_rb := rb\<rparr>, uart_irq_tx_enable board_uart 2 board0) \<and>
     map item_msg (snd rb) = [ascii ''SEND:Hi'', ascii ''SEND:'' @ [65, 65]]"
    by (simp del: item_msg.simps)
qed

end
