(* ===== verification/Main_My_Uart_Peripheral_B.thy ===== *)
theory Main_My_Uart_Peripheral_B
  imports My_Uart_B_System
begin

text \<open>
  The client of the second driver, \<^verbatim>\<open>src/main_my_uart_peripheral_b.c\<close>: every line received
  is sent back through the driver's queue. The kernel and the UART are the driver's; the
  stack array of the send path is an argument, as there.
\<close>

section \<open>Operations\<close>

text \<open>The function the client passes to the driver.\<close>

datatype b_client_fn = App_callback

definition app_send_data ::
    "my_uart_b_kconfig \<Rightarrow> 'rb ring_item_api \<Rightarrow> 'w uart_api \<Rightarrow> my_uart_b_conf \<Rightarrow> u8 list \<Rightarrow> u8 list \<Rightarrow> nat \<Rightarrow>
     (b_client_fn, 'rb) my_uart_b_data \<times> 'w \<Rightarrow> ((b_client_fn, 'rb) my_uart_b_data \<times> 'w) checked" where
  "app_send_data K R U conf junk data len st = my_uart_send_data (api_b K R U) conf junk data len st"

definition app_callback ::
    "my_uart_b_kconfig \<Rightarrow> 'w kernel_api \<Rightarrow> 'rb ring_item_api \<Rightarrow> 'w uart_api \<Rightarrow> my_uart_b_conf \<Rightarrow> u8 list \<Rightarrow>
     dev \<Rightarrow> u8 list \<Rightarrow> nat \<Rightarrow> (b_client_fn, 'rb, unit, 'w) my_uart_b_state \<Rightarrow>
     (b_client_fn, 'rb, unit, 'w) my_uart_b_state checked" where
  "app_callback K Z R U conf junk dev data len st =
     (case st of (d, g, w) \<Rightarrow>
      let w1 = printk Z (ascii ''my_uart_peripheral_b, app_callback, length='' @ fmt_d (int len) @ [LF]) w
      in sbind (app_send_data K R U conf junk data len (d, w1)) (\<lambda>(d2, w2). Inr (d2, g, w2)))"

definition app_call ::
    "my_uart_b_kconfig \<Rightarrow> 'w kernel_api \<Rightarrow> 'rb ring_item_api \<Rightarrow> 'w uart_api \<Rightarrow> my_uart_b_conf \<Rightarrow> u8 list \<Rightarrow>
     (b_client_fn, 'rb, unit, 'w) my_uart_b_call" where
  "app_call K Z R U conf junk f = (case f of App_callback \<Rightarrow> app_callback K Z R U conf junk)"

definition main_my_uart_peripheral_b ::
    "my_uart_b_kconfig \<Rightarrow> 'w kernel_api \<Rightarrow> 'rb ring_item_api \<Rightarrow> 'w uart_api \<Rightarrow> dev \<Rightarrow>
     (b_client_fn, 'rb) my_uart_b_data \<times> 'w \<Rightarrow> (b_client_fn, 'rb) my_uart_b_data \<times> 'w" where
  "main_my_uart_peripheral_b K Z R U dev st =
     (case st of (d, w) \<Rightarrow>
      if \<not> device_is_ready Z dev w then (d, printk Z (ascii ''DEV device not found!'') w)
      else (my_uart_b_set_callback (api_b K R U) (Some App_callback) d, w))"

section \<open>The callback keeps the driver's contract\<close>

text \<open>For lines that fit the send buffer, with the reply it queues.\<close>

definition reply :: "u8 list \<Rightarrow> u8 list" where
  "reply l = ascii ''SEND:'' @ l"

lemma app_callback_contract:
  fixes items :: "'rb \<Rightarrow> ring_item list" and rx :: "'w \<Rightarrow> u8 list"
  assumes U: "b_uart_contract U (b_uart_dev conf) rx txr sent" and Z: "b_kernel_contract Z rx sent"
    and R: "item_put_contract R items" and W: "TX_BUF_WORDS K < 256"
    and junk: "length junk = 4 * TX_BUF_WORDS K" and room: "limit + 6 \<le> 4 * TX_BUF_WORDS K"
  shows "b_callback_contract (app_call K Z R U conf junk) dev (Some App_callback) rx sent items
           (TX_BUF_WORDS K) limit (\<lambda>l g. g) reply"
  unfolding b_callback_contract_def option.case
proof (intro allI impI)
  fix buf :: "u8 list" and len and d :: "(b_client_fn, 'rb) my_uart_b_data" and g :: unit and w :: 'w
  assume a: "0 < len \<and> len \<le> length buf \<and> len \<le> limit \<and> list_all (item_ok (TX_BUF_WORDS K)) (items (tx_rb d))"
  let ?w = "printk Z (ascii ''my_uart_peripheral_b, app_callback, length='' @ fmt_d (int len) @ [LF]) w"
  have pr: "rx ?w = rx w" "sent ?w = sent w"
    using Z unfolding b_kernel_contract_def keeps_def by simp_all
  have en: "rx (uart_irq_tx_enable U (b_uart_dev conf) v) = rx v"
    "sent (uart_irq_tx_enable U (b_uart_dev conf) v) = sent v" for v
    using U unfolding b_uart_contract_def keeps_def by simp_all
  have len: "len \<le> length buf" "len + 6 \<le> 4 * TX_BUF_WORDS K" using a room by linarith+
  from user_send_data_ok [OF R W junk len, of U conf d ?w] obtain rb w' where
    r: "user_send_data K R U conf junk buf len (d, ?w) = Inr (d\<lparr>tx_rb := rb\<rparr>, w')" and
    c: "w' = ?w \<and> items rb = items (tx_rb d) \<or> w' = uart_irq_tx_enable U (b_uart_dev conf) ?w \<and>
      (\<exists>i. items rb = items (tx_rb d) @ [i] \<and> item_ok (TX_BUF_WORDS K) i \<and>
         item_msg i = ascii ''SEND:'' @ take len buf)" by blast
  have "app_call K Z R U conf junk App_callback dev buf len (d, g, w) = Inr (d\<lparr>tx_rb := rb\<rparr>, g, w')"
    using r by (simp add: app_call_def app_callback_def app_send_data_def my_uart_send_data_def api_b_def)
  moreover from c have "rx w' = rx w" "sent w' = sent w" using pr en by auto
  ultimately show "\<exists>rb' w'. app_call K Z R U conf junk App_callback dev buf len (d, g, w) =
        Inr (d\<lparr>tx_rb := rb'\<rparr>, g, w') \<and> rx w' = rx w \<and> sent w' = sent w \<and>
      list_all (item_ok (TX_BUF_WORDS K)) (items rb') \<and>
      (map item_msg (items rb') = map item_msg (items (tx_rb d)) \<or>
       map item_msg (items rb') = map item_msg (items (tx_rb d)) @ [reply (take len buf)])"
    using a c by (intro exI [of _ rb] exI [of _ w']) (auto simp: reply_def)
qed

section \<open>A line the send buffer has no room for\<close>

lemma build_user_send_data_long:
  assumes "length junk = 4 * words" and "2 \<le> words" and "len \<le> length data" and "4 * words < len + 5"
  shows "build_user_send_data junk n data len = Inl OOB_write"
  using assms by (simp add: build_user_send_data_def mem_simps)

lemma end_of_line_long:
  assumes junk: "length junk = 4 * TX_BUF_WORDS K" "2 \<le> TX_BUF_WORDS K"
    and len: "b_rx_data_len d \<le> length (b_rx_buf d)" "4 * TX_BUF_WORDS K < b_rx_data_len d + 5"
  shows "end_of_line K U (app_call K Z R U conf junk) conf dev (Some App_callback) (d, g, w) = Inl OOB_write"
proof -
  have "build_user_send_data junk (TX_BUF_WORDS K * 4) (b_rx_buf d) (b_rx_data_len d) = Inl OOB_write"
    using junk len by (intro build_user_send_data_long) simp_all
  then show ?thesis
    using len(1)
    by (simp add: end_of_line_def check_sending_guard_ok app_call_def app_callback_def app_send_data_def
        my_uart_send_data_def api_b_def user_send_data_def Let_def)
qed

text \<open>What the end of a line does, its receive loop does: nothing before it leaves the loop.\<close>

lemma rx_loop_b_line_fault:
  fixes w :: 'w and d :: "('cb, 'rb) my_uart_b_data" and call :: "('cb, 'rb, 'g, 'w) my_uart_b_call"
  assumes U: "b_uart_contract U uart rx txr sent"
    and wf: "wf_b K d" and cb: "callback d = Some f" and idle: "b_pending d = []"
    and line: "rx w = s @ e # rest" "list_all (\<lambda>c. \<not> is_eol c) s" "is_eol e" and len: "length s < B_RX_BUF_SIZE K"
    and bad: "\<And>D g v. b_rx_data_len D = length s + 1 \<Longrightarrow> length (b_rx_buf D) = B_RX_BUF_SIZE K \<Longrightarrow> tx_rb D = tx_rb d \<Longrightarrow>
      end_of_line K U call conf dev (Some f) (D, g, v) = Inl x"
  shows "rx_loop_b K U call conf uart dev (d, g, w) = Some (Inl x)"
proof -
  let ?P = "\<lambda>xs (D :: ('cb, 'rb) my_uart_b_data, g :: 'g, v :: 'w).
     wf_b K D \<and> callback D = Some f \<and> tx_rb D = tx_rb d \<and> rx v = xs @ e # rest \<and> b_pending D @ xs = s"
  have rr: "rx_ready_contract U uart rx sent" and fr: "fifo_read_contract U uart rx sent"
    using U by (simp_all add: b_uart_contract_def fifo_uart_contract_def)
  have go: "\<exists>w1 w2. (case uart_irq_rx_ready U uart v of (r, w1) \<Rightarrow> (r \<noteq> 0, D, g, w1)) = (True, D, g, w1) \<and>
      uart_fifo_read U uart 1 w1 = (1, [c], w2) \<and> rx w2 = cs" if "rx v = c # cs"
    for D :: "('cb, 'rb) my_uart_b_data" and g :: 'g and v c cs
  proof -
    obtain r w1 where q: "uart_irq_rx_ready U uart v = (r, w1)" by (cases "uart_irq_rx_ready U uart v")
    from rx_ready_contractD [OF rr q] that have r: "r \<noteq> 0" "rx w1 = c # cs" by simp_all
    from fr r(2) obtain w2 where "uart_fifo_read U uart 1 w1 = (1, [c], w2)" "rx w2 = cs"
      by (rule fifo_read_contractD)
    with q r(1) show ?thesis by simp
  qed
  have stored: "rx_char_b K U call conf dev c (D, g, v) =
      (let D' = D\<lparr>b_rx_buf := (b_rx_buf D)[length (b_pending D) := c], b_rx_data_len := length (b_pending D) + 1\<rparr>
       in if is_eol c then end_of_line K U call conf dev (callback D) (D', g, v) else Inr (D', g, v))"
    if "wf_b K D" "is_eol c \<or> length (b_pending D) + 1 \<noteq> B_RX_BUF_SIZE K" for D c g v
  proof -
    have "length (b_pending D) = b_rx_data_len D" using that(1) by (simp add: wf_b_def b_pending_def)
    with that show ?thesis by (auto simp: rx_char_b_def store_ok Let_def wf_b_def is_eol_def)
  qed
  show ?thesis
    unfolding rx_loop_b_def
  proof (rule whileM_fault_after [where P = ?P and xs = s])
    show "?P s (d, g, w)" using wf cb idle line by simp
  next
    fix b xs st
    assume P: "?P (b # xs) st"
    obtain D g1 v where st: "st = (D, g1, v)" by (cases st)
    from P go [of v b "xs @ e # rest" D g1] obtain w2 w3 where
      q: "(case uart_irq_rx_ready U uart v of (r, w1) \<Rightarrow> (r \<noteq> 0, D, g1, w1)) = (True, D, g1, w2)"
      "uart_fifo_read U uart 1 w2 = (1, [b], w3)" "rx w3 = xs @ e # rest" by (auto simp: st)
    let ?D = "D\<lparr>b_rx_buf := (b_rx_buf D)[length (b_pending D) := b], b_rx_data_len := length (b_pending D) + 1\<rparr>"
    have D: "wf_b K D" "b_pending D @ b # xs = s" using P by (simp_all add: st)
    have b: "\<not> is_eol b" "length (b_pending D) + 1 < B_RX_BUF_SIZE K" using D(2) line(2) len by auto
    have n: "length (b_pending D) = b_rx_data_len D" using D(1) by (simp add: wf_b_def b_pending_def)
    have "drop (b_rx_data_len D + 1) ((b_rx_buf D)[b_rx_data_len D := b]) = replicate (B_RX_BUF_SIZE K - (b_rx_data_len D + 1)) 0"
      using D(1) zero_tail_update [of "b_rx_data_len D" "b_rx_buf D" "B_RX_BUF_SIZE K" b] by (simp add: wf_b_def)
    moreover have "b_pending ?D = b_pending D @ [b]"
      unfolding n using D(1) by (simp add: b_pending_def wf_b_def take_Suc_conv_app_nth)
    ultimately have inv: "?P xs (?D, g1, w3)" using P b n q(3) by (simp add: st wf_b_def)
    have "rx_char_b K U call conf dev b (D, g1, w3) = Inr (?D, g1, w3)"
      using stored [OF D(1), of b g1 w3] b by (simp add: Let_def)
    with q(1,2) show "\<exists>s1 s2. (case st of (d, g, w) \<Rightarrow> case uart_irq_rx_ready U uart w of (r, w1) \<Rightarrow> (r \<noteq> 0, d, g, w1)) = (True, s1) \<and>
        (case s1 of (d, g, w) \<Rightarrow> case uart_fifo_read U uart 1 w of (n, bs, w1) \<Rightarrow>
           Some (case bs of [] \<Rightarrow> Inl Uninit_read | c # y \<Rightarrow> rx_char_b K U call conf dev c (d, g, w1))) = Some (Inr s2) \<and> ?P xs s2"
      by (intro exI [of _ "(D, g1, w2)"] exI [of _ "(?D, g1, w3)"]) (use inv in \<open>simp add: st\<close>)
  next
    fix st
    assume P: "?P [] st"
    obtain D g1 v where st: "st = (D, g1, v)" by (cases st)
    from P go [of v e rest D g1] obtain w2 w3 where
      q: "(case uart_irq_rx_ready U uart v of (r, w1) \<Rightarrow> (r \<noteq> 0, D, g1, w1)) = (True, D, g1, w2)"
      "uart_fifo_read U uart 1 w2 = (1, [e], w3)" by (auto simp: st)
    have D: "wf_b K D" "b_pending D = s" "callback D = Some f" "tx_rb D = tx_rb d" using P by (simp_all add: st)
    have "rx_char_b K U call conf dev e (D, g1, w3) = Inl x"
      using stored [OF D(1), of e g1 w3] D line(3) by (simp add: Let_def bad wf_b_def)
    with q show "\<exists>s1. (case st of (d, g, w) \<Rightarrow> case uart_irq_rx_ready U uart w of (r, w1) \<Rightarrow> (r \<noteq> 0, d, g, w1)) = (True, s1) \<and>
        (case s1 of (d, g, w) \<Rightarrow> case uart_fifo_read U uart 1 w of (n, bs, w1) \<Rightarrow>
           Some (case bs of [] \<Rightarrow> Inl Uninit_read | c # y \<Rightarrow> rx_char_b K U call conf dev c (d, g, w1))) = Some (Inl x)"
      by (intro exI [of _ "(D, g1, w2)"]) (simp add: st)
  qed
qed

lemma uart_b_int_handler_line_fault:
  fixes w :: 'w and d :: "('cb, 'rb) my_uart_b_data" and call :: "('cb, 'rb, 'g, 'w) my_uart_b_call"
  assumes U: "b_uart_contract U uart rx txr sent"
    and wf: "wf_b K d" "callback d = Some f" "b_pending d = []"
    and line: "rx w = s @ e # rest" "list_all (\<lambda>c. \<not> is_eol c) s" "is_eol e" "length s < B_RX_BUF_SIZE K"
    and bad: "\<And>D g v. b_rx_data_len D = length s + 1 \<Longrightarrow> length (b_rx_buf D) = B_RX_BUF_SIZE K \<Longrightarrow> tx_rb D = tx_rb d \<Longrightarrow>
      end_of_line K U call conf dev (Some f) (D, g, v) = Inl x"
  shows "uart_b_int_handler K Z R U call conf uart dev (d, g, w) = Some (Inl x)"
proof -
  from irq_guard_run [OF U, of d g w] line(1) obtain w1 where
    g: "irq_guard U uart (d, g, w) = (True, d, g, w1)" "rx w1 = s @ e # rest" by auto
  have "rx_loop_b K U call conf uart dev (d, g, w1) = Some (Inl x)"
    by (rule rx_loop_b_line_fault [OF U wf g(2) line(2-4) bad])
  then have "irq_pass K Z R U call conf uart dev (d, g, w1) = Some (Inl x)" by (simp add: irq_pass_def)
  then show ?thesis unfolding uart_b_int_handler_def by (intro whileM_fault) (rule g(1), assumption)
qed

section \<open>Which lines are answered\<close>

text \<open>
  Of the lines that one interrupt completes those whose reply still finds room: all of them are
  queued before the transmit part takes the first message out, so \<open>used\<close>, the words in use, only
  grows. A reply of \<open>n\<close> bytes takes \<open>n div 4 + 1\<close> words and one for the header.
\<close>

definition reply_words :: "u8 list \<Rightarrow> nat" where
  "reply_words l = (length l + 5) div 4 + 2"

fun answered :: "nat \<Rightarrow> nat \<Rightarrow> u8 list list \<Rightarrow> u8 list list" where
  "answered cap used [] = []"
| "answered cap used (l # lns) =
     (if used + reply_words l \<le> cap then l # answered cap (used + reply_words l) lns else answered cap used lns)"

text \<open>The messages of the driver, on the wire and queued, the words in use, and what a line makes of both.\<close>

definition stock ::
    "('rb \<Rightarrow> ring_item list) \<Rightarrow> ('w \<Rightarrow> u8 list list) \<Rightarrow> ('cb, 'rb) my_uart_b_data \<Rightarrow> 'w \<Rightarrow> u8 list list \<times> nat" where
  "stock items sent d w = (sent w @ map item_msg (items (tx_rb d)), items_used (items (tx_rb d)))"

definition queue_line :: "nat \<Rightarrow> u8 list \<Rightarrow> u8 list list \<times> nat \<Rightarrow> u8 list list \<times> nat" where
  "queue_line cap l st =
     (if snd st + reply_words l \<le> cap then (fst st @ [reply l], snd st + reply_words l) else st)"

lemma fold_queue_line: "fst (fold (queue_line cap) lns (ms, used)) = ms @ map reply (answered cap used lns)"
  by (induction lns arbitrary: ms used) (simp_all add: queue_line_def)

lemma app_call_room:
  fixes items :: "'rb \<Rightarrow> ring_item list" and rx :: "'w \<Rightarrow> u8 list"
  assumes U: "b_uart_contract U (b_uart_dev conf) rx txr sent" and Z: "b_kernel_contract Z rx sent"
    and R: "item_room_contract R items cap" and W: "TX_BUF_WORDS K < 256"
    and junk: "length junk = 4 * TX_BUF_WORDS K" and len: "len \<le> length buf" "len + 6 \<le> 4 * TX_BUF_WORDS K"
  shows "\<exists>rb w'. app_call K Z R U conf junk App_callback dev buf len (d, g, w) = Inr (d\<lparr>tx_rb := rb\<rparr>, g, w') \<and>
     cap rb = cap (tx_rb d) \<and>
     stock items sent (d\<lparr>tx_rb := rb\<rparr>) w' = queue_line (cap (tx_rb d)) (take len buf) (stock items sent d w)"
proof -
  let ?w = "printk Z (ascii ''my_uart_peripheral_b, app_callback, length='' @ fmt_d (int len) @ [LF]) w"
  let ?room = "items_used (items (tx_rb d)) + (len + 5) div 4 + 2 \<le> cap (tx_rb d)"
  have w: "sent ?w = sent w" "sent (uart_irq_tx_enable U (b_uart_dev conf) v) = sent v" for v
    using U Z unfolding b_uart_contract_def b_kernel_contract_def keeps_def by simp_all
  have c: "app_call K Z R U conf junk App_callback dev buf len (d, g, w) =
      sbind (user_send_data K R U conf junk buf len (d, ?w)) (\<lambda>(d2, w2). Inr (d2, g, w2))" for g
    by (simp add: app_call_def app_callback_def app_send_data_def my_uart_send_data_def api_b_def Let_def)
  from user_send_data_room [OF R W junk len, of d U conf ?w] obtain rb where
    rb: "cap rb = cap (tx_rb d)"
    "if ?room then user_send_data K R U conf junk buf len (d, ?w) = Inr (d\<lparr>tx_rb := rb\<rparr>, uart_irq_tx_enable U (b_uart_dev conf) ?w) \<and>
        (\<exists>i. items rb = items (tx_rb d) @ [i] \<and> item_ok (TX_BUF_WORDS K) i \<and> item_msg i = ascii ''SEND:'' @ take len buf) \<and>
        items_used (items rb) = items_used (items (tx_rb d)) + (len + 5) div 4 + 2
     else user_send_data K R U conf junk buf len (d, ?w) = Inr (d\<lparr>tx_rb := rb\<rparr>, ?w) \<and> items rb = items (tx_rb d)"
    by blast
  show ?thesis
  proof (cases ?room)
    case True
    with rb(2) obtain i where i: "items rb = items (tx_rb d) @ [i]" "item_msg i = reply (take len buf)"
      "items_used (items rb) = items_used (items (tx_rb d)) + reply_words (take len buf)"
      and u: "user_send_data K R U conf junk buf len (d, ?w) = Inr (d\<lparr>tx_rb := rb\<rparr>, uart_irq_tx_enable U (b_uart_dev conf) ?w)"
      using len(1) by (auto simp: reply_def reply_words_def)
    have "items_used (items (tx_rb d)) + reply_words (take len buf) \<le> cap (tx_rb d)"
      using True len(1) by (simp add: reply_words_def)
    with i u rb(1) w show ?thesis
      by (intro exI [of _ rb] exI [of _ "uart_irq_tx_enable U (b_uart_dev conf) ?w"]) (simp add: c stock_def queue_line_def)
  next
    case False
    with rb(2) have u: "user_send_data K R U conf junk buf len (d, ?w) = Inr (d\<lparr>tx_rb := rb\<rparr>, ?w)" "items rb = items (tx_rb d)"
      by simp_all
    have "\<not> items_used (items (tx_rb d)) + reply_words (take len buf) \<le> cap (tx_rb d)"
      using False len(1) by (simp add: reply_words_def)
    with u rb(1) w show ?thesis
      by (intro exI [of _ rb] exI [of _ ?w]) (simp add: c stock_def queue_line_def)
  qed
qed

lemma end_of_line_room:
  fixes items :: "'rb \<Rightarrow> ring_item list" and rx :: "'w \<Rightarrow> u8 list"
  assumes U: "b_uart_contract U (b_uart_dev conf) rx txr sent" and Z: "b_kernel_contract Z rx sent"
    and R: "item_room_contract R items cap" and W: "TX_BUF_WORDS K < 256" and junk: "length junk = 4 * TX_BUF_WORDS K"
    and len: "b_rx_data_len d \<le> length (b_rx_buf d)" "b_rx_data_len d + 6 \<le> 4 * TX_BUF_WORDS K"
    and run: "end_of_line K U (app_call K Z R U conf junk) conf dev (Some App_callback) (d, g, w) = Inr (d', g', w')"
  shows "cap (tx_rb d') = cap (tx_rb d) \<and>
     stock items sent d' w' = queue_line (cap (tx_rb d)) (b_pending d) (stock items sent d w)"
proof -
  from run obtain ok where "check_sending_guard (b_rx_buf d) (b_rx_data_len d) = Inr ok"
    by (auto simp: end_of_line_def sbind_eq_Inr)
  moreover define d1 where "d1 = (if ok then d\<lparr>sending_guard := False\<rparr> else d)"
  moreover define w1 where "w1 = (if ok then uart_irq_tx_enable U (b_uart_dev conf) w else w)"
  ultimately obtain d2 g2 w2 where
    c: "app_call K Z R U conf junk App_callback dev (b_rx_buf d1) (b_rx_data_len d1) (d1, g, w1) = Inr (d2, g2, w2)"
    and e: "d' = clear_rx K d2" "w' = w2"
    using run by (auto simp: end_of_line_def sbind_eq_Inr Let_def)
  have en: "sent (uart_irq_tx_enable U (b_uart_dev conf) w) = sent w"
    using U unfolding b_uart_contract_def keeps_def by simp
  have 1: "b_rx_buf d1 = b_rx_buf d" "b_rx_data_len d1 = b_rx_data_len d" "tx_rb d1 = tx_rb d" "stock items sent d1 w1 = stock items sent d w"
    by (simp_all add: d1_def w1_def stock_def en)
  have len1: "b_rx_data_len d1 \<le> length (b_rx_buf d1)" "b_rx_data_len d1 + 6 \<le> 4 * TX_BUF_WORDS K" using len 1 by simp_all
  from app_call_room [OF U Z R W junk len1, of dev d1 g w1] c
  have "cap (tx_rb d2) = cap (tx_rb d1)" "stock items sent d2 w2 = queue_line (cap (tx_rb d1)) (take (b_rx_data_len d1) (b_rx_buf d1)) (stock items sent d1 w1)"
    by auto
  with e 1 show ?thesis by (simp add: b_pending_def stock_def clear_rx_def)
qed

lemma rx_char_b_room:
  fixes items :: "'rb \<Rightarrow> ring_item list" and rx :: "'w \<Rightarrow> u8 list"
  assumes U: "b_uart_contract U (b_uart_dev conf) rx txr sent" and Z: "b_kernel_contract Z rx sent"
    and R: "item_room_contract R items cap" and W: "TX_BUF_WORDS K < 256" and junk: "length junk = 4 * TX_BUF_WORDS K"
    and wf: "wf_b K d" and cb: "callback d = Some App_callback"
    and lim: "list_all (\<lambda>l. length l + 6 \<le> 4 * TX_BUF_WORDS K) (snd (line_step (B_RX_BUF_SIZE K) c (b_pending d)))"
    and run: "rx_char_b K U (app_call K Z R U conf junk) conf dev c (d, g, w) = Inr (d', g', w')"
  shows "cap (tx_rb d') = cap (tx_rb d) \<and> stock items sent d' w' =
     fold (queue_line (cap (tx_rb d))) (snd (line_step (B_RX_BUF_SIZE K) c (b_pending d))) (stock items sent d w)"
proof -
  let ?n = "b_rx_data_len d"
  let ?d = "d\<lparr>b_rx_buf := (b_rx_buf d)[?n := c], b_rx_data_len := Suc ?n\<rparr>"
  from wf have n: "length (b_rx_buf d) = B_RX_BUF_SIZE K" "?n < B_RX_BUF_SIZE K" by (simp_all add: wf_b_def)
  have p: "b_pending ?d = b_pending d @ [c]" "length (b_pending d) = ?n" using n by (simp_all add: b_pending_def take_Suc_conv_app_nth)
  have same: "cap (tx_rb ?d) = cap (tx_rb d)" "stock items sent ?d w = stock items sent d w"
    "tx_rb (clear_rx K ?d) = tx_rb d" "stock items sent (clear_rx K ?d) w = stock items sent d w"
    by (simp_all add: stock_def clear_rx_def)
  show ?thesis
  proof (cases "is_eol c")
    case True
    with run n cb have e: "end_of_line K U (app_call K Z R U conf junk) conf dev (Some App_callback) (?d, g, w) = Inr (d', g', w')"
      by (simp add: rx_char_b_def store_ok is_eol_def Let_def)
    have l: "snd (line_step (B_RX_BUF_SIZE K) c (b_pending d)) = [b_pending ?d]" using True p by (simp add: line_step_simps)
    have "b_rx_data_len ?d \<le> length (b_rx_buf ?d)" "b_rx_data_len ?d + 6 \<le> 4 * TX_BUF_WORDS K"
      using n lim True p(2) by (simp_all add: line_step_simps)
    from end_of_line_room [OF U Z R W junk this e] same l show ?thesis by simp
  next
    case False
    then have l: "snd (line_step (B_RX_BUF_SIZE K) c (b_pending d)) = []" by (simp add: line_step_def)
    from run n False have "(d' = ?d \<or> d' = clear_rx K ?d) \<and> w' = w"
      by (auto simp: rx_char_b_def store_ok is_eol_def Let_def split: if_splits)
    with same l show ?thesis by auto
  qed
qed

lemma rx_loop_b_room:
  fixes items :: "'rb \<Rightarrow> ring_item list" and rx :: "'w \<Rightarrow> u8 list" and d :: "(b_client_fn, 'rb) my_uart_b_data"
  assumes U: "b_uart_contract U (b_uart_dev conf) rx txr sent" and Z: "b_kernel_contract Z rx sent"
    and R: "item_room_contract R items cap" and W: "2 \<le> TX_BUF_WORDS K" "TX_BUF_WORDS K < 256" and junk: "length junk = 4 * TX_BUF_WORDS K"
    and ok: "b_ok K items d" and cb: "callback d = Some App_callback"
    and fits: "list_all (\<lambda>l. length l + 6 \<le> 4 * TX_BUF_WORDS K) (frames (line_step (B_RX_BUF_SIZE K)) (rx w) (b_pending d))"
  shows "\<exists>d' g' w'. rx_loop_b K U (app_call K Z R U conf junk) conf (b_uart_dev conf) dev (d, g, w) = Some (Inr (d', g', w')) \<and>
     b_ok K items d' \<and> callback d' = Some App_callback \<and> rx w' = [] \<and>
     b_pending d' = residue (line_step (B_RX_BUF_SIZE K)) (rx w) (b_pending d) \<and>
     stock items sent d' w' = fold (queue_line (cap (tx_rb d))) (frames (line_step (B_RX_BUF_SIZE K)) (rx w) (b_pending d)) (stock items sent d w)"
proof -
  let ?uart = "b_uart_dev conf" and ?call = "app_call K Z R U conf junk" and ?ls = "line_step (B_RX_BUF_SIZE K)"
  let ?fit = "\<lambda>l :: u8 list. length l + 6 \<le> 4 * TX_BUF_WORDS K"
  let ?P = "\<lambda>(D :: (b_client_fn, 'rb) my_uart_b_data, g :: unit, v :: 'w). b_ok K items D \<and> callback D = Some App_callback \<and>
     cap (tx_rb D) = cap (tx_rb d) \<and> list_all ?fit (frames ?ls (rx v) (b_pending D))"
  let ?inp = "\<lambda>(D :: (b_client_fn, 'rb) my_uart_b_data, g :: unit, v :: 'w). rx v"
  let ?obs = "\<lambda>(D :: (b_client_fn, 'rb) my_uart_b_data, g :: unit, v :: 'w). (b_pending D, stock items sent D v)"
  let ?f = "fpush ?ls (queue_line (cap (tx_rb d)))"
  have rr: "rx_ready_contract U ?uart rx sent" and fr: "fifo_read_contract U ?uart rx sent"
    and en: "keeps (uart_irq_tx_enable U ?uart) (\<lambda>w. (rx w, sent w))"
    using U by (simp_all add: b_uart_contract_def fifo_uart_contract_def)
  have "4 * TX_BUF_WORDS K - 6 + 6 \<le> 4 * TX_BUF_WORDS K" using W(1) by simp
  from app_callback_contract [OF U Z item_room_put [OF R] W(2) junk this]
  have cbc: "b_callback_contract ?call dev (Some App_callback) rx sent items (TX_BUF_WORDS K) (4 * TX_BUF_WORDS K - 6) (\<lambda>l g. g) reply" .
  have "\<exists>s'. rx_loop_b K U ?call conf ?uart dev (d, g, w) = Some (Inr s') \<and> ?P s' \<and> ?inp s' = [] \<and>
      ?obs s' = fold ?f (?inp (d, g, w)) (?obs (d, g, w))"
    unfolding rx_loop_b_def
  proof (rule whileM_drain [where P = ?P and inp = ?inp and obs = ?obs and f = ?f])
    show "?P (d, g, w)" using ok cb fits by simp
  next
    fix s assume P: "?P s" and e: "?inp s = []"
    obtain D g v where s: "s = (D, g, v)" by (cases s)
    obtain r v1 where q: "uart_irq_rx_ready U ?uart v = (r, v1)" by (cases "uart_irq_rx_ready U ?uart v")
    from rx_ready_contractD [OF rr q] s e P show
      "\<exists>s1. (case s of (d, g, w) \<Rightarrow> case uart_irq_rx_ready U ?uart w of (r, w1) \<Rightarrow> (r \<noteq> 0, d, g, w1)) = (False, s1) \<and>
         ?P s1 \<and> ?inp s1 = [] \<and> ?obs s1 = ?obs s"
      by (auto simp: q stock_def)
  next
    fix s b bs assume P: "?P s" and i: "?inp s = b # bs"
    obtain D g v where s: "s = (D, g, v)" by (cases s)
    obtain r v1 where q: "uart_irq_rx_ready U ?uart v = (r, v1)" by (cases "uart_irq_rx_ready U ?uart v")
    from rx_ready_contractD [OF rr q] s i have r: "r \<noteq> 0" and v1: "rx v1 = b # bs" "sent v1 = sent v" by simp_all
    from fr v1(1) obtain v2 where v2: "uart_fifo_read U ?uart 1 v1 = (1, [b], v2)" "rx v2 = bs" "sent v2 = sent v1"
      by (rule fifo_read_contractD)
    from P s have D: "wf_b K D" "list_all (item_ok (TX_BUF_WORDS K)) (items (tx_rb D))" "callback D = Some App_callback"
      "cap (tx_rb D) = cap (tx_rb d)" by (simp_all add: b_ok_def)
    from P s i have fit: "list_all ?fit (snd (?ls b (b_pending D)))" "list_all ?fit (frames ?ls bs (fst (?ls b (b_pending D))))" by simp_all
    have cbc': "b_callback_contract ?call dev (callback D) rx sent items (TX_BUF_WORDS K) (4 * TX_BUF_WORDS K - 6) (\<lambda>l g. g) reply"
      using cbc D(3) by simp
    have lim: "list_all (\<lambda>l. length l \<le> 4 * TX_BUF_WORDS K - 6) (snd (?ls b (b_pending D)))" using fit(1) by (auto simp: list_all_iff)
    from rx_char_b_run [OF cbc' en D(1,2) lim, of g v2] obtain D' g' v' where r':
      "rx_char_b K U ?call conf dev b (D, g, v2) = Inr (D', g', v')" "wf_b K D'" "callback D' = callback D"
      "rx v' = rx v2" "list_all (item_ok (TX_BUF_WORDS K)) (items (tx_rb D'))"
      "(b_pending D', g') = fpush ?ls (\<lambda>l g. g) b (b_pending D, g)" by blast
    from rx_char_b_room [OF U Z R W(2) junk D(1,3) fit(1) r'(1)]
    have st: "cap (tx_rb D') = cap (tx_rb D)" "stock items sent D' v' =
      fold (queue_line (cap (tx_rb D))) (snd (?ls b (b_pending D))) (stock items sent D v2)" by simp_all
    have pend: "b_pending D' = fst (?ls b (b_pending D))" using r'(6) by (simp add: fpush_def)
    have same: "stock items sent D v2 = stock items sent D v" using v1 v2 by (simp add: stock_def)
    show "\<exists>s1 s2. (case s of (d, g, w) \<Rightarrow> case uart_irq_rx_ready U ?uart w of (r, w1) \<Rightarrow> (r \<noteq> 0, d, g, w1)) = (True, s1) \<and>
        (case s1 of (d, g, w) \<Rightarrow> case uart_fifo_read U ?uart 1 w of (n, bs, w1) \<Rightarrow>
          Some (case bs of [] \<Rightarrow> Inl Uninit_read | c # x \<Rightarrow> rx_char_b K U ?call conf dev c (d, g, w1))) = Some (Inr s2) \<and>
        ?P s2 \<and> ?inp s2 = bs \<and> ?obs s2 = ?f b (?obs s)"
      using r r' v2 D st same pend fit(2)
      by (intro exI [of _ "(D, g, v1)"] exI [of _ "(D', g', v')"]) (simp add: s q b_ok_def fpush_def)
  qed
  then show ?thesis by (auto simp: fold_fpush)
qed

text \<open>With nothing received the handler and its passes add no message and lose none.\<close>

lemma uart_b_int_handler_idle:
  fixes call :: "('cb, 'rb, 'g, 'w) my_uart_b_call"
  assumes U: "b_uart_contract U (b_uart_dev conf) rx txr sent" and Z: "b_kernel_contract Z rx sent"
    and G: "item_get_contract R items" and W: "TX_BUF_WORDS K < 256"
    and cbc: "b_callback_contract call dev (callback d) rx sent items (TX_BUF_WORDS K) limit upd subm"
    and ok: "b_ok K items d" and idle: "rx w = []"
    and run: "uart_b_int_handler K Z R U call conf (b_uart_dev conf) dev (d, g, w) = Some (Inr (d', g', w'))"
  shows "sent w' @ map item_msg (items (tx_rb d')) = sent w @ map item_msg (items (tx_rb d))"
proof -
  have l: "[] = frames (line_step (B_RX_BUF_SIZE K)) (rx w) (b_pending d)" using idle by simp
  from uart_b_int_handler_sw [OF U Z G W cbc refl ok l, of g] run obtain acts where
    "sw_run (sw_of items sent d w) acts (sw_of items sent d' w')" "submits acts = []" by auto
  from sw_run_fifo [OF this(1)] this(2) show ?thesis by (simp add: sw_of_def)
qed

lemma tx_part_idle:
  assumes U: "b_uart_contract U uart rx txr sent" and Z: "b_kernel_contract Z rx sent"
    and G: "item_get_contract R items" and W: "TX_BUF_WORDS K < 256" and ok: "b_ok K items d" and idle: "rx w = []"
  shows "\<exists>d' w'. tx_part K Z R U uart dev (d, w) = Inr (d', w') \<and> b_ok K items d' \<and> callback d' = callback d \<and> rx w' = [] \<and>
     sent w' @ map item_msg (items (tx_rb d')) = sent w @ map item_msg (items (tx_rb d))"
proof -
  have "b_inv K rx sent items id (sw_of items sent d w) [] d w"
    using b_inv_start [of K d items rx sent id w] ok idle by (simp add: b_ok_def)
  from tx_part_run [OF U Z G W this, of dev] obtain d' w' where
    t: "tx_part K Z R U uart dev (d, w) = Inr (d', w')" "b_inv K rx sent items id (sw_of items sent d w) [] d' w'"
    "rx w' = rx w" "callback d' = callback d" by blast
  have z: "rx w' = []" using t(3) idle by simp
  from b_inv_done [OF t(2) z] obtain acts where
    a: "sw_run (sw_of items sent d w) acts (sw_of items sent d' w')" "subseq (submits acts) (map id [])" .
  have "b_ok K items d'" using t(2) by (simp add: b_inv_def b_ok_def)
  moreover have "sent w' @ map item_msg (items (tx_rb d')) = sent w @ map item_msg (items (tx_rb d))"
    using sw_run_fifo [OF a(1)] a(2) by (simp add: sw_of_def)
  ultimately show ?thesis using t(1,4) z by blast
qed

text \<open>The handler: the receive loop of its first pass queues the replies.\<close>

lemma uart_b_int_handler_room:
  fixes items :: "'rb \<Rightarrow> ring_item list" and rx :: "'w \<Rightarrow> u8 list" and d :: "(b_client_fn, 'rb) my_uart_b_data"
  assumes U: "b_uart_contract U (b_uart_dev conf) rx txr sent" and Z: "b_kernel_contract Z rx sent"
    and G: "item_get_contract R items" and R: "item_room_contract R items cap"
    and W: "2 \<le> TX_BUF_WORDS K" "TX_BUF_WORDS K < 256" and junk: "length junk = 4 * TX_BUF_WORDS K"
    and ok: "b_ok K items d" and cb: "callback d = Some App_callback"
    and lns: "lns = frames (line_step (B_RX_BUF_SIZE K)) (rx w) (b_pending d)"
    and fits: "list_all (\<lambda>l. length l + 6 \<le> 4 * TX_BUF_WORDS K) lns"
    and run: "uart_b_int_handler K Z R U (app_call K Z R U conf junk) conf (b_uart_dev conf) dev (d, g, w) = Some (Inr (d', g', w'))"
  shows "sent w' @ map item_msg (items (tx_rb d')) = sent w @ map item_msg (items (tx_rb d)) @
     map reply (answered (cap (tx_rb d)) (items_used (items (tx_rb d))) lns)"
proof -
  let ?uart = "b_uart_dev conf" and ?call = "app_call K Z R U conf junk"
  have "4 * TX_BUF_WORDS K - 6 + 6 \<le> 4 * TX_BUF_WORDS K" using W(1) by simp
  from app_callback_contract [OF U Z item_room_put [OF R] W(2) junk this]
  have cbc: "b_callback_contract ?call dev (callback D) rx sent items (TX_BUF_WORDS K) (4 * TX_BUF_WORDS K - 6) (\<lambda>l g. g) reply"
    if "callback D = Some App_callback" for D :: "(b_client_fn, 'rb) my_uart_b_data" using that by simp
  show ?thesis
  proof (cases "rx w = []")
    case True
    with uart_b_int_handler_idle [OF U Z G W(2) cbc [OF cb] ok True run] lns show ?thesis by simp
  next
    case False
    from irq_guard_run [OF U, of d g w] False obtain w1 where
      go: "irq_guard U ?uart (d, g, w) = (True, d, g, w1)" "rx w1 = rx w" "sent w1 = sent w" by auto
    from fits lns go(2) have fits1: "list_all (\<lambda>l. length l + 6 \<le> 4 * TX_BUF_WORDS K) (frames (line_step (B_RX_BUF_SIZE K)) (rx w1) (b_pending d))"
      by simp
    from rx_loop_b_room [OF U Z R W junk ok cb fits1, of dev g] obtain d1 g1 w2 where
      l: "rx_loop_b K U ?call conf ?uart dev (d, g, w1) = Some (Inr (d1, g1, w2))" "b_ok K items d1" "callback d1 = Some App_callback" "rx w2 = []"
      "stock items sent d1 w2 = fold (queue_line (cap (tx_rb d))) lns (stock items sent d w1)"
      unfolding lns go(2) by blast
    have eq: "sent w2 @ map item_msg (items (tx_rb d1)) = sent w @ map item_msg (items (tx_rb d)) @
        map reply (answered (cap (tx_rb d)) (items_used (items (tx_rb d))) lns)"
      using arg_cong [OF l(5), of fst] go(3) by (simp add: stock_def fold_queue_line)
    obtain r w3 where q: "uart_irq_tx_ready U ?uart w2 = (r, w3)" by (cases "uart_irq_tx_ready U ?uart w2")
    have tq: "query_contract (uart_irq_tx_ready U ?uart) rx sent" using U by (simp add: b_uart_contract_def)
    have w3: "rx w3 = []" "sent w3 = sent w2" using query_contractD [OF tq q] l(4) by simp_all
    obtain d2 w4 where p: "irq_pass K Z R U ?call conf ?uart dev (d, g, w1) = Some (Inr (d2, g1, w4))"
      "b_ok K items d2" "callback d2 = Some App_callback" "rx w4 = []"
      "sent w4 @ map item_msg (items (tx_rb d2)) = sent w2 @ map item_msg (items (tx_rb d1))"
    proof (cases "r = 0")
      case True
      with l q w3 show thesis by (intro that [of d1 w3]) (simp_all add: irq_pass_def)
    next
      case False
      with tx_part_idle [OF U Z G W(2) l(2) w3(1), of dev] l q w3(2) that show thesis by (auto simp: irq_pass_def)
    qed
    have "uart_b_int_handler K Z R U ?call conf ?uart dev (d, g, w) = uart_b_int_handler K Z R U ?call conf ?uart dev (d2, g1, w4)"
      unfolding uart_b_int_handler_def by (rule whileM_step) (rule go(1), rule p(1))
    with run have "uart_b_int_handler K Z R U ?call conf ?uart dev (d2, g1, w4) = Some (Inr (d', g', w'))" by simp
    from uart_b_int_handler_idle [OF U Z G W(2) cbc [OF p(3)] p(2,4) this] show ?thesis unfolding p(5) eq .
  qed
qed

section \<open>Properties\<close>

text \<open>C12. What the program answers, exactly: with its callback registered, an interrupt that delivers
  lines of at most the send buffer's size less six bytes returns without a fault, the receiver
  drained, and the messages on the wire and in the queue grow by the replies to the lines (each
  line with its terminator behind SEND:), in order, all of them but those for which the ring
  buffer, of \<open>cap\<close> words, has no room at their turn. At most one more message than there are
  acknowledgements among the lines goes on the wire.\<close>

theorem lines_answered:
  assumes U: "b_uart_contract U (b_uart_dev conf) rx txr sent" and Z: "b_kernel_contract Z rx sent"
    and R: "item_get_contract R items" "item_room_contract R items cap"
    and W: "2 \<le> TX_BUF_WORDS K" "TX_BUF_WORDS K < 256"
    and junk: "length junk = 4 * TX_BUF_WORDS K" and ok: "b_ok K items d0" and ready: "device_is_ready Z dev w0"
    and main: "main_my_uart_peripheral_b K Z R U dev (d0, w0) = (d, w1)"
    and lns: "lns = frames (line_step (B_RX_BUF_SIZE K)) (rx w) (b_pending d)"
    and fits: "list_all (\<lambda>l. length l + 6 \<le> 4 * TX_BUF_WORDS K) lns"
  shows "\<exists>d' g' w'.
     uart_b_int_handler K Z R U (app_call K Z R U conf junk) conf (b_uart_dev conf) dev (d, g, w) =
       Some (Inr (d', g', w')) \<and> b_ok K items d' \<and> rx w' = [] \<and>
     sent w' @ map item_msg (items (tx_rb d')) = sent w @ map item_msg (items (tx_rb d)) @
       map (\<lambda>l. ascii ''SEND:'' @ l) (answered (cap (tx_rb d)) (items_used (items (tx_rb d))) lns) \<and>
     length (sent w') \<le> length (sent w) + ok_lines lns + 1"
proof -
  let ?limit = "4 * TX_BUF_WORDS K - 6"
  from main ready have d: "d = d0\<lparr>callback := Some App_callback\<rparr>"
    by (simp add: main_my_uart_peripheral_b_def my_uart_b_set_callback_def api_b_def user_set_callback_def)
  with ok have ok': "b_ok K items d" by (simp add: b_ok_def wf_b_def b_pending_def)
  have lim: "list_all (\<lambda>l. length l \<le> ?limit) lns" using fits by (auto simp: list_all_iff)
  have "?limit + 6 \<le> 4 * TX_BUF_WORDS K" using W(1) by simp
  from app_callback_contract [OF U Z item_room_put [OF R(2)] W(2) junk this, of dev] have
    cbc: "b_callback_contract (app_call K Z R U conf junk) dev (callback d) rx sent items (TX_BUF_WORDS K)
      ?limit (\<lambda>l g. g) reply" by (simp add: d)
  from uart_b_int_handler_sw [OF U Z R(1) W(2) cbc refl ok' lns lim, of g] obtain d' g' w' acts where
    r: "uart_b_int_handler K Z R U (app_call K Z R U conf junk) conf (b_uart_dev conf) dev (d, g, w) =
      Some (Inr (d', g', w'))" "b_ok K items d'" "rx w' = []"
    "sw_run (sw_of items sent d w) acts (sw_of items sent d' w')" "releases acts = ok_lines lns" by blast
  have cb: "callback d = Some App_callback" by (simp add: d)
  have "reply = (\<lambda>l. ascii ''SEND:'' @ l)" by (simp add: reply_def fun_eq_iff)
  with r uart_b_int_handler_room [OF U Z R W junk ok' cb lns fits r(1)] sw_run_credit [OF r(4)] show ?thesis
    by (intro exI [of _ d'] exI [of _ g'] exI [of _ w']) (simp add: sw_of_def credit_def split: if_splits)
qed

text \<open>C28. A line can overflow the send path's stack array: with the default sizes (a receive
  buffer of 64 bytes and a send buffer of 16 words) any line whose bytes before the
  terminator number 59 to 63 makes the interrupt handler write past it.\<close>

theorem long_line_overflows_stack:
  assumes "b_uart_contract U (b_uart_dev conf) rx txr sent"
    and "wf_b K d" and "callback d = Some App_callback" and "b_pending d = []"
    and "length junk = 4 * TX_BUF_WORDS K" and "2 \<le> TX_BUF_WORDS K"
    and "rx w = s @ e # rest" and "list_all (\<lambda>c. \<not> is_eol c) s" and "is_eol e"
    and "length s < B_RX_BUF_SIZE K" and "4 * TX_BUF_WORDS K < length s + 6"
  shows "uart_b_int_handler K Z R U (app_call K Z R U conf junk) conf (b_uart_dev conf) dev (d, g, w) =
     Some (Inl OOB_write)"
proof (rule uart_b_int_handler_line_fault [OF assms(1-4,7-10)])
  fix D :: "(b_client_fn, 'b) my_uart_b_data" and g v
  assume "b_rx_data_len D = length s + 1" "length (b_rx_buf D) = B_RX_BUF_SIZE K"
  with assms(10,11) show "end_of_line K U (app_call K Z R U conf junk) conf dev (Some App_callback) (D, g, v) = Inl OOB_write"
    by (intro end_of_line_long [OF assms(5,6)]) linarith+
qed

definition client_b :: "(b_client_fn, board_items) my_uart_b_data" where
  "client_b = (my_uart_b_data_init K16 (128, []))\<lparr>callback := Some App_callback\<rparr>"

lemma client_b_sel:
  "wf_b K16 client_b" "callback client_b = Some App_callback" "b_pending client_b = []"
  "snd (tx_rb client_b) = []" "b_ok K16 snd client_b"
  by (simp_all add: client_b_def my_uart_b_data_init_def wf_b_def b_ok_def b_pending_def K16_def)

lemma board_b_uart_conf:
  "b_uart_contract board_uart (b_uart_dev conf_b) (\<lambda>w. rxq w 2) (\<lambda>w. tx_on w 2) (\<lambda>w. fills w 2)"
  using board_b_uart [of 2] by (simp add: conf_b_def)

theorem lines_answered_witness:
  "\<exists>d' g' w'.
     uart_b_int_handler K16 board_kernel board_ring_items board_uart
       (app_call K16 board_kernel board_ring_items board_uart conf_b (replicate 64 0)) conf_b (b_uart_dev conf_b) 1
       (client_b\<lparr>tx_rb := (5, [])\<rparr>, (), board_rx 2 [72, 105, LF, 72, 111, LF]) = Some (Inr (d', g', w')) \<and>
     fills w' 2 @ map item_msg (snd (tx_rb d')) = [ascii ''SEND:'' @ [72, 105, LF]]"
proof -
  let ?d = "client_b\<lparr>tx_rb := (5, [])\<rparr>"
  have m: "main_my_uart_peripheral_b K16 board_kernel board_ring_items board_uart 1 (?d, board0) = (?d, board0)"
    by (simp add: main_my_uart_peripheral_b_def my_uart_b_set_callback_def api_b_def user_set_callback_def
        board0_def client_b_def)
  have p: "b_pending ?d = []" using client_b_sel(3) by (simp add: b_pending_def)
  have l: "[[72, 105, LF], [72, 111, LF]] = frames (line_step (B_RX_BUF_SIZE K16)) (rxq (board_rx 2 [72, 105, LF, 72, 111, LF]) 2) (b_pending ?d)"
    by (simp add: p K16_def board_rx_def line_step_def is_eol_def)
  have W: "2 \<le> TX_BUF_WORDS K16" "TX_BUF_WORDS K16 < 256" "length (replicate 64 (0 :: u8)) = 4 * TX_BUF_WORDS K16"
    and f: "list_all (\<lambda>l. length l + 6 \<le> 4 * TX_BUF_WORDS K16) [[72, 105, LF :: u8], [72, 111, LF]]"
    and r: "device_is_ready board_kernel 1 board0"
    by (simp_all add: K16_def board0_def)
  have ok: "b_ok K16 snd ?d" using client_b_sel(5) by (simp add: b_ok_def wf_b_def b_pending_def)
  from lines_answered [OF board_b_uart_conf board_b_kernel board_get board_room W ok r m l f, of "()"]
  show ?thesis by (auto simp: reply_words_def board_rx_def board0_def)
qed

theorem long_line_overflows_stack_witness:
  "uart_b_int_handler K16 board_kernel board_ring_items board_uart
     (app_call K16 board_kernel board_ring_items board_uart conf_b (replicate 64 0)) conf_b (b_uart_dev conf_b) 1
     (client_b, (), board_rx 2 (replicate 59 65 @ [LF])) = Some (Inl OOB_write)"
  by (rule long_line_overflows_stack [OF board_b_uart_conf client_b_sel(1-3),
      where s = "replicate 59 65" and e = LF and rest = "[]"])
    (simp_all add: board_rx_def K16_def is_eol_def list_all_iff)

end
