(* ===== verification/Relay.thy ===== *)
theory Relay
  imports Board "HOL-Library.Sublist"
begin

text \<open>
  What the two USB serial programs share: byte ring buffers, a UART both of whose directions
  are driven from one handler, and the transmit half of that handler.
\<close>

section \<open>Ring buffers\<close>

text \<open>The documented behaviour: a put stores what there is room for, a get takes what there is.\<close>

definition ring_contract :: "'rb ring_api \<Rightarrow> ('rb \<Rightarrow> u8 list) \<Rightarrow> nat \<Rightarrow> bool" where
  [contract_defs]: "ring_contract R content cap \<longleftrightarrow>
     (\<forall>bs rb. fst (ring_buf_put R bs rb) = min (length bs) (cap - length (content rb)) \<and>
        content (snd (ring_buf_put R bs rb)) = content rb @ take (cap - length (content rb)) bs) \<and>
     (\<forall>n rb. fst (ring_buf_get R n rb) = take n (content rb) \<and>
        content (snd (ring_buf_get R n rb)) = drop n (content rb))"

text \<open>Filling up in two goes.\<close>

lemma take_take_append: "take n (take n xs @ ys) = take n (xs @ ys)"
  by (simp add: min_def)

section \<open>The UART\<close>

text \<open>
  \<open>lossless\<close> says that \<open>uart_fifo_fill\<close> always takes the whole chunk it is given; without it
  the call may take any part of the front of it.
\<close>

definition relay_contract ::
    "'w uart_api \<Rightarrow> dev \<Rightarrow> bool \<Rightarrow> ('w \<Rightarrow> u8 list) \<Rightarrow> ('w \<Rightarrow> bool) \<Rightarrow> ('w \<Rightarrow> u8 list) \<Rightarrow> bool" where
  [contract_defs]: "relay_contract U d lossless rx txr tx \<longleftrightarrow>
     (\<forall>w. fst (uart_irq_update U d w) \<noteq> 0) \<and>
     keeps (\<lambda>w. snd (uart_irq_update U d w)) (\<lambda>w. (rx w, txr w, tx w)) \<and>
     (\<forall>w. fst (uart_irq_is_pending U d w) \<noteq> 0 \<longleftrightarrow> rx w \<noteq> [] \<or> txr w) \<and>
     keeps (\<lambda>w. snd (uart_irq_is_pending U d w)) (\<lambda>w. (rx w, txr w, tx w)) \<and>
     (\<forall>w. fst (uart_irq_rx_ready U d w) \<noteq> 0 \<longleftrightarrow> rx w \<noteq> []) \<and>
     keeps (\<lambda>w. snd (uart_irq_rx_ready U d w)) (\<lambda>w. (rx w, txr w, tx w)) \<and>
     (\<forall>w. fst (uart_irq_tx_ready U d w) \<noteq> 0 \<longleftrightarrow> txr w) \<and>
     keeps (\<lambda>w. snd (uart_irq_tx_ready U d w)) (\<lambda>w. (rx w, txr w, tx w)) \<and>
     (\<forall>n w. 0 < n \<and> rx w \<noteq> [] \<longrightarrow> (\<exists>k w'. 0 < k \<and> k \<le> n \<and> k \<le> length (rx w) \<and>
        uart_fifo_read U d n w = (int k, take k (rx w), w') \<and>
        rx w' = drop k (rx w) \<and> txr w' = txr w \<and> tx w' = tx w)) \<and>
     keeps (uart_irq_tx_enable U d) (\<lambda>w. (rx w, tx w)) \<and>
     keeps (uart_irq_tx_disable U d) (\<lambda>w. (rx w, tx w)) \<and>
     (\<forall>w. \<not> txr (uart_irq_tx_disable U d w)) \<and>
     (\<forall>bs w. \<exists>k \<le> length bs. rx (snd (uart_fifo_fill U d bs w)) = rx w \<and>
        tx (snd (uart_fifo_fill U d bs w)) = tx w @ take k bs \<and> (lossless \<longrightarrow> k = length bs))"

lemma relay_queries:
  assumes "relay_contract U d lossless rx txr tx"
  shows "fst (uart_irq_update U d w) \<noteq> 0"
    and "fst (uart_irq_is_pending U d w) \<noteq> 0 \<longleftrightarrow> rx w \<noteq> [] \<or> txr w"
    and "fst (uart_irq_rx_ready U d w) \<noteq> 0 \<longleftrightarrow> rx w \<noteq> []"
    and "fst (uart_irq_tx_ready U d w) \<noteq> 0 \<longleftrightarrow> txr w"
  using assms unfolding relay_contract_def by blast+

lemma relay_keeps:
  assumes "relay_contract U d lossless rx txr tx"
  shows "rx (snd (uart_irq_update U d w)) = rx w" "txr (snd (uart_irq_update U d w)) = txr w"
    "tx (snd (uart_irq_update U d w)) = tx w"
    "rx (snd (uart_irq_is_pending U d w)) = rx w" "txr (snd (uart_irq_is_pending U d w)) = txr w"
    "tx (snd (uart_irq_is_pending U d w)) = tx w"
    "rx (snd (uart_irq_rx_ready U d w)) = rx w" "txr (snd (uart_irq_rx_ready U d w)) = txr w"
    "tx (snd (uart_irq_rx_ready U d w)) = tx w"
    "rx (snd (uart_irq_tx_ready U d w)) = rx w" "txr (snd (uart_irq_tx_ready U d w)) = txr w"
    "tx (snd (uart_irq_tx_ready U d w)) = tx w"
    "rx (uart_irq_tx_enable U d w) = rx w" "tx (uart_irq_tx_enable U d w) = tx w"
    "rx (uart_irq_tx_disable U d w) = rx w" "tx (uart_irq_tx_disable U d w) = tx w"
    "\<not> txr (uart_irq_tx_disable U d w)"
  using assms unfolding relay_contract_def keeps_def by simp_all

lemma relay_read:
  assumes "relay_contract U d lossless rx txr tx" and "0 < n" and "rx w \<noteq> []"
  shows "\<exists>k w'. 0 < k \<and> k \<le> n \<and> k \<le> length (rx w) \<and> uart_fifo_read U d n w = (int k, take k (rx w), w') \<and>
    rx w' = drop k (rx w) \<and> txr w' = txr w \<and> tx w' = tx w"
  using assms unfolding relay_contract_def by blast

lemma relay_fill:
  assumes "relay_contract U d lossless rx txr tx"
  obtains k where "k \<le> length bs" "rx (snd (uart_fifo_fill U d bs w)) = rx w"
    "tx (snd (uart_fifo_fill U d bs w)) = tx w @ take k bs" "lossless \<Longrightarrow> k = length bs"
  using assms unfolding relay_contract_def by blast

text \<open>The guard of both handlers' loop.\<close>

definition pending_guard :: "'w uart_api \<Rightarrow> dev \<Rightarrow> 's \<times> 'w \<Rightarrow> bool \<times> 's \<times> 'w" where
  "pending_guard U d st =
     (case st of (s, w) \<Rightarrow>
      case uart_irq_update U d w of (r, w1) \<Rightarrow>
        if r = 0 then (False, s, w1)
        else case uart_irq_is_pending U d w1 of (p, w2) \<Rightarrow> (p \<noteq> 0, s, w2))"

lemma pending_guard_run:
  assumes "relay_contract U d lossless rx txr tx"
  shows "\<exists>w'. pending_guard U d (s, w) = (rx w \<noteq> [] \<or> txr w, s, w') \<and>
     rx w' = rx w \<and> txr w' = txr w \<and> tx w' = tx w"
  using relay_queries(1) [OF assms, of w] relay_queries(2) [OF assms, of "snd (uart_irq_update U d w)"]
    relay_keeps [OF assms, of w] relay_keeps(4-6) [OF assms, of "snd (uart_irq_update U d w)"]
  by (auto simp: pending_guard_def split: prod.splits)

section \<open>Sending a chunk\<close>

text \<open>
  Take up to \<open>n\<close> bytes out of the ring buffer and hand them to the UART, or turn the transmit
  interrupt off if there are none. What \<open>uart_fifo_fill\<close> answers is only logged.
\<close>

definition tx_chunk :: "nat \<Rightarrow> 'rb ring_api \<Rightarrow> 'w uart_api \<Rightarrow> dev \<Rightarrow> 'rb \<times> 'w \<Rightarrow> 'rb \<times> 'w" where
  "tx_chunk n R U d st =
     (case st of (rb, w) \<Rightarrow>
      case ring_buf_get R n rb of (bs, rb1) \<Rightarrow>
        if length bs = 0 then (rb1, uart_irq_tx_disable U d w)
        else (rb1, snd (uart_fifo_fill U d bs w)))"

lemma tx_chunk_run:
  assumes U: "relay_contract U d lossless rx txr tx" and R: "ring_contract R content cap" and n: "0 < n"
  shows "\<exists>rb' w' sent. tx_chunk n R U d (rb, w) = (rb', w') \<and> rx w' = rx w \<and> tx w' = tx w @ sent \<and>
     subseq (sent @ content rb') (content rb) \<and> (lossless \<longrightarrow> sent @ content rb' = content rb) \<and>
     (if content rb = [] then content rb' = [] \<and> \<not> txr w' else length (content rb') < length (content rb))"
proof -
  obtain bs rb' where g: "ring_buf_get R n rb = (bs, rb')" by (cases "ring_buf_get R n rb")
  with R have bs: "bs = take n (content rb)" "content rb' = drop n (content rb)"
    unfolding ring_contract_def by (metis fst_conv, metis snd_conv)
  show ?thesis
  proof (cases "content rb = []")
    case True
    with g bs relay_keeps [OF U] show ?thesis
      by (intro exI [of _ rb'] exI [of _ "uart_irq_tx_disable U d w"] exI [of _ "[]"]) (simp add: tx_chunk_def)
  next
    case False
    with bs n have "bs \<noteq> []" by simp
    obtain k where k: "k \<le> length bs" "rx (snd (uart_fifo_fill U d bs w)) = rx w"
      "tx (snd (uart_fifo_fill U d bs w)) = tx w @ take k bs" "lossless \<Longrightarrow> k = length bs"
      using relay_fill [OF U] by blast
    have "subseq (take k bs @ content rb') (bs @ content rb')"
      by (intro list_emb_append_mono prefix_imp_subseq take_is_prefix) simp
    then have "subseq (take k bs @ content rb') (content rb)" using bs by simp
    moreover have "take k bs = bs" if lossless using k(4) that by simp
    then have "lossless \<longrightarrow> take k bs @ content rb' = content rb" using bs by simp
    ultimately show ?thesis
      using g bs k False n \<open>bs \<noteq> []\<close>
      by (intro exI [of _ rb'] exI [of _ "snd (uart_fifo_fill U d bs w)"] exI [of _ "take k bs"])
        (auto simp: tx_chunk_def)
  qed
qed

section \<open>The concrete world\<close>

lemma board_relay: "relay_contract board_uart d True (\<lambda>w. rxq w d) (\<lambda>w. tx_on w d) (\<lambda>w. txq w d)"
proof -
  have "\<exists>k w'. 0 < k \<and> k \<le> n \<and> k \<le> length (rxq w d) \<and>
      uart_fifo_read board_uart d n w = (int k, take k (rxq w d), w') \<and>
      rxq w' d = drop k (rxq w d) \<and> tx_on w' d = tx_on w d \<and> txq w' d = txq w d"
    if "0 < n" "rxq w d \<noteq> []" for n w
    using that by (intro exI [of _ "min n (length (rxq w d))"]) (auto simp: board_uart_def min_def)
  then show ?thesis
    unfolding relay_contract_def by (auto simp: keeps_def)
qed

lemma board_ring_contract: "ring_contract (board_ring cap) id cap"
  by (simp add: ring_contract_def board_ring_def)

end
