(* ===== verification/Cdc_Acm.thy ===== *)
theory Cdc_Acm
  imports Relay Traces
begin

text \<open>
  The USB serial port that echoes, \<^verbatim>\<open>src/main_cdc_acm.c\<close>: its interrupt handler moves
  bytes through a ring buffer, and a timer and a work item wait for the host to open the
  port before the handler is installed.
\<close>

section \<open>Operations\<close>

definition CDC_RING_BUF_SIZE :: nat where "CDC_RING_BUF_SIZE = 256"

definition send_cdc_acm ::
    "'rb ring_api \<Rightarrow> 'w uart_api \<Rightarrow> dev \<Rightarrow> u8 list \<Rightarrow> nat \<Rightarrow> 'rb \<times> 'w \<Rightarrow> ('rb \<times> 'w) checked" where
  "send_cdc_acm R U dev data len st =
     (case st of (rb, w) \<Rightarrow>
      sbind (mem_get 0 len data) (\<lambda>bs.
      case ring_buf_put R bs rb of (wrote, rb1) \<Rightarrow>
        Inr (rb1, if wrote \<noteq> 0 then uart_irq_tx_enable U dev w else w)))"

definition cdc_rx_loop :: "'rb ring_api \<Rightarrow> 'w uart_api \<Rightarrow> dev \<Rightarrow> 'rb \<times> 'w \<Rightarrow> ('rb \<times> 'w) outcome" where
  "cdc_rx_loop R U dev =
     whileM
       (\<lambda>(rb, w). case uart_irq_rx_ready U dev w of (r, w1) \<Rightarrow> (r \<noteq> 0, rb, w1))
       (\<lambda>(rb, w). case uart_fifo_read U dev 1 w of (n, bs, w1) \<Rightarrow>
          Some (case bs of [] \<Rightarrow> Inl Uninit_read | c # _ \<Rightarrow> send_cdc_acm R U dev [c] 1 (rb, w1)))"

definition cdc_pass :: "'rb ring_api \<Rightarrow> 'w uart_api \<Rightarrow> dev \<Rightarrow> 'rb \<times> 'w \<Rightarrow> ('rb \<times> 'w) outcome" where
  "cdc_pass R U dev st =
     obind (cdc_rx_loop R U dev st) (\<lambda>(rb, w).
       case uart_irq_tx_ready U dev w of (r, w1) \<Rightarrow>
         Some (Inr (if r \<noteq> 0 then tx_chunk 16 R U dev (rb, w1) else (rb, w1))))"

definition cdc_interrupt_handler ::
    "'rb ring_api \<Rightarrow> 'w uart_api \<Rightarrow> dev \<Rightarrow> 'rb \<times> 'w \<Rightarrow> ('rb \<times> 'w) outcome" where
  "cdc_interrupt_handler R U dev = whileM (pending_guard U dev) (cdc_pass R U dev)"

text \<open>Both answers are only logged.\<close>

definition cdc_uart_line_set :: "'w uart_api \<Rightarrow> dev \<Rightarrow> 'w \<Rightarrow> 'w" where
  "cdc_uart_line_set U dev w =
     (let w1 = snd (uart_line_ctrl_set U dev UART_LINE_CTRL_DCD 1 w)
      in snd (uart_line_ctrl_set U dev UART_LINE_CTRL_DSR 1 w1))"

definition my_work_handler :: "'w kernel_api \<Rightarrow> 'w uart_api \<Rightarrow> dev \<Rightarrow> 'w \<Rightarrow> 'w" where
  "my_work_handler Z U dev w =
     (case uart_line_ctrl_get U dev UART_LINE_CTRL_DTR w of (r, v, w1) \<Rightarrow>
      let dtr = (case v of None \<Rightarrow> 0 | Some x \<Rightarrow> x)
      in if dtr = 0 then k_timer_start Z My_timer 100 0 w1
         else
           let w2 = cdc_uart_line_set U dev w1;
               w3 = uart_irq_callback_user_data_set U dev Cdc_acm_interrupt_handler NULL_ptr w2
           in uart_irq_rx_enable U dev w3)"

definition my_timer_handler :: "'w kernel_api \<Rightarrow> 'w \<Rightarrow> 'w" where
  "my_timer_handler Z w = k_work_submit Z My_work w"

definition main_cdc_acm :: "'w kernel_api \<Rightarrow> 'rb ring_api \<Rightarrow> dev \<Rightarrow> 'rb \<times> 'w \<Rightarrow> 'rb \<times> 'w" where
  "main_cdc_acm Z R dev st =
     (case st of (rb, w) \<Rightarrow>
      if \<not> device_is_ready Z dev w then (rb, w)
      else case usb_enable Z w of (ret, w1) \<Rightarrow>
        if ret \<noteq> 0 then (rb, w1)
        else
          let rb1 = ring_buf_init R CDC_RING_BUF_SIZE;
              w2 = k_timer_init Z My_timer My_timer_handler w1;
              w3 = k_work_init Z My_work My_work_handler w2
          in (rb1, k_timer_start Z My_timer 100 0 w3))"

section \<open>The handler\<close>

lemma fold_take_snoc:
  "length q \<le> cap \<Longrightarrow> fold (\<lambda>c q. take cap (q @ [c])) cs q = take cap (q @ cs)"
proof (induction cs arbitrary: q)
  case Nil
  then show ?case by simp
next
  case (Cons c cs)
  have "fold (\<lambda>c q. take cap (q @ [c])) (c # cs) q = take cap (take cap (q @ [c]) @ cs)"
    using Cons.IH [of "take cap (q @ [c])"] by simp
  also have "\<dots> = take cap ((q @ [c]) @ cs)" by (rule take_take_append)
  finally show ?case by simp
qed

lemma send_cdc_acm_byte:
  assumes U: "relay_contract U dev lossless rx txr tx" and R: "ring_contract R content cap"
    and le: "length (content rb) \<le> cap"
  shows "\<exists>rb' w'. send_cdc_acm R U dev [c] 1 (rb, w) = Inr (rb', w') \<and>
     rx w' = rx w \<and> tx w' = tx w \<and> content rb' = take cap (content rb @ [c]) \<and>
     (w' = w \<and> content rb' = content rb \<or> w' = uart_irq_tx_enable U dev w)"
proof -
  obtain wrote rb' where p: "ring_buf_put R [c] rb = (wrote, rb')" by (cases "ring_buf_put R [c] rb")
  with R have "wrote = min 1 (cap - length (content rb))"
    and c: "content rb' = content rb @ take (cap - length (content rb)) [c]"
    unfolding ring_contract_def by (metis fst_conv length_Cons list.size(3) One_nat_def, metis snd_conv)
  then have "wrote = 0 \<longrightarrow> content rb' = content rb" by auto
  with p c le relay_keeps [OF U] show ?thesis
    by (cases "wrote = 0") (auto simp: send_cdc_acm_def mem_get_ok)
qed

text \<open>The transmit interrupt, once on, stays on until it is turned off, and turning it on works.\<close>

definition eager_contract :: "'w uart_api \<Rightarrow> dev \<Rightarrow> ('w \<Rightarrow> bool) \<Rightarrow> bool" where
  [contract_defs]: "eager_contract U d txr \<longleftrightarrow>
     (\<forall>w. txr (uart_irq_tx_enable U d w)) \<and> (\<forall>bs w. txr w \<longrightarrow> txr (snd (uart_fifo_fill U d bs w)))"

text \<open>Nothing waits in the ring buffer with the interrupt off.\<close>

definition no_stall :: "('rb \<Rightarrow> u8 list) \<Rightarrow> ('w \<Rightarrow> bool) \<Rightarrow> 'rb \<times> 'w \<Rightarrow> bool" where
  "no_stall content txr st \<longleftrightarrow> (content (fst st) \<noteq> [] \<longrightarrow> txr (snd st))"

lemma cdc_rx_loop_run:
  fixes rx :: "'w \<Rightarrow> u8 list" and content :: "'rb \<Rightarrow> u8 list"
  assumes U: "relay_contract U dev lossless rx txr tx" and R: "ring_contract R content cap"
    and le: "length (content rb) \<le> cap"
  shows "\<exists>rb' w'. cdc_rx_loop R U dev (rb, w) = Some (Inr (rb', w')) \<and> rx w' = [] \<and> tx w' = tx w \<and>
     content rb' = take cap (content rb @ rx w) \<and> (rx w = [] \<longrightarrow> txr w' = txr w) \<and>
     (eager_contract U dev txr \<and> no_stall content txr (rb, w) \<longrightarrow> no_stall content txr (rb', w'))"
proof -
  let ?P = "\<lambda>(b :: 'rb, v :: 'w). length (content b) \<le> cap \<and> tx v = tx w \<and> (rx w = [] \<longrightarrow> txr v = txr w \<and> rx v = []) \<and>
     (eager_contract U dev txr \<and> no_stall content txr (rb, w) \<longrightarrow> no_stall content txr (b, v))"
  let ?inp = "\<lambda>(b :: 'rb, v :: 'w). rx v"
  let ?obs = "\<lambda>(b :: 'rb, v :: 'w). content b"
  let ?f = "\<lambda>c q. take cap (q @ [c])"
  have "\<exists>s'. cdc_rx_loop R U dev (rb, w) = Some (Inr s') \<and> ?P s' \<and> ?inp s' = [] \<and>
      ?obs s' = fold ?f (?inp (rb, w)) (?obs (rb, w))"
    unfolding cdc_rx_loop_def
  proof (rule whileM_drain [where P = ?P and inp = ?inp and obs = ?obs and f = ?f])
    show "?P (rb, w)" using le by simp
  next
    fix s assume P: "?P s" and i: "?inp s = []"
    obtain b v where s: "s = (b, v)" by (cases s)
    from P i s relay_queries(3) [OF U, of v] relay_keeps(7-9) [OF U, of v] show
      "\<exists>s1. (case s of (rb, w) \<Rightarrow> case uart_irq_rx_ready U dev w of (r, w1) \<Rightarrow> (r \<noteq> 0, rb, w1)) = (False, s1) \<and>
         ?P s1 \<and> ?inp s1 = [] \<and> ?obs s1 = ?obs s"
      by (auto simp: no_stall_def split: prod.splits)
  next
    fix s c cs assume P: "?P s" and i: "?inp s = c # cs"
    obtain b v where s: "s = (b, v)" by (cases s)
    obtain r v1 where q: "uart_irq_rx_ready U dev v = (r, v1)" by (cases "uart_irq_rx_ready U dev v")
    with i s relay_queries(3) [OF U, of v] relay_keeps(7-9) [OF U, of v]
    have v1: "r \<noteq> 0" "rx v1 = c # cs" "txr v1 = txr v" "tx v1 = tx v" by simp_all
    from v1(2) have ne: "rx v1 \<noteq> []" by simp
    from relay_read [OF U zero_less_one ne] obtain k v2 where k: "0 < k" "k \<le> 1"
      "uart_fifo_read U dev 1 v1 = (int k, take k (rx v1), v2)" "rx v2 = drop k (rx v1)"
      "txr v2 = txr v1" "tx v2 = tx v1" by blast
    then have v2: "uart_fifo_read U dev 1 v1 = (1, [c], v2)" "rx v2 = cs" using v1(2) by (simp_all add: le_Suc_eq)
    have "length (content b) \<le> cap" using P s by simp
    from send_cdc_acm_byte [OF U R this, of c v2] obtain b' v' where
      r: "send_cdc_acm R U dev [c] 1 (b, v2) = Inr (b', v')" "rx v' = rx v2" "tx v' = tx v2"
      "content b' = take cap (content b @ [c])" "v' = v2 \<and> content b' = content b \<or> v' = uart_irq_tx_enable U dev v2"
      by blast
    have "rx w \<noteq> []" using P i s by auto
    moreover have "no_stall content txr (b', v')" if "eager_contract U dev txr" "no_stall content txr (rb, w)"
      using that r(5) P s k(5) v1(3) by (auto simp: no_stall_def eager_contract_def)
    ultimately have "?P (b', v')" using r P s k(6) v1 by auto
    with r v2 v1 show "\<exists>s1 s2. (case s of (rb, w) \<Rightarrow> case uart_irq_rx_ready U dev w of (r, w1) \<Rightarrow> (r \<noteq> 0, rb, w1)) = (True, s1) \<and>
        (case s1 of (rb, w) \<Rightarrow> case uart_fifo_read U dev 1 w of (n, bs, w1) \<Rightarrow>
          Some (case bs of [] \<Rightarrow> Inl Uninit_read | c # _ \<Rightarrow> send_cdc_acm R U dev [c] 1 (rb, w1))) = Some (Inr s2) \<and>
        ?P s2 \<and> ?inp s2 = cs \<and> ?obs s2 = ?f c (?obs s)"
      by (intro exI [of _ "(b, v1)"] exI [of _ "(b', v')"]) (simp add: s q)
  qed
  then show ?thesis using fold_take_snoc [OF le] by auto
qed

lemma tx_chunk_no_stall:
  assumes U: "relay_contract U d lossless rx txr tx" and R: "ring_contract R content cap" and n: "0 < n"
    and e: "eager_contract U d txr" and st: "no_stall content txr (rb, w)"
  shows "no_stall content txr (tx_chunk n R U d (rb, w))"
proof -
  obtain bs rb' where g: "ring_buf_get R n rb = (bs, rb')" by (cases "ring_buf_get R n rb")
  with R have bs: "bs = take n (content rb)" "content rb' = drop n (content rb)"
    unfolding ring_contract_def by (metis fst_conv, metis snd_conv)
  show ?thesis
  proof (cases "content rb = []")
    case True
    with g bs show ?thesis by (simp add: tx_chunk_def no_stall_def)
  next
    case False
    with bs n have "bs \<noteq> []" by simp
    with False g st e show ?thesis by (simp add: tx_chunk_def no_stall_def eager_contract_def)
  qed
qed

definition relay_measure :: "('w \<Rightarrow> u8 list) \<Rightarrow> ('w \<Rightarrow> bool) \<Rightarrow> ('rb \<Rightarrow> u8 list) \<Rightarrow> 'rb \<times> 'w \<Rightarrow> nat" where
  "relay_measure rx txr content st =
     3 * length (rx (snd st)) + 2 * length (content (fst st)) + (if txr (snd st) then 1 else 0)"

lemma cdc_pass_run:
  assumes U: "relay_contract U dev lossless rx txr tx" and R: "ring_contract R content cap"
    and le: "length (content rb) \<le> cap" and pend: "rx w \<noteq> [] \<or> txr w"
  shows "\<exists>rb' w' sent. cdc_pass R U dev (rb, w) = Some (Inr (rb', w')) \<and> rx w' = [] \<and> tx w' = tx w @ sent \<and>
     length (content rb') \<le> cap \<and> subseq (sent @ content rb') (take cap (content rb @ rx w)) \<and>
     (lossless \<longrightarrow> sent @ content rb' = take cap (content rb @ rx w)) \<and>
     (eager_contract U dev txr \<and> no_stall content txr (rb, w) \<longrightarrow> no_stall content txr (rb', w')) \<and>
     relay_measure rx txr content (rb', w') < relay_measure rx txr content (rb, w)"
proof -
  from cdc_rx_loop_run [OF U R le, of w] obtain b v where
    r: "cdc_rx_loop R U dev (rb, w) = Some (Inr (b, v))" "rx v = []" "tx v = tx w"
    "content b = take cap (content rb @ rx w)" "rx w = [] \<longrightarrow> txr v = txr w"
    "eager_contract U dev txr \<and> no_stall content txr (rb, w) \<longrightarrow> no_stall content txr (b, v)" by blast
  obtain q v1 where t: "uart_irq_tx_ready U dev v = (q, v1)" by (cases "uart_irq_tx_ready U dev v")
  with relay_queries(4) [OF U, of v] relay_keeps(10-12) [OF U, of v] r(2,3)
  have v1: "q \<noteq> 0 \<longleftrightarrow> txr v" "rx v1 = []" "txr v1 = txr v" "tx v1 = tx w" by simp_all
  have lb: "length (content b) \<le> cap" "length (content b) \<le> length (content rb) + length (rx w)"
    using r(4) by simp_all
  show ?thesis
  proof (cases "txr v")
    case False
    then have "rx w \<noteq> []" using pend r(5) by auto
    then have "0 < length (rx w)" by simp
    with False v1 r t lb show ?thesis
      by (intro exI [of _ b] exI [of _ v1] exI [of _ "[]"])
        (auto simp: cdc_pass_def relay_measure_def no_stall_def)
  next
    case True
    from tx_chunk_run [OF U R, of 16 b v1] obtain rb' w' sent where
      c: "tx_chunk 16 R U dev (b, v1) = (rb', w')" "rx w' = rx v1" "tx w' = tx v1 @ sent"
      "subseq (sent @ content rb') (content b)" "lossless \<longrightarrow> sent @ content rb' = content b"
      "if content b = [] then content rb' = [] \<and> \<not> txr w' else length (content rb') < length (content b)" by auto
    have le': "length (content rb') \<le> length (content b)" using c(6) by (auto split: if_splits)
    have m: "relay_measure rx txr content (rb', w') < relay_measure rx txr content (rb, w)"
    proof (cases "rx w = []")
      case True
      with c(2,6) v1 lb(2) r(5) \<open>txr v\<close> show ?thesis
        by (auto simp: relay_measure_def split: if_splits)
    next
      case False
      then have "0 < length (rx w)" by simp
      with c(2,6) v1 lb(2) show ?thesis by (auto simp: relay_measure_def split: if_splits)
    qed
    have "no_stall content txr (rb', w')" if "eager_contract U dev txr" "no_stall content txr (rb, w)"
    proof -
      have "no_stall content txr (b, v1)" using r(6) that v1 by (simp add: no_stall_def)
      from tx_chunk_no_stall [OF U R _ that(1) this, of 16] c(1) show ?thesis by simp
    qed
    with m c v1 r t lb le' True show ?thesis
      by (intro exI [of _ rb'] exI [of _ w'] exI [of _ sent]) (simp add: cdc_pass_def)
  qed
qed

lemma subseq_trans_append: "subseq (s @ x) a \<Longrightarrow> subseq (t @ y) x \<Longrightarrow> subseq ((s @ t) @ y) a"
  by (metis append.assoc list_emb_append_mono subseq_order.order_refl subseq_order.order_trans)

lemma cdc_interrupt_handler_run:
  fixes rx :: "'w \<Rightarrow> u8 list" and content :: "'rb \<Rightarrow> u8 list"
  assumes U: "relay_contract U dev lossless rx txr tx" and R: "ring_contract R content cap"
    and le: "length (content rb) \<le> cap"
  shows "\<exists>rb' w' sent. cdc_interrupt_handler R U dev (rb, w) = Some (Inr (rb', w')) \<and>
     rx w' = [] \<and> \<not> txr w' \<and> tx w' = tx w @ sent \<and> length (content rb') \<le> cap \<and>
     subseq (sent @ content rb') (take cap (content rb @ rx w)) \<and>
     (lossless \<longrightarrow> sent @ content rb' = take cap (content rb @ rx w)) \<and>
     (eager_contract U dev txr \<and> no_stall content txr (rb, w) \<longrightarrow> content rb' = [])"
proof -
  let ?goal = "\<lambda>(b :: 'rb, v :: 'w). \<exists>sent. tx v = tx w @ sent \<and> length (content b) \<le> cap \<and>
     subseq (sent @ take cap (content b @ rx v)) (take cap (content rb @ rx w)) \<and>
     (lossless \<longrightarrow> sent @ take cap (content b @ rx v) = take cap (content rb @ rx w)) \<and>
     (eager_contract U dev txr \<and> no_stall content txr (rb, w) \<longrightarrow> no_stall content txr (b, v))"
  let ?Q = "\<lambda>(b :: 'rb, v :: 'w). ?goal (b, v) \<and> rx v = [] \<and> \<not> txr v"
  have "\<exists>s'. cdc_interrupt_handler R U dev (rb, w) = Some (Inr s') \<and> ?Q s'"
    unfolding cdc_interrupt_handler_def
  proof (rule whileM_total [where P = ?goal and Q = ?Q and m = "relay_measure rx txr content"])
    show "?goal (rb, w)" using le by simp
  next
    fix s s1 assume P: "?goal s" and go: "pending_guard U dev s = (True, s1)"
    obtain b v where s: "s = (b, v)" by (cases s)
    from pending_guard_run [OF U, of b v] go s obtain v1 where
      v1: "s1 = (b, v1)" "rx v1 = rx v" "txr v1 = txr v" "tx v1 = tx v" "rx v \<noteq> [] \<or> txr v" by auto
    from P s obtain sent where I: "tx v = tx w @ sent" "length (content b) \<le> cap"
      "subseq (sent @ take cap (content b @ rx v)) (take cap (content rb @ rx w))"
      "lossless \<longrightarrow> sent @ take cap (content b @ rx v) = take cap (content rb @ rx w)"
      "eager_contract U dev txr \<and> no_stall content txr (rb, w) \<longrightarrow> no_stall content txr (b, v)"
      unfolding s prod.case by (elim exE conjE) rule
    have "rx v1 \<noteq> [] \<or> txr v1" using v1 by simp
    from cdc_pass_run [OF U R I(2) this] obtain b' v' sent' where
      r: "cdc_pass R U dev (b, v1) = Some (Inr (b', v'))" "rx v' = []" "tx v' = tx v1 @ sent'"
      "length (content b') \<le> cap" "subseq (sent' @ content b') (take cap (content b @ rx v1))"
      "lossless \<longrightarrow> sent' @ content b' = take cap (content b @ rx v1)"
      "eager_contract U dev txr \<and> no_stall content txr (b, v1) \<longrightarrow> no_stall content txr (b', v')"
      "relay_measure rx txr content (b', v') < relay_measure rx txr content (b, v1)" by blast
    have t: "take cap (content b' @ rx v') = content b'" using r(2,4) by simp
    have "?goal (b', v')"
      using I v1 r t subseq_trans_append [OF I(3), of sent' "content b'"]
      by (auto simp: no_stall_def intro!: exI [of _ "sent @ sent'"])
    moreover have "relay_measure rx txr content (b, v1) = relay_measure rx txr content (b, v)"
      using v1 by (simp add: relay_measure_def)
    ultimately show "\<exists>s2. cdc_pass R U dev s1 = Some (Inr s2) \<and> ?goal s2 \<and>
        relay_measure rx txr content s2 < relay_measure rx txr content s"
      using r(1,8) s v1(1) by (intro exI [of _ "(b', v')"]) simp
  next
    fix s s1 assume P: "?goal s" and stop: "pending_guard U dev s = (False, s1)"
    obtain b v where s: "s = (b, v)" by (cases s)
    from pending_guard_run [OF U, of b v] stop s obtain v1 where
      "s1 = (b, v1)" "rx v1 = rx v" "txr v1 = txr v" "tx v1 = tx v" "rx v = []" "\<not> txr v" by auto
    with P s show "?Q s1" by (auto simp: no_stall_def)
  qed
  then obtain s where s: "cdc_interrupt_handler R U dev (rb, w) = Some (Inr s)" "?Q s" by (elim exE conjE) rule
  obtain b v where "s = (b, v)" by (cases s)
  with s obtain sent where "cdc_interrupt_handler R U dev (rb, w) = Some (Inr (b, v))" "rx v = []" "\<not> txr v"
    "tx v = tx w @ sent" "length (content b) \<le> cap"
    "subseq (sent @ take cap (content b @ rx v)) (take cap (content rb @ rx w))"
    "lossless \<longrightarrow> sent @ take cap (content b @ rx v) = take cap (content rb @ rx w)"
    "eager_contract U dev txr \<and> no_stall content txr (rb, w) \<longrightarrow> no_stall content txr (b, v)"
    by (simp only: prod.case) (elim exE conjE, rule)
  then show ?thesis
    by (intro exI [of _ b] exI [of _ v] exI [of _ sent]) (auto simp: no_stall_def)
qed

section \<open>Opening the port\<close>

text \<open>
  The query finds DTR down (or writes nothing) \<open>m w\<close> times, and then set; \<open>installed w\<close> are the
  handlers given to the port and \<open>rx_on w\<close> whether it receives.
\<close>

definition port_contract ::
    "'w kernel_api \<Rightarrow> 'w uart_api \<Rightarrow> dev \<Rightarrow> ('w \<Rightarrow> nat) \<Rightarrow> ('w \<Rightarrow> fn list) \<Rightarrow> ('w \<Rightarrow> bool) \<Rightarrow> bool" where
  [contract_defs]: "port_contract Z U d m installed rx_on \<longleftrightarrow>
     (\<forall>w. case uart_line_ctrl_get U d UART_LINE_CTRL_DTR w of (r, v, w1) \<Rightarrow>
        (if m w = 0 then (\<exists>x. v = Some x \<and> x \<noteq> 0) else v = Some 0 \<or> v = None) \<and>
        m w1 = m w - 1 \<and> installed w1 = installed w) \<and>
     keeps (k_timer_start Z My_timer 100 0) (\<lambda>w. (m w, installed w)) \<and>
     keeps (k_work_submit Z My_work) (\<lambda>w. (m w, installed w)) \<and>
     (\<forall>c v. keeps (\<lambda>w. snd (uart_line_ctrl_set U d c v w)) installed) \<and>
     (\<forall>f p w. installed (uart_irq_callback_user_data_set U d f p w) = installed w @ [f]) \<and>
     keeps (uart_irq_rx_enable U d) installed \<and> (\<forall>w. rx_on (uart_irq_rx_enable U d w))"

text \<open>
  The kernel's timer and work queue, as documented: \<open>armed w\<close> is that the timer runs, \<open>queued w\<close> that
  the work item is submitted. A timer without a period that expires has stopped (\<open>expire\<close>), a work
  item is taken off its queue before its handler runs (\<open>begin_work\<close>), and only starting the one and
  submitting the other sets them again: what the handler does to the port does not.
\<close>

definition poll_contract ::
    "'w kernel_api \<Rightarrow> 'w uart_api \<Rightarrow> dev \<Rightarrow> ('w \<Rightarrow> nat) \<Rightarrow> ('w \<Rightarrow> fn list) \<Rightarrow>
     ('w \<Rightarrow> bool) \<Rightarrow> ('w \<Rightarrow> 'w) \<Rightarrow> ('w \<Rightarrow> bool) \<Rightarrow> ('w \<Rightarrow> 'w) \<Rightarrow> bool" where
  [contract_defs]: "poll_contract Z U d m installed armed expire queued begin_work \<longleftrightarrow>
     (\<forall>w. armed (k_timer_start Z My_timer 100 0 w)) \<and> keeps (k_timer_start Z My_timer 100 0) queued \<and>
     (\<forall>w. \<not> armed (expire w)) \<and> keeps expire (\<lambda>w. (m w, installed w, queued w)) \<and>
     (\<forall>w. queued (k_work_submit Z My_work w)) \<and> keeps (k_work_submit Z My_work) armed \<and>
     (\<forall>w. \<not> queued (begin_work w)) \<and> keeps begin_work (\<lambda>w. (m w, installed w, armed w)) \<and>
     (\<forall>c. keeps (\<lambda>w. snd (snd (uart_line_ctrl_get U d c w))) (\<lambda>w. (armed w, queued w))) \<and>
     (\<forall>c v. keeps (\<lambda>w. snd (uart_line_ctrl_set U d c v w)) (\<lambda>w. (armed w, queued w))) \<and>
     (\<forall>f p. keeps (uart_irq_callback_user_data_set U d f p) (\<lambda>w. (armed w, queued w))) \<and>
     keeps (uart_irq_rx_enable U d) (\<lambda>w. (armed w, queued w))"

text \<open>What the kernel runs by itself: the expiry function of a running timer, and submitted work.\<close>

datatype poll_event = Expiry | Work

inductive poll_step ::
    "'w kernel_api \<Rightarrow> 'w uart_api \<Rightarrow> dev \<Rightarrow> ('w \<Rightarrow> bool) \<Rightarrow> ('w \<Rightarrow> 'w) \<Rightarrow> ('w \<Rightarrow> bool) \<Rightarrow> ('w \<Rightarrow> 'w) \<Rightarrow>
     'w \<Rightarrow> poll_event \<Rightarrow> 'w \<Rightarrow> bool"
  for Z U dev armed expire queued begin_work where
  timer: "armed w \<Longrightarrow> poll_step Z U dev armed expire queued begin_work w Expiry (my_timer_handler Z (expire w))"
| work: "queued w \<Longrightarrow> poll_step Z U dev armed expire queued begin_work w Work (my_work_handler Z U dev (begin_work w))"

text \<open>
  Polling: the timer runs or the work is submitted, never both, and nothing is installed. An expiry
  leaves the count of queries as it is, a work item takes one.
\<close>

lemma my_timer_handler_polls:
  assumes P: "port_contract Z U d m installed rx_on" and Q: "poll_contract Z U d m installed armed expire queued begin_work"
  shows "m (my_timer_handler Z (expire w)) = m w" "installed (my_timer_handler Z (expire w)) = installed w"
    "\<not> armed (my_timer_handler Z (expire w))" "queued (my_timer_handler Z (expire w))"
  using P Q unfolding port_contract_def poll_contract_def keeps_def my_timer_handler_def by auto

lemma my_work_handler_polls:
  assumes P: "port_contract Z U d m installed rx_on" and Q: "poll_contract Z U d m installed armed expire queued begin_work"
    and w: "queued w" "\<not> armed w"
  shows "if m w = 0 then installed (my_work_handler Z U d (begin_work w)) = installed w @ [Cdc_acm_interrupt_handler] \<and>
       rx_on (my_work_handler Z U d (begin_work w)) \<and>
       \<not> armed (my_work_handler Z U d (begin_work w)) \<and> \<not> queued (my_work_handler Z U d (begin_work w))
     else m (my_work_handler Z U d (begin_work w)) = m w - 1 \<and> installed (my_work_handler Z U d (begin_work w)) = installed w \<and>
       armed (my_work_handler Z U d (begin_work w)) \<and> \<not> queued (my_work_handler Z U d (begin_work w))"
proof -
  let ?w = "begin_work w"
  obtain r v w1 where q: "uart_line_ctrl_get U d UART_LINE_CTRL_DTR ?w = (r, v, w1)"
    by (cases "uart_line_ctrl_get U d UART_LINE_CTRL_DTR ?w")
  have b: "m ?w = m w" "installed ?w = installed w" "\<not> armed ?w" "\<not> queued ?w"
    using Q w(2) by (simp_all add: poll_contract_def keeps_def)
  have "\<forall>w. case uart_line_ctrl_get U d UART_LINE_CTRL_DTR w of (r, v, w1) \<Rightarrow>
        (if m w = 0 then (\<exists>x. v = Some x \<and> x \<noteq> 0) else v = Some 0 \<or> v = None) \<and>
        m w1 = m w - 1 \<and> installed w1 = installed w"
    using P by (simp add: port_contract_def)
  from this [rule_format, of ?w] q b have
    v: "if m w = 0 then (\<exists>x. v = Some x \<and> x \<noteq> 0) else v = Some 0 \<or> v = None" "m w1 = m w - 1" "installed w1 = installed w"
    by simp_all
  have "armed (snd (snd (uart_line_ctrl_get U d c w))) = armed w \<and> queued (snd (snd (uart_line_ctrl_get U d c w))) = queued w" for c w
    using Q by (simp add: poll_contract_def keeps_def)
  from this [of UART_LINE_CTRL_DTR ?w] q b have a: "\<not> armed w1" "\<not> queued w1" by simp_all
  have i: "installed (snd (uart_line_ctrl_set U d c x u)) = installed u"
    "installed (uart_irq_callback_user_data_set U d f p u) = installed u @ [f]"
    "installed (uart_irq_rx_enable U d u) = installed u" "rx_on (uart_irq_rx_enable U d u)" for c x f p u
    using P by (simp_all add: port_contract_def keeps_def)
  have t: "m (k_timer_start Z My_timer 100 0 u) = m u" "installed (k_timer_start Z My_timer 100 0 u) = installed u" for u
    using P by (simp_all add: port_contract_def keeps_def)
  have k: "armed (snd (uart_line_ctrl_set U d c x u)) = armed u" "queued (snd (uart_line_ctrl_set U d c x u)) = queued u"
    "armed (uart_irq_callback_user_data_set U d f p u) = armed u" "queued (uart_irq_callback_user_data_set U d f p u) = queued u"
    "armed (uart_irq_rx_enable U d u) = armed u" "queued (uart_irq_rx_enable U d u) = queued u"
    "armed (k_timer_start Z My_timer 100 0 u)" "queued (k_timer_start Z My_timer 100 0 u) = queued u" for c x f p u
    using Q by (simp_all add: poll_contract_def keeps_def)
  show ?thesis
  proof (cases "m w = 0")
    case True
    then obtain x where "v = Some x" "x \<noteq> 0" using v(1) by auto
    with q have "my_work_handler Z U d ?w = uart_irq_rx_enable U d (uart_irq_callback_user_data_set U d
        Cdc_acm_interrupt_handler NULL_ptr (cdc_uart_line_set U d w1))"
      by (simp add: my_work_handler_def Let_def)
    with True i k a v(3) show ?thesis by (simp add: cdc_uart_line_set_def Let_def)
  next
    case False
    then have "v = Some 0 \<or> v = None" using v(1) by simp
    with q have "my_work_handler Z U d ?w = k_timer_start Z My_timer 100 0 w1"
      by (auto simp: my_work_handler_def)
    with False t k a v(2,3) show ?thesis by simp
  qed
qed

text \<open>What every run keeps, with \<open>k\<close> the work items that have run and \<open>is\<close> what was installed before.\<close>

definition polling ::
    "('w \<Rightarrow> nat) \<Rightarrow> ('w \<Rightarrow> fn list) \<Rightarrow> ('w \<Rightarrow> bool) \<Rightarrow> ('w \<Rightarrow> bool) \<Rightarrow> ('w \<Rightarrow> bool) \<Rightarrow> nat \<Rightarrow> fn list \<Rightarrow> nat \<Rightarrow> 'w \<Rightarrow> bool" where
  "polling m installed rx_on armed queued n is k w \<longleftrightarrow>
     (if k \<le> n then m w = n - k \<and> installed w = is \<and> (armed w \<longleftrightarrow> \<not> queued w)
      else k = n + 1 \<and> installed w = is @ [Cdc_acm_interrupt_handler] \<and> rx_on w \<and> \<not> armed w \<and> \<not> queued w)"

lemma poll_step_polling:
  assumes P: "port_contract Z U d m installed rx_on" and Q: "poll_contract Z U d m installed armed expire queued begin_work"
    and step: "poll_step Z U d armed expire queued begin_work w e w'" and st: "polling m installed rx_on armed queued n is k w"
  shows "polling m installed rx_on armed queued n is (k + (if e = Work then 1 else 0)) w'"
  using step
proof (cases rule: poll_step.cases)
  case timer
  with st my_timer_handler_polls [OF P Q, of w] show ?thesis by (auto simp: polling_def split: if_splits)
next
  case work
  with st have le: "k \<le> n" "m w = n - k" "installed w = is" "\<not> armed w" by (auto simp: polling_def split: if_splits)
  from my_work_handler_polls [OF P Q work(3) le(4)] le(1-3) work(1,2) show ?thesis
    by (cases "k = n") (auto simp: polling_def)
qed

lemma poll_run_polling:
  assumes P: "port_contract Z U d m installed rx_on" and Q: "poll_contract Z U d m installed armed expire queued begin_work"
    and run: "run (poll_step Z U d armed expire queued begin_work) w es w'"
    and st: "polling m installed rx_on armed queued n is k w"
  shows "polling m installed rx_on armed queued n is (k + count_list es Work) w'"
  using run st
proof (induction rule: run.induct)
  case (idle s)
  then show ?case by simp
next
  case (extend s es t e u)
  from poll_step_polling [OF P Q extend.hyps(2) extend.IH [OF extend.prems]] show ?case
    by (cases "e = Work") (simp_all add: ac_simps)
qed

text \<open>And until the port is open there is always a next step.\<close>

lemma polling_goes_on:
  assumes "polling m installed rx_on armed queued n is k w" and "k \<le> n"
  shows "\<exists>e w'. poll_step Z U d armed expire queued begin_work w e w'"
proof -
  from assms have "armed w \<or> queued w" by (auto simp: polling_def)
  then show ?thesis by (blast intro: poll_step.intros)
qed

lemma polling_opens:
  assumes P: "port_contract Z U d m installed rx_on" and Q: "poll_contract Z U d m installed armed expire queued begin_work"
  shows "polling m installed rx_on armed queued n is k w \<Longrightarrow> armed w \<Longrightarrow> k \<le> n \<Longrightarrow>
     \<exists>w'. run (poll_step Z U d armed expire queued begin_work) w (concat (replicate (n + 1 - k) [Expiry, Work])) w'"
proof (induction "n - k" arbitrary: k w)
  case (0 k w)
  let ?step = "poll_step Z U d armed expire queued begin_work"
  have "?step w Expiry (my_timer_handler Z (expire w))" by (rule poll_step.timer) (rule 0(3))
  moreover have "queued (my_timer_handler Z (expire w))" by (rule my_timer_handler_polls(4) [OF P Q])
  ultimately have "\<exists>w'. run ?step w [Expiry, Work] w'" by (blast intro: run_pair poll_step.work)
  moreover have "n + 1 - k = 1" using 0 by simp
  ultimately show ?case by simp
next
  case (Suc j k w)
  let ?step = "poll_step Z U d armed expire queued begin_work"
  let ?v = "my_timer_handler Z (expire w)" and ?w = "my_work_handler Z U d (begin_work (my_timer_handler Z (expire w)))"
  have q: "queued ?v" by (rule my_timer_handler_polls(4) [OF P Q])
  have 1: "?step w Expiry ?v" by (rule poll_step.timer) (rule Suc.prems(2))
  have 2: "?step ?v Work ?w" by (rule poll_step.work) (rule q)
  have r: "run ?step w [Expiry, Work] ?w" by (rule run_pair) (rule 1, rule 2)
  from poll_run_polling [OF P Q r Suc.prems(1)] have p: "polling m installed rx_on armed queued n is (k + 1) ?w" by simp
  have le: "k + 1 \<le> n" and j: "j = n - (k + 1)" using Suc.hyps(2) by simp_all
  have "\<not> queued ?w"
    using my_work_handler_polls [OF P Q q my_timer_handler_polls(3) [OF P Q]] by (auto split: if_splits)
  with p le have "armed ?w" by (auto simp: polling_def)
  from Suc.hyps(1) [OF j p this le] obtain w' where "run ?step ?w (concat (replicate (n + 1 - (k + 1)) [Expiry, Work])) w'" ..
  from run_append [where step = ?step, OF this r] have "run ?step w (concat (replicate (Suc (n - k)) [Expiry, Work])) w'" by simp
  moreover have "n + 1 - k = Suc (n - k)" using le by simp
  ultimately show ?case by metis
qed

section \<open>Properties\<close>

text \<open>C24. The echo port's handler returns with the receiver drained and the transmitter off, and
  the bytes it has sent followed by those it still holds are the bytes it held followed by
  those it received, cut to the ring buffer: nothing is invented or reordered whatever the
  UART takes of a chunk, and nothing else is lost when it takes all of it. If the
  transmit interrupt stays on until the handler turns it off, nothing is left behind.\<close>

theorem cdc_acm_echo:
  assumes "relay_contract U dev lossless rx txr tx" and "ring_contract R content CDC_RING_BUF_SIZE"
    and "length (content rb) \<le> CDC_RING_BUF_SIZE"
  shows "\<exists>rb' w' sent. cdc_interrupt_handler R U dev (rb, w) = Some (Inr (rb', w')) \<and>
     rx w' = [] \<and> \<not> txr w' \<and> tx w' = tx w @ sent \<and> length (content rb') \<le> CDC_RING_BUF_SIZE \<and>
     subseq (sent @ content rb') (take CDC_RING_BUF_SIZE (content rb @ rx w)) \<and>
     (lossless \<longrightarrow> sent @ content rb' = take CDC_RING_BUF_SIZE (content rb @ rx w)) \<and>
     (eager_contract U dev txr \<and> no_stall content txr (rb, w) \<longrightarrow> content rb' = [])"
  using cdc_interrupt_handler_run [OF assms, of w] by blast

text \<open>C32. The port opens when the host has raised DTR, and not before: main, with the device ready and
  USB enabled, leaves the timer running. From there, in whatever order the kernel runs the expiries
  of the timer and the work that is submitted, there is a next step as long as the port is not
  open, so that the polling never dies: while the query has yet to find DTR down \<open>m\<close> times,
  the work item restarts the timer and installs nothing; the one after those installs the handler,
  once, and enables reception, and no work runs after it. After \<open>m + 1\<close> expiries, each
  followed by its work item, the port is open. (Main finds no work submitted.)\<close>

theorem cdc_port_opens:
  assumes "port_contract Z U dev m installed rx_on" and "poll_contract Z U dev m installed armed expire queued begin_work"
    and "device_is_ready Z dev w0" and "usb_enable Z w0 = (0, wu)" and "main_cdc_acm Z R dev (rb0, w0) = (rb, w)" and "\<not> queued w"
  shows "(\<forall>es w'. run (poll_step Z U dev armed expire queued begin_work) w es w' \<longrightarrow>
       (if count_list es Work \<le> m w
        then installed w' = installed w \<and> (\<exists>e w''. poll_step Z U dev armed expire queued begin_work w' e w'')
        else count_list es Work = m w + 1 \<and> installed w' = installed w @ [Cdc_acm_interrupt_handler] \<and> rx_on w')) \<and>
     (\<exists>w'. run (poll_step Z U dev armed expire queued begin_work) w (concat (replicate (m w + 1) [Expiry, Work])) w')"
proof -
  from assms(3-5) obtain w3 where "w = k_timer_start Z My_timer 100 0 w3" by (auto simp: main_cdc_acm_def Let_def)
  with assms(2) have a: "armed w" by (simp add: poll_contract_def)
  with assms(6) have p: "polling m installed rx_on armed queued (m w) (installed w) 0 w" by (simp add: polling_def)
  have run: "if count_list es Work \<le> m w
      then installed w' = installed w \<and> (\<exists>e w''. poll_step Z U dev armed expire queued begin_work w' e w'')
      else count_list es Work = m w + 1 \<and> installed w' = installed w @ [Cdc_acm_interrupt_handler] \<and> rx_on w'"
    if r: "run (poll_step Z U dev armed expire queued begin_work) w es w'" for es w'
    using poll_run_polling [OF assms(1,2) r p] polling_goes_on by (fastforce simp: polling_def)
  have "\<exists>w'. run (poll_step Z U dev armed expire queued begin_work) w (concat (replicate (m w + 1) [Expiry, Work])) w'"
    using polling_opens [OF assms(1,2) p a] by simp
  then show ?thesis by (intro conjI allI impI) (rule run)
qed

section \<open>Witnesses\<close>

lemma board_eager: "eager_contract board_uart d (\<lambda>w. tx_on w d)"
  by (simp add: eager_contract_def)

theorem cdc_acm_echo_witness:
  "\<exists>rb' w'. cdc_interrupt_handler (board_ring CDC_RING_BUF_SIZE) board_uart 3 ([], board_rx 3 [72, 105]) =
       Some (Inr (rb', w')) \<and> txq w' 3 = [72, 105]"
  using cdc_acm_echo [OF board_relay board_ring_contract, of "[]" 3 "board_rx 3 [72, 105]"] board_eager [of 3]
  by (auto simp: board_rx_def board0_def CDC_RING_BUF_SIZE_def no_stall_def)

definition board_installed :: "dev \<Rightarrow> board \<Rightarrow> fn list" where
  "board_installed d w = concat (map (\<lambda>k. case k of Irq_callback_set e f p \<Rightarrow> (if e = d then [f] else []) | _ \<Rightarrow> []) (kcalls w))"

lemma board_port: "port_contract board_kernel board_uart d dtr_after (board_installed d) (\<lambda>w. Rx_enable d \<in> set (kcalls w))"
  by (simp add: port_contract_def keeps_def board_kernel_def board_uart_def log_def board_installed_def)

lemma board_poll:
  "poll_contract board_kernel board_uart d dtr_after (board_installed d) (\<lambda>w. running w My_timer) (board_expire My_timer)
     (\<lambda>w. submitted w My_work) (board_begin_work My_work)"
  by (simp add: poll_contract_def keeps_def board_kernel_def board_uart_def log_def board_installed_def board_expire_def board_begin_work_def)

theorem cdc_port_opens_witness:
  "\<exists>w'. run (poll_step board_kernel board_uart 3 (\<lambda>w. running w My_timer) (board_expire My_timer) (\<lambda>w. submitted w My_work) (board_begin_work My_work))
       (snd (main_cdc_acm board_kernel (board_ring CDC_RING_BUF_SIZE) 3 ([], board0\<lparr>dtr_after := 2\<rparr>)))
       [Expiry, Work, Expiry, Work, Expiry, Work] w' \<and>
     board_installed 3 w' = [Cdc_acm_interrupt_handler] \<and> Rx_enable 3 \<in> set (kcalls w')"
proof -
  let ?start = "board0\<lparr>dtr_after := 2\<rparr>" and ?R = "board_ring CDC_RING_BUF_SIZE"
  let ?w = "snd (main_cdc_acm board_kernel ?R 3 ([], ?start))"
  let ?step = "poll_step board_kernel board_uart 3 (\<lambda>w. running w My_timer) (board_expire My_timer) (\<lambda>w. submitted w My_work) (board_begin_work My_work)"
  have w: "device_is_ready board_kernel 3 ?start" by (simp add: board0_def)
  have u: "usb_enable board_kernel ?start = (0, log Usb_enable ?start)" by (simp add: board_kernel_def)
  have m: "main_cdc_acm board_kernel ?R 3 ([], ?start) = (fst (main_cdc_acm board_kernel ?R 3 ([], ?start)), ?w)"
    by (rule prod.collapse [symmetric])
  have s: "dtr_after ?w = 2" "board_installed 3 ?w = []" "\<not> submitted ?w My_work"
    by (simp_all add: main_cdc_acm_def board_kernel_def board0_def log_def Let_def board_installed_def)
  note o = cdc_port_opens [OF board_port board_poll w u m s(3)]
  have e: "concat (replicate (dtr_after ?w + 1) [Expiry, Work]) = [Expiry, Work, Expiry, Work, Expiry, Work]"
    unfolding s(1) by (simp add: numeral_2_eq_2)
  from o [THEN conjunct2] obtain w' where r: "run ?step ?w [Expiry, Work, Expiry, Work, Expiry, Work] w'" unfolding e ..
  from o [THEN conjunct1, rule_format, OF r] r s show ?thesis by (intro exI [of _ w']) simp
qed

end
