(* ===== verification/Mcp9808.thy ===== *)
theory Mcp9808
  imports Zephyr
begin

text \<open>
  The temperature sensor driver, \<^verbatim>\<open>drivers/my_i2c_mcp9808/\<close>: the register codec of the
  header, register access over I2C, and the two sensor operations.
\<close>

section \<open>Interfaces\<close>

record i2c_dt_spec =
  bus :: dev
  addr :: u16

text \<open>
  \<open>i2c_write_read_dt\<close> takes what the receive buffer holds and answers with what it holds
  afterwards. The byte order functions: \<open>host16_bytes\<close> and \<open>host16\<close> are the memory of a
  16-bit variable and back.
\<close>

record 'w i2c_api =
  i2c_write_read_dt :: "i2c_dt_spec \<Rightarrow> u8 list \<Rightarrow> u8 list \<Rightarrow> 'w \<Rightarrow> int \<times> u8 list \<times> 'w"
  i2c_write_dt :: "i2c_dt_spec \<Rightarrow> u8 list \<Rightarrow> 'w \<Rightarrow> int \<times> 'w"

record byteorder_api =
  host16_bytes :: "u16 \<Rightarrow> u8 list"
  host16 :: "u8 list \<Rightarrow> u16"
  sys_be16_to_cpu :: "u16 \<Rightarrow> u16"
  sys_put_be16 :: "u16 \<Rightarrow> u8 list"

datatype sensor_channel = SENSOR_CHAN_ALL | SENSOR_CHAN_AMBIENT_TEMP | SENSOR_CHAN_OTHER nat

record sensor_value =
  val1 :: int
  val2 :: int

section \<open>Registers\<close>

definition MY_I2C_MCP9808_REG_TEMP_AMB :: u8 where "MY_I2C_MCP9808_REG_TEMP_AMB = 0x05"
definition MY_I2C_MCP9808_REG_RESOLUTION :: u8 where "MY_I2C_MCP9808_REG_RESOLUTION = 0x08"
definition MY_I2C_MCP9808_TEMP_SCALE_CEL :: int where "MY_I2C_MCP9808_TEMP_SCALE_CEL = 16"
definition MY_I2C_MCP9808_TEMP_SIGN_BIT :: u16 where "MY_I2C_MCP9808_TEMP_SIGN_BIT = push_bit 12 1"
definition MY_I2C_MCP9808_TEMP_ABS_MASK :: u16 where
  "MY_I2C_MCP9808_TEMP_ABS_MASK = MY_I2C_MCP9808_TEMP_SIGN_BIT - 1"

text \<open>The alert bits the sensor sets above the temperature: below the lower, above the upper and above the
  critical threshold.\<close>

definition MY_I2C_MCP9808_TEMP_LWR_BIT :: u16 where "MY_I2C_MCP9808_TEMP_LWR_BIT = push_bit 13 1"
definition MY_I2C_MCP9808_TEMP_UPR_BIT :: u16 where "MY_I2C_MCP9808_TEMP_UPR_BIT = push_bit 14 1"
definition MY_I2C_MCP9808_TEMP_CRT_BIT :: u16 where "MY_I2C_MCP9808_TEMP_CRT_BIT = push_bit 15 1"

record my_i2c_mcp9808_data =
  reg_val :: u16

record my_i2c_mcp9808_config =
  i2c :: i2c_dt_spec
  resolution :: u8

text \<open>The operands of \<open>&\<close> and \<open>|\<close> are \<^verbatim>\<open>int\<close>s; the result is stored in 16 bits.\<close>

definition my_i2c_mcp9808_temp_reg_from_signed :: "int \<Rightarrow> u16" where
  "my_i2c_mcp9808_temp_reg_from_signed temp =
     (let rv = word_of_int (temp AND uint MY_I2C_MCP9808_TEMP_ABS_MASK) :: u16
      in if temp < 0 then rv OR MY_I2C_MCP9808_TEMP_SIGN_BIT else rv)"

text \<open>The negation is of a 32-bit unsigned number, converted back to \<^verbatim>\<open>int\<close>.\<close>

definition my_i2c_mcp9808_temp_signed_from_reg :: "u16 \<Rightarrow> int" where
  "my_i2c_mcp9808_temp_signed_from_reg reg =
     (let rv = uint (reg AND MY_I2C_MCP9808_TEMP_ABS_MASK)
      in if reg AND MY_I2C_MCP9808_TEMP_SIGN_BIT \<noteq> 0
         then sint (- (1 + (word_of_int (rv XOR uint MY_I2C_MCP9808_TEMP_ABS_MASK) :: u32)))
         else rv)"

section \<open>Register access\<close>

definition my_i2c_mcp9808_reg_read ::
    "byteorder_api \<Rightarrow> 'w i2c_api \<Rightarrow> my_i2c_mcp9808_config \<Rightarrow> u8 \<Rightarrow> u16 \<Rightarrow> 'w \<Rightarrow> int \<times> u16 \<times> 'w" where
  "my_i2c_mcp9808_reg_read B I cfg reg val w =
     (case i2c_write_read_dt I (i2c cfg) [reg] (host16_bytes B val) w of (rc, bs, w1) \<Rightarrow>
      let v = host16 B bs
      in (rc, if rc = 0 then sys_be16_to_cpu B v else v, w1))"

definition my_i2c_mcp9808_reg_write_16bit ::
    "byteorder_api \<Rightarrow> 'w i2c_api \<Rightarrow> my_i2c_mcp9808_config \<Rightarrow> u8 \<Rightarrow> u16 \<Rightarrow> 'w \<Rightarrow> int \<times> 'w" where
  "my_i2c_mcp9808_reg_write_16bit B I cfg reg val w = i2c_write_dt I (i2c cfg) (reg # sys_put_be16 B val) w"

definition my_i2c_mcp9808_reg_write_8bit ::
    "'w i2c_api \<Rightarrow> my_i2c_mcp9808_config \<Rightarrow> u8 \<Rightarrow> u8 \<Rightarrow> 'w \<Rightarrow> int \<times> 'w" where
  "my_i2c_mcp9808_reg_write_8bit I cfg reg val w = i2c_write_dt I (i2c cfg) [reg, val] w"

definition my_i2c_mcp9808_set_temperature_resolution ::
    "'w i2c_api \<Rightarrow> my_i2c_mcp9808_config \<Rightarrow> u8 \<Rightarrow> 'w \<Rightarrow> int \<times> 'w" where
  "my_i2c_mcp9808_set_temperature_resolution I cfg res w =
     my_i2c_mcp9808_reg_write_8bit I cfg MY_I2C_MCP9808_REG_RESOLUTION res w"

section \<open>Sensor operations\<close>

text \<open>\<open>asrt\<close>: assertions are compiled in.\<close>

definition my_i2c_mcp9808_sample_fetch ::
    "bool \<Rightarrow> byteorder_api \<Rightarrow> 'w i2c_api \<Rightarrow> my_i2c_mcp9808_config \<Rightarrow> sensor_channel \<Rightarrow>
     my_i2c_mcp9808_data \<times> 'w \<Rightarrow> (int \<times> my_i2c_mcp9808_data \<times> 'w) checked" where
  "my_i2c_mcp9808_sample_fetch asrt B I cfg chan st =
     (case st of (data, w) \<Rightarrow>
      if asrt \<and> \<not> (chan = SENSOR_CHAN_ALL \<or> chan = SENSOR_CHAN_AMBIENT_TEMP) then Inl Assert_failed
      else case my_i2c_mcp9808_reg_read B I cfg MY_I2C_MCP9808_REG_TEMP_AMB (reg_val data) w of (rc, v, w1) \<Rightarrow>
        Inr (rc, data\<lparr>reg_val := v\<rparr>, w1))"

definition my_i2c_mcp9808_channel_get ::
    "bool \<Rightarrow> sensor_channel \<Rightarrow> my_i2c_mcp9808_data \<Rightarrow> (int \<times> sensor_value) checked" where
  "my_i2c_mcp9808_channel_get asrt chan data =
     (let temp = my_i2c_mcp9808_temp_signed_from_reg (reg_val data)
      in if asrt \<and> chan \<noteq> SENSOR_CHAN_AMBIENT_TEMP then Inl Assert_failed
         else
           let v1 = c_div temp MY_I2C_MCP9808_TEMP_SCALE_CEL;
               temp1 = temp - v1 * MY_I2C_MCP9808_TEMP_SCALE_CEL;
               v2 = c_div (temp1 * 1000000) MY_I2C_MCP9808_TEMP_SCALE_CEL
           in Inr (0, \<lparr>val1 = v1, val2 = v2\<rparr>))"

definition my_i2c_mcp9808_init ::
    "'w kernel_api \<Rightarrow> 'w i2c_api \<Rightarrow> my_i2c_mcp9808_config \<Rightarrow> 'w \<Rightarrow> int \<times> 'w" where
  "my_i2c_mcp9808_init Z I cfg w =
     (if \<not> device_is_ready Z (bus (i2c cfg)) w then (- ENODEV, w)
      else case my_i2c_mcp9808_set_temperature_resolution I cfg (resolution cfg) w of (rc, w1) \<Rightarrow>
        if rc \<noteq> 0 then (rc, w1) else (rc, w1))"

text \<open>The instance of a node: data that is zero, and a configuration.\<close>

record my_i2c_mcp9808_node =
  node_i2c :: i2c_dt_spec
  node_resolution :: u8

definition MY_I2C_MCP9808_DEFINE :: "my_i2c_mcp9808_node \<Rightarrow> my_i2c_mcp9808_data \<times> my_i2c_mcp9808_config" where
  "MY_I2C_MCP9808_DEFINE node =
     (\<lparr>reg_val = 0\<rparr>, \<lparr>i2c = node_i2c node, resolution = node_resolution node\<rparr>)"

section \<open>The codec\<close>

lemma reg_masks:
  "MY_I2C_MCP9808_TEMP_SIGN_BIT = 0x1000" "MY_I2C_MCP9808_TEMP_ABS_MASK = 0xFFF"
  "uint MY_I2C_MCP9808_TEMP_ABS_MASK = mask 12" "MY_I2C_MCP9808_TEMP_ABS_MASK = mask 12"
  by (simp_all add: MY_I2C_MCP9808_TEMP_SIGN_BIT_def MY_I2C_MCP9808_TEMP_ABS_MASK_def mask_eq_exp_minus_1)

lemma sign_bit_test: "reg AND MY_I2C_MCP9808_TEMP_SIGN_BIT \<noteq> 0 \<longleftrightarrow> bit reg 12"
  unfolding MY_I2C_MCP9808_TEMP_SIGN_BIT_def push_bit_of_1
  by (simp only: and_exp_eq_0_iff_not_bit) simp

lemma odd_div_iff: "odd (x div 4096) \<longleftrightarrow> 4096 \<le> x mod (8192 :: int)"
proof -
  have split: "q = 1 \<longleftrightarrow> 4096 \<le> m" if "m = 4096 * q + r" "0 \<le> r" "r < 4096" "q = 0 \<or> q = 1" for m q r :: int
    using that by auto
  have "x mod (4096 * 2) = 4096 * (x div 4096 mod 2) + x mod 4096" by (rule zmod_zmult2_eq) simp
  moreover have "(4096 :: int) * 2 = 8192" by simp
  ultimately have m: "x mod 8192 = 4096 * (x div 4096 mod 2) + x mod 4096" by (simp only:)
  have q: "x div 4096 mod 2 = 0 \<or> x div 4096 mod 2 = 1" by (rule mod2_eq_if [THEN ssubst]) simp
  show ?thesis
    unfolding odd_iff_mod_2_eq_one by (rule split [OF m _ _ q]) simp_all
qed

lemma bit12_iff: "bit (reg :: u16) 12 \<longleftrightarrow> 4096 \<le> uint reg mod 8192"
proof -
  have "bit reg 12 \<longleftrightarrow> bit (uint reg) 12" by (simp add: bit_uint_iff)
  also have "\<dots> \<longleftrightarrow> odd (uint reg div 4096)" by (simp add: bit_iff_odd)
  also have "\<dots> \<longleftrightarrow> 4096 \<le> uint reg mod 8192" by (rule odd_div_iff)
  finally show ?thesis .
qed

lemma xor_mask12:
  assumes "0 \<le> rv" and "rv < (4096 :: int)"
  shows "rv XOR mask 12 = 4095 - rv"
proof -
  have "take_bit 12 rv = rv" using assms by (simp add: take_bit_int_eq_self_iff)
  moreover have "take_bit 12 rv XOR mask 12 = take_bit 12 (NOT rv)"
    by (rule bit_eqI) (auto simp: bit_simps)
  ultimately have "rv XOR mask 12 = (- rv - 1) mod 4096" by (simp add: take_bit_eq_mod not_int_def)
  also have "\<dots> = (- rv - 1 + 4096) mod 4096" by (rule mod_add_self2 [symmetric])
  also have "\<dots> = 4095 - rv" using assms by (subst mod_pos_pos_trivial) auto
  finally show ?thesis .
qed

lemma sint_word_of_int32: "int32_range k \<Longrightarrow> sint (word_of_int k :: u32) = k"
  by (simp only: signed_of_int int32_range_def) (simp add: signed_take_bit_int_eq_self_iff)

text \<open>Decoding: the low twelve bits, less 4096 if the sign bit is set.\<close>

lemma signed_from_reg_value:
  "my_i2c_mcp9808_temp_signed_from_reg reg =
     uint reg mod 4096 - (if bit reg 12 then 4096 else 0)"
proof -
  let ?rv = "uint (reg AND MY_I2C_MCP9808_TEMP_ABS_MASK)"
  have rv: "?rv = uint reg mod 4096"
    unfolding uint_and reg_masks(3) by (simp add: take_bit_eq_mod flip: take_bit_eq_mask)
  have x: "?rv XOR uint MY_I2C_MCP9808_TEMP_ABS_MASK = 4095 - uint reg mod 4096"
    unfolding rv reg_masks(3) by (rule xor_mask12) simp_all
  have "sint (- (1 + (word_of_int (4095 - uint reg mod 4096) :: u32))) =
      sint (word_of_int (uint reg mod 4096 - 4096) :: u32)" by simp
  also have "\<dots> = uint reg mod 4096 - 4096"
    by (rule sint_word_of_int32) (simp add: int32_range_def order_less_trans [OF pos_mod_bound])
  finally have neg: "sint (- (1 + (word_of_int (4095 - uint reg mod 4096) :: u32))) = uint reg mod 4096 - 4096" .
  show ?thesis
    unfolding my_i2c_mcp9808_temp_signed_from_reg_def Let_def sign_bit_test x unfolding rv neg
    by simp
qed

lemma or_4096: "(x mod 4096) OR 4096 = x mod 4096 + (4096 :: int)"
proof -
  have "take_bit 12 x + 2 ^ 12 = take_bit 12 x OR 2 ^ 12"
    by (rule disjunctive_add) (simp only: bit_exp_iff bit_take_bit_iff, auto)
  then show ?thesis by (simp add: take_bit_eq_mod)
qed

lemma reg_from_signed_uint:
  "uint (my_i2c_mcp9808_temp_reg_from_signed temp) = temp mod 4096 + (if temp < 0 then 4096 else 0)"
proof -
  let ?rv = "word_of_int (temp AND uint MY_I2C_MCP9808_TEMP_ABS_MASK) :: u16"
  have a: "temp AND uint MY_I2C_MCP9808_TEMP_ABS_MASK = temp mod 4096"
    unfolding reg_masks(3) by (simp add: take_bit_eq_mod flip: take_bit_eq_mask)
  have u: "uint ?rv = temp mod 4096"
    unfolding a by (simp add: uint_word_of_int) 
  have "uint (?rv OR MY_I2C_MCP9808_TEMP_SIGN_BIT) = uint ?rv OR 4096"
    by (simp add: reg_masks(1) uint_or)
  also have "\<dots> = temp mod 4096 + 4096"
    unfolding u by (rule or_4096)
  finally show ?thesis
    using u by (simp add: my_i2c_mcp9808_temp_reg_from_signed_def Let_def)
qed

definition temp_range :: "int \<Rightarrow> bool" where
  "temp_range t \<longleftrightarrow> - 4096 \<le> t \<and> t < 4096"

lemma low_bits: "0 \<le> uint (reg :: u16) mod 4096" "uint reg mod 4096 < 4096"
  by simp_all

lemma mod_8192: "uint (reg :: u16) mod 8192 = uint reg mod 4096 + (if bit reg 12 then 4096 else 0)"
proof -
  have "uint reg mod (4096 * 2) = 4096 * (uint reg div 4096 mod 2) + uint reg mod 4096"
    by (rule zmod_zmult2_eq) simp
  moreover have "(4096 :: int) * 2 = 8192" by simp
  moreover have "bit reg 12 \<longleftrightarrow> uint reg div 4096 mod 2 = 1"
    unfolding bit12_iff odd_div_iff [symmetric] odd_iff_mod_2_eq_one by (rule refl)
  moreover have "uint reg div 4096 mod 2 = 0 \<or> uint reg div 4096 mod 2 = 1" by (rule mod2_eq_if [THEN ssubst]) simp
  ultimately show ?thesis by auto
qed

lemma signed_from_reg_range: "temp_range (my_i2c_mcp9808_temp_signed_from_reg reg)"
  unfolding signed_from_reg_value temp_range_def using low_bits [of reg]
  by (cases "bit reg 12") (simp_all only: if_True if_False, linarith+)

lemma signed_from_reg_neg: "my_i2c_mcp9808_temp_signed_from_reg reg < 0 \<longleftrightarrow> bit reg 12"
proof (cases "bit reg 12")
  case True
  then show ?thesis using low_bits(2) [of reg] by (simp add: signed_from_reg_value)
next
  case False
  then show ?thesis by (simp add: signed_from_reg_value not_less)
qed

lemma signed_reg_signed:
  assumes "temp_range t"
  shows "my_i2c_mcp9808_temp_signed_from_reg (my_i2c_mcp9808_temp_reg_from_signed t) = t"
proof -
  let ?r = "my_i2c_mcp9808_temp_reg_from_signed t"
  have r: "- 4096 \<le> t" "t < 4096" using assms by (simp_all add: temp_range_def)
  have t: "t mod 4096 = (if t < 0 then t + 4096 else t)"
  proof (cases "t < 0")
    case True
    have "t mod 4096 = (t + 4096) mod 4096" by (rule mod_add_self2 [symmetric])
    also have "\<dots> = t + 4096" by (rule mod_pos_pos_trivial) (use True r in linarith)+
    finally show ?thesis using True by simp
  next
    case False
    then show ?thesis using r by (simp add: mod_pos_pos_trivial)
  qed
  have u: "uint ?r = (if t < 0 then t + 8192 else t)" unfolding reg_from_signed_uint t by simp
  have "uint ?r mod 8192 = uint ?r" unfolding u by (rule mod_pos_pos_trivial) (use r in auto)
  then have b: "bit ?r 12 \<longleftrightarrow> t < 0" unfolding bit12_iff unfolding u using r by auto
  have "uint ?r = uint ?r mod 4096 + (if bit ?r 12 then 4096 else 0)"
    using mod_8192 [of ?r] \<open>uint ?r mod 8192 = uint ?r\<close> by simp
  then show ?thesis unfolding signed_from_reg_value b u by (auto split: if_splits)
qed

lemma and_1FFF: "uint (reg AND 0x1FFF :: u16) = uint reg mod 8192"
proof -
  have "uint (0x1FFF :: u16) = mask 13" by (simp add: mask_eq_exp_minus_1)
  then have "uint (reg AND 0x1FFF) = take_bit 13 (uint reg)"
    unfolding uint_and by (simp only: take_bit_eq_mask)
  then show ?thesis by (simp add: take_bit_eq_mod)
qed

lemma reg_signed_reg:
  "my_i2c_mcp9808_temp_reg_from_signed (my_i2c_mcp9808_temp_signed_from_reg reg) = reg AND 0x1FFF"
proof -
  have "my_i2c_mcp9808_temp_signed_from_reg reg mod 4096 = uint reg mod 4096"
    unfolding signed_from_reg_value by simp
  then have "uint (my_i2c_mcp9808_temp_reg_from_signed (my_i2c_mcp9808_temp_signed_from_reg reg)) = uint reg mod 8192"
    unfolding reg_from_signed_uint signed_from_reg_neg mod_8192 by simp
  then show ?thesis by (simp add: word_uint_eq_iff and_1FFF)
qed

interpretation temp_codec: codec my_i2c_mcp9808_temp_reg_from_signed my_i2c_mcp9808_temp_signed_from_reg
  temp_range "\<lambda>reg. reg AND 0x1FFF"
  by unfold_locales (simp_all add: signed_reg_signed reg_signed_reg signed_from_reg_range)

definition alert_bits :: "bool \<Rightarrow> bool \<Rightarrow> bool \<Rightarrow> u16" where
  "alert_bits lower upper critical =
     (if lower then MY_I2C_MCP9808_TEMP_LWR_BIT else 0) OR (if upper then MY_I2C_MCP9808_TEMP_UPR_BIT else 0) OR
     (if critical then MY_I2C_MCP9808_TEMP_CRT_BIT else 0)"

lemma alert_bits_masked: "(reg OR alert_bits l u c) AND 0x1FFF = reg AND 0x1FFF"
proof -
  have "alert_bits l u c AND 0x1FFF = 0"
    by (simp add: alert_bits_def MY_I2C_MCP9808_TEMP_LWR_BIT_def MY_I2C_MCP9808_TEMP_UPR_BIT_def MY_I2C_MCP9808_TEMP_CRT_BIT_def)
  then show ?thesis by (simp add: bit.conj_disj_distrib2)
qed

lemma decode_low_bits: "my_i2c_mcp9808_temp_signed_from_reg (reg AND 0x1FFF) = my_i2c_mcp9808_temp_signed_from_reg reg"
  by (rule temp_codec.dec_norm)

lemma decode_ignores_alerts:
  "my_i2c_mcp9808_temp_signed_from_reg (reg OR alert_bits l u c) = my_i2c_mcp9808_temp_signed_from_reg reg"
  by (metis decode_low_bits alert_bits_masked)

section \<open>Registers over I2C\<close>

definition be16 :: "u16 \<Rightarrow> u8 list" where
  "be16 v = [word_of_nat (unat v div 256), word_of_nat (unat v mod 256)]"

definition byteorder_contract :: "byteorder_api \<Rightarrow> bool" where
  [contract_defs]: "byteorder_contract B \<longleftrightarrow>
     (\<forall>v. sys_be16_to_cpu B (host16 B (be16 v)) = v) \<and> (\<forall>v. sys_put_be16 B v = be16 v)"

text \<open>A device with 16-bit registers, which are sent and received high byte first.\<close>

definition i2c_regs_contract :: "'w i2c_api \<Rightarrow> i2c_dt_spec \<Rightarrow> ('w \<Rightarrow> u8 \<Rightarrow> u16) \<Rightarrow> bool" where
  [contract_defs]: "i2c_regs_contract I spec regs \<longleftrightarrow>
     (\<forall>r buf w. \<exists>w'. i2c_write_read_dt I spec [r] buf w = (0, be16 (regs w r), w') \<and> regs w' = regs w) \<and>
     (\<forall>r v w. \<exists>w'. i2c_write_dt I spec (r # be16 v) w = (0, w') \<and> regs w' = (regs w)(r := v))"

lemma reg_read_regs:
  assumes "byteorder_contract B" and "i2c_regs_contract I (i2c cfg) regs"
  shows "\<exists>w'. my_i2c_mcp9808_reg_read B I cfg r v w = (0, regs w r, w') \<and> regs w' = regs w"
proof -
  from assms(2) obtain w' where "i2c_write_read_dt I (i2c cfg) [r] (host16_bytes B v) w = (0, be16 (regs w r), w')"
    "regs w' = regs w" unfolding i2c_regs_contract_def by blast
  with assms(1) show ?thesis by (simp add: my_i2c_mcp9808_reg_read_def byteorder_contract_def Let_def)
qed

lemma reg_write_regs:
  assumes "byteorder_contract B" and "i2c_regs_contract I (i2c cfg) regs"
  shows "\<exists>w'. my_i2c_mcp9808_reg_write_16bit B I cfg r v w = (0, w') \<and> regs w' = (regs w)(r := v)"
  using assms unfolding my_i2c_mcp9808_reg_write_16bit_def i2c_regs_contract_def byteorder_contract_def by simp

lemma signed_split:
  fixes t c q m s :: int
  assumes "0 \<le> q" "0 \<le> m" "m < 16" "t = s * (q * 16 + m)" "s = 1 \<or> s = - 1" "c = s * q" "- 4096 \<le> t" "t < 4096"
  shows "\<bar>t - c * 16\<bar> < 16 \<and> 0 \<le> c * (t - c * 16) \<and> - 256 \<le> c \<and> c < 256"
  using assms by (auto simp: zero_le_mult_iff)

lemma scaled_fraction:
  fixes r c :: int
  assumes "\<bar>r\<bar> < 16" and "0 \<le> c * r"
  shows "\<bar>r * 62500\<bar> < 1000000" and "0 \<le> c * (r * 62500)"
  using assms by (auto simp: zero_le_mult_iff)

lemma channel_get_value:
  assumes "asrt \<longrightarrow> chan = SENSOR_CHAN_AMBIENT_TEMP"
  shows "\<exists>v. my_i2c_mcp9808_channel_get asrt chan data = Inr (0, v) \<and>
     val1 v * 1000000 + val2 v = my_i2c_mcp9808_temp_signed_from_reg (reg_val data) * 62500 \<and>
     \<bar>val2 v\<bar> < 1000000 \<and> 0 \<le> val1 v * val2 v \<and> - 256 \<le> val1 v \<and> val1 v < 256"
proof -
  let ?t = "my_i2c_mcp9808_temp_signed_from_reg (reg_val data)"
  let ?v1 = "c_div ?t 16"
  let ?r = "?t - ?v1 * 16"
  have g: "my_i2c_mcp9808_channel_get asrt chan data = Inr (0, \<lparr>val1 = ?v1, val2 = c_div (?r * 1000000) 16\<rparr>)"
    using assms by (auto simp: my_i2c_mcp9808_channel_get_def MY_I2C_MCP9808_TEMP_SCALE_CEL_def Let_def)
  have rng: "- 4096 \<le> ?t" "?t < 4096" using signed_from_reg_range [of "reg_val data"] by (simp_all add: temp_range_def)
  have d: "c_div (r * 1000000) 16 = r * 62500" for r
  proof (cases "r < 0")
    case True
    have "- (r * 1000000) div 16 = (- r * 62500 * 16) div 16" by simp
    also have "\<dots> = - r * 62500" by (rule nonzero_mult_div_cancel_right) simp
    finally show ?thesis using True by (simp add: c_div_neg)
  next
    case False
    have "r * 1000000 div 16 = (r * 62500 * 16) div 16" by simp
    also have "\<dots> = r * 62500" by (rule nonzero_mult_div_cancel_right) simp
    finally show ?thesis using False by (simp add: c_div_nonneg)
  qed
  have q: "\<bar>?r\<bar> < 16 \<and> 0 \<le> ?v1 * ?r \<and> - 256 \<le> ?v1 \<and> ?v1 < 256"
  proof (cases "?t < 0")
    case True
    have v: "?v1 = - 1 * (- ?t div 16)" using True by (simp add: c_div_neg)
    have t: "?t = - 1 * (- ?t div 16 * 16 + - ?t mod 16)" by simp
    have p: "0 \<le> - ?t div 16" using True by (simp add: pos_imp_zdiv_nonneg_iff)
    show ?thesis by (rule signed_split [OF p _ _ t _ v rng]) simp_all
  next
    case False
    then have v: "?v1 = 1 * (?t div 16)" by (simp add: c_div_nonneg)
    have t: "?t = 1 * (?t div 16 * 16 + ?t mod 16)" by simp
    have p: "0 \<le> ?t div 16" using False by (simp add: pos_imp_zdiv_nonneg_iff)
    show ?thesis by (rule signed_split [OF p _ _ t _ v rng]) simp_all
  qed
  then have "\<bar>?r * 62500\<bar> < 1000000" "0 \<le> ?v1 * (?r * 62500)"
    using scaled_fraction [of ?r ?v1] by blast+
  moreover have "?v1 * 1000000 + ?r * 62500 = ?t * 62500" by (simp add: algebra_simps)
  ultimately show ?thesis using g q unfolding d by simp
qed

section \<open>Properties\<close>

text \<open>C16. The register codec: every temperature from -256 to just under 256 degrees (in
  sixteenths) survives encoding and decoding, whichever alert bits the sensor sets beside it, and
  any register value decodes to one in that range and encodes back to itself without its three
  alert bits.\<close>

theorem temp_codec_roundtrip:
  "(temp_range t \<longrightarrow>
     my_i2c_mcp9808_temp_signed_from_reg (my_i2c_mcp9808_temp_reg_from_signed t OR alert_bits lower upper critical) = t) \<and>
   temp_range (my_i2c_mcp9808_temp_signed_from_reg reg) \<and>
   my_i2c_mcp9808_temp_reg_from_signed (my_i2c_mcp9808_temp_signed_from_reg reg) = reg AND 0x1FFF"
  unfolding decode_ignores_alerts using temp_codec.dec_enc temp_codec.enc_dec temp_codec.dec_range by blast

text \<open>Reading a register after writing it gives what was written, and leaves the others.\<close>

lemma reg_write_read:
  assumes "byteorder_contract B" and "i2c_regs_contract I (i2c cfg) regs"
  shows "\<exists>w1 w2. my_i2c_mcp9808_reg_write_16bit B I cfg r v w = (0, w1) \<and>
     my_i2c_mcp9808_reg_read B I cfg r' old w1 = (0, if r' = r then v else regs w r', w2)"
proof -
  from reg_write_regs [OF assms] obtain w1 where
    w1: "my_i2c_mcp9808_reg_write_16bit B I cfg r v w = (0, w1)" "regs w1 = (regs w)(r := v)" by blast
  from reg_read_regs [OF assms, of r' old w1] w1 show ?thesis by auto
qed

section \<open>Witnesses\<close>

definition le_target :: byteorder_api where
  "le_target = \<lparr>host16_bytes = (\<lambda>v. rev (be16 v)),
     host16 = (\<lambda>bs. word_of_nat (unat (bs ! 0) + 256 * unat (bs ! 1))),
     sys_be16_to_cpu = (\<lambda>v. word_of_nat (unat v mod 256 * 256 + unat v div 256)), sys_put_be16 = be16\<rparr>"

definition reg_file :: "(u8 \<Rightarrow> u16) i2c_api" where
  "reg_file = \<lparr>i2c_write_read_dt = (\<lambda>spec bs buf w. (0, be16 (w (bs ! 0)), w)),
     i2c_write_dt = (\<lambda>spec bs w. (0, w(bs ! 0 := word_of_nat (256 * unat (bs ! 1) + unat (bs ! 2)))))\<rparr>"

lemma unat_of_nat_u16: "k < 65536 \<Longrightarrow> unat (word_of_nat k :: u16) = k"
  by (simp add: unat_of_nat take_bit_eq_mod)

lemma be16_bytes: "unat (be16 v ! 0) = unat v div 256" "unat (be16 v ! 1) = unat v mod 256"
proof -
  have "unat v < 65536" using unsigned_less [of v] by simp
  then show "unat (be16 v ! 0) = unat v div 256" "unat (be16 v ! 1) = unat v mod 256"
    by (simp_all add: be16_def unat_of_nat_u8)
qed

lemma le_target_contract: "byteorder_contract le_target"
proof -
  have "sys_be16_to_cpu le_target (host16 le_target (be16 v)) = v" for v
  proof -
    have "unat v < 65536" using unsigned_less [of v] by simp
    then have lt: "unat v div 256 < 256" "unat v mod 256 < 256" by simp_all
    have u: "unat (word_of_nat (unat v div 256 + 256 * (unat v mod 256)) :: u16) = unat v div 256 + 256 * (unat v mod 256)"
      by (rule unat_of_nat_u16) (use lt in linarith)
    have "(unat v div 256 + 256 * (unat v mod 256)) mod 256 = unat v div 256"
      "(unat v div 256 + 256 * (unat v mod 256)) div 256 = unat v mod 256" using lt by simp_all
    then have "sys_be16_to_cpu le_target (host16 le_target (be16 v)) = word_of_nat (unat v div 256 * 256 + unat v mod 256)"
      unfolding le_target_def byteorder_api.select_convs be16_bytes u by (simp only:)
    then show ?thesis by simp
  qed
  then show ?thesis by (simp add: byteorder_contract_def le_target_def)
qed

lemma reg_file_contract: "i2c_regs_contract reg_file spec id"
proof -
  have "word_of_nat (256 * unat (be16 v ! 0) + unat (be16 v ! 1)) = v" for v
    unfolding be16_bytes by simp
  then show ?thesis by (simp add: i2c_regs_contract_def reg_file_def)
qed

definition sensor_cfg :: my_i2c_mcp9808_config where
  "sensor_cfg = \<lparr>i2c = \<lparr>bus = 7, addr = 0x18\<rparr>, resolution = 3\<rparr>"

theorem temp_codec_roundtrip_witness:
  "my_i2c_mcp9808_temp_signed_from_reg (my_i2c_mcp9808_temp_reg_from_signed (- 40) OR alert_bits True False False) = - 40"
  using temp_codec_roundtrip [of "- 40"] by (simp add: temp_range_def)

end
