(* ===== verification/Main_Mcp9808.thy ===== *)
theory Main_Mcp9808
  imports Mcp9808 Board
begin

text \<open>
  The temperature thread, \<^verbatim>\<open>src/main_mcp9808.c\<close>: it prints a time-stamped sample every two
  seconds until the sensor fails; with the trigger configured it first sets an alert window
  around the temperature, and again at every alert.
\<close>

section \<open>Interfaces\<close>

datatype sensor_attribute = SENSOR_ATTR_LOWER_THRESH | SENSOR_ATTR_UPPER_THRESH

text \<open>
  The sensor subsystem of the kernel, and of the C library the output of \<open>printf\<close> and what its
  \<open>%g\<close> makes of a sensor value converted to a floating-point number.
\<close>

record 'w sensor_api =
  sensor_sample_fetch :: "dev \<Rightarrow> 'w \<Rightarrow> int \<times> 'w"
  sensor_channel_get :: "dev \<Rightarrow> sensor_channel \<Rightarrow> 'w \<Rightarrow> int \<times> sensor_value \<times> 'w"
  sensor_attr_set :: "dev \<Rightarrow> sensor_channel \<Rightarrow> sensor_attribute \<Rightarrow> sensor_value \<Rightarrow> 'w \<Rightarrow> int \<times> 'w"
  sensor_trigger_set :: "dev \<Rightarrow> sensor_channel \<Rightarrow> 'w \<Rightarrow> int \<times> 'w"
  c_printf :: "u8 list \<Rightarrow> 'w \<Rightarrow> 'w"
  fmt_g :: "sensor_value \<Rightarrow> u8 list"

section \<open>The time stamp\<close>

definition uptime_text :: "nat \<Rightarrow> u8 list" where
  "uptime_text now =
     (let ms = now mod 1000;
          now1 = now div 1000;
          s = now1 mod 60;
          now2 = now1 div 60;
          min = now2 mod 60;
          h = now2 div 60
      in dec h @ [58] @ pad0 2 (dec min) @ [58] @ pad0 2 (dec s) @ [46] @ pad0 3 (dec ms))"

text \<open>\<open>snprintf\<close> stores as much as fits before a NUL.\<close>

definition snprintf :: "u8 list \<Rightarrow> u8 list \<Rightarrow> u8 list" where
  "snprintf s buf =
     (let n = min (length s) (length buf - 1) in take n s @ [0] @ drop (n + 1) buf)"

text \<open>The static buffer of the function is part of the state.\<close>

definition now_str :: "'w kernel_api \<Rightarrow> u8 list \<times> 'w \<Rightarrow> u8 list \<times> 'w" where
  "now_str Z st =
     (case st of (buf, w) \<Rightarrow>
      case k_uptime_get_32 Z w of (now, w1) \<Rightarrow> (snprintf (uptime_text (unat now)) buf, w1))"

section \<open>The alert window\<close>

definition UCEL_PER_CEL :: int where "UCEL_PER_CEL = 1000000"
definition UCEL_PER_MCEL :: int where "UCEL_PER_MCEL = 1000"
definition TEMP_INITIAL_CEL :: int where "TEMP_INITIAL_CEL = 25"
definition TEMP_WINDOW_HALF_UCEL :: int where "TEMP_WINDOW_HALF_UCEL = 500000"

definition set_window :: "'w sensor_api \<Rightarrow> dev \<Rightarrow> sensor_value \<Rightarrow> 'w \<Rightarrow> int \<times> 'w" where
  "set_window S dev temp w =
     (let temp_ucel = val1 temp * UCEL_PER_CEL + val2 temp;
          low_ucel = temp_ucel - TEMP_WINDOW_HALF_UCEL;
          high_ucel = temp_ucel + TEMP_WINDOW_HALF_UCEL;
          lo = \<lparr>val1 = c_div low_ucel UCEL_PER_CEL, val2 = c_mod low_ucel UCEL_PER_CEL\<rparr>;
          (rc, w1) = sensor_attr_set S dev SENSOR_CHAN_AMBIENT_TEMP SENSOR_ATTR_LOWER_THRESH lo w;
          hi = \<lparr>val1 = c_div high_ucel UCEL_PER_CEL, val2 = c_mod high_ucel UCEL_PER_CEL\<rparr>;
          (rc2, w2) = (if rc = 0 then sensor_attr_set S dev SENSOR_CHAN_AMBIENT_TEMP SENSOR_ATTR_UPPER_THRESH hi w1
                       else (rc, w1))
      in (rc2, if rc2 = 0
               then c_printf S (ascii ''Alert on temp outside ['' @ fmt_d (c_div low_ucel UCEL_PER_MCEL) @
                      ascii '', '' @ fmt_d (c_div high_ucel UCEL_PER_MCEL) @ ascii ''] milli-Celsius'' @ [LF]) w2
               else w2))"

definition set_window_ucel :: "'w sensor_api \<Rightarrow> dev \<Rightarrow> int \<Rightarrow> 'w \<Rightarrow> int \<times> 'w" where
  "set_window_ucel S dev temp_ucel w =
     set_window S dev \<lparr>val1 = c_div temp_ucel UCEL_PER_CEL, val2 = c_mod temp_ucel UCEL_PER_CEL\<rparr> w"

text \<open>\<open>cnt\<close> is the static counter, a \<open>size_t\<close>, printed with \<open>%u\<close>.\<close>

definition trigger_handler :: "'w sensor_api \<Rightarrow> dev \<Rightarrow> nat \<times> 'w \<Rightarrow> nat \<times> 'w" where
  "trigger_handler S dev st =
     (case st of (cnt, w) \<Rightarrow>
      let cnt1 = (cnt + 1) mod 2 ^ 32;
          (rc, w1) = sensor_sample_fetch S dev w
      in if rc \<noteq> 0 then (cnt1, c_printf S (ascii ''sensor_sample_fetch error: '' @ fmt_d rc @ [LF]) w1)
         else case sensor_channel_get S dev SENSOR_CHAN_AMBIENT_TEMP w1 of (rc2, temp, w2) \<Rightarrow>
           if rc2 \<noteq> 0 then (cnt1, c_printf S (ascii ''sensor_channel_get error: '' @ fmt_d rc2 @ [LF]) w2)
           else
             let w3 = c_printf S (ascii ''trigger fired '' @ dec cnt1 @ ascii '', temp '' @ fmt_g S temp @
                        ascii '' deg C'' @ [LF]) w2
             in (cnt1, snd (set_window S dev temp w3)))"

section \<open>The thread\<close>

text \<open>One pass of the endless loop; \<open>False\<close> is its \<open>break\<close>.\<close>

definition sample_once ::
    "'w kernel_api \<Rightarrow> 'w sensor_api \<Rightarrow> dev \<Rightarrow> u8 list \<times> 'w \<Rightarrow> (bool \<times> u8 list \<times> 'w) checked" where
  "sample_once Z S dev st =
     (case st of (buf, w) \<Rightarrow>
      case sensor_sample_fetch S dev w of (rc, w1) \<Rightarrow>
      if rc \<noteq> 0 then Inr (False, buf, c_printf S (ascii ''sensor_sample_fetch error: '' @ fmt_d rc @ [LF]) w1)
      else case sensor_channel_get S dev SENSOR_CHAN_AMBIENT_TEMP w1 of (rc2, temp, w2) \<Rightarrow>
        if rc2 \<noteq> 0 then Inr (False, buf, c_printf S (ascii ''sensor_channel_get error: '' @ fmt_d rc2 @ [LF]) w2)
        else case now_str Z (buf, w2) of (buf1, w3) \<Rightarrow>
          sbind (cstr buf1) (\<lambda>t.
          Inr (True, buf1, k_sleep Z 2000 (c_printf S (t @ ascii '': '' @ fmt_g S temp @ ascii '' C'' @ [LF]) w3))))"

definition sample_loop ::
    "'w kernel_api \<Rightarrow> 'w sensor_api \<Rightarrow> dev \<Rightarrow> bool \<times> u8 list \<times> 'w \<Rightarrow> (bool \<times> u8 list \<times> 'w) outcome" where
  "sample_loop Z S dev = whileM (\<lambda>(run, st). (run, run, st)) (\<lambda>(run, st). Some (sample_once Z S dev st))"

text \<open>\<open>trigger\<close> is \<^verbatim>\<open>CONFIG_MCP9808_TRIGGER\<close>, \<open>name\<close> the device's name.\<close>

definition thread_mcp9808 ::
    "bool \<Rightarrow> 'w kernel_api \<Rightarrow> 'w sensor_api \<Rightarrow> dev option \<Rightarrow> u8 list \<Rightarrow> u8 list \<times> 'w \<Rightarrow> (u8 list \<times> 'w) outcome" where
  "thread_mcp9808 trigger Z S dev name st =
     (case st of (buf, w) \<Rightarrow>
      case dev of None \<Rightarrow> Some (Inr (buf, c_printf S (ascii ''Device not found.'' @ [LF]) w))
      | Some d \<Rightarrow>
        if \<not> device_is_ready Z d w
        then Some (Inr (buf, c_printf S (ascii ''Device '' @ name @ ascii '' is not ready.'' @ [LF]) w))
        else
          let (rc, w1) = (if \<not> trigger then (0, w)
                else case set_window_ucel S d (TEMP_INITIAL_CEL * UCEL_PER_CEL) w of (rc, w1) \<Rightarrow>
                  if rc = 0 then sensor_trigger_set S d SENSOR_CHAN_AMBIENT_TEMP w1 else (rc, w1))
          in if trigger \<and> rc \<noteq> 0
             then Some (Inr (buf, c_printf S (ascii ''Trigger set failed: '' @ fmt_d rc @ [LF]) w1))
             else
               let w2 = (if trigger then printk Z (ascii ''Trigger set got '' @ fmt_d rc @ [LF]) w1 else w1)
               in obind (sample_loop Z S d (True, buf, w2)) (\<lambda>(run, buf3, w3). Some (Inr (buf3, w3))))"

definition MCP9808_STACKSIZE :: nat where [simp]: "MCP9808_STACKSIZE = 1024"
definition MCP9808_PRIORITY :: nat where [simp]: "MCP9808_PRIORITY = 7"

definition main_mcp9808 :: "'w kernel_api \<Rightarrow> 'w \<Rightarrow> 'w" where
  "main_mcp9808 Z w =
     k_thread_start Z Thread_mcp9808_data (k_thread_create Z Thread_mcp9808_data Thread_mcp9808 MCP9808_STACKSIZE MCP9808_PRIORITY w)"

section \<open>Lemmas\<close>

lemma uptime_parts:
  fixes now :: nat
  shows "now div 1000 div 60 div 60 * 3600000 + now div 1000 div 60 mod 60 * 60000 +
     now div 1000 mod 60 * 1000 + now mod 1000 = now"
proof -
  have a: "now = now div 1000 * 1000 + now mod 1000" by simp
  have b: "now div 1000 = now div 1000 div 60 * 60 + now div 1000 mod 60" by simp
  have c: "now div 1000 div 60 = now div 1000 div 60 div 60 * 60 + now div 1000 div 60 mod 60" by simp
  have "x = q * 1000 + r \<Longrightarrow> q = q1 * 60 + r1 \<Longrightarrow> q1 = q2 * 60 + r2 \<Longrightarrow>
      q2 * 3600000 + r2 * 60000 + r1 * 1000 + r = x" for x q r q1 r1 q2 r2 :: nat by simp
  from this [OF a b c] show ?thesis .
qed

lemma pad0_length: "length ds \<le> k \<Longrightarrow> length (pad0 k ds) = k"
  by (simp add: pad0_def)

lemma pad0_no_zero: "0 \<notin> set ds \<Longrightarrow> 0 \<notin> set (pad0 k ds)"
  by (auto simp: pad0_def)

lemma uptime_text_length:
  assumes "now < 2 ^ 32"
  shows "length (uptime_text now) \<le> 14"
proof -
  have "now div 1000 div 60 div 60 = now div 3600000" by (simp add: div_mult2_eq [symmetric])
  moreover have "now div 3600000 < 10 ^ 4" using assms by (simp add: less_mult_imp_div_less)
  ultimately have h: "length (dec (now div 1000 div 60 div 60)) \<le> 4" by (intro dec_length) simp_all
  have m: "length (dec (x mod 60)) \<le> 2" for x by (intro dec_length) (simp_all add: order_less_trans [of _ 60])
  have ms: "length (dec (now mod 1000)) \<le> 3" by (intro dec_length) simp_all
  show ?thesis using h by (simp add: uptime_text_def Let_def pad0_length m ms)
qed

lemma uptime_text_no_zero: "0 \<notin> set (uptime_text now)"
  by (simp add: uptime_text_def Let_def dec_no_zero pad0_no_zero)

lemma now_str_text:
  assumes "length buf = 16" and "now_str Z (buf, w) = (buf', w')"
  shows "length buf' = 16 \<and> (\<exists>now w1. k_uptime_get_32 Z w = (now, w1) \<and> w' = w1 \<and> cstr buf' = Inr (uptime_text (unat now)))"
proof -
  obtain now w1 where k: "k_uptime_get_32 Z w = (now, w1)" by (cases "k_uptime_get_32 Z w")
  let ?t = "uptime_text (unat now)"
  have "unat now < 2 ^ 32" using unsigned_less [of now] by simp
  then have l: "length ?t \<le> 14" by (rule uptime_text_length)
  have "buf' = ?t @ 0 # drop (length ?t + 1) buf" and "w' = w1"
    using assms k l by (simp_all add: now_str_def snprintf_def Let_def min_absorb1 del: drop_Suc)
  with k l assms(1) show ?thesis
    by (simp add: cstr_terminated [OF uptime_text_no_zero] del: drop_Suc)
qed

text \<open>C's quotient and remainder put a value back together.\<close>

lemma c_mod_bound:
  assumes "0 < b"
  shows "\<bar>c_mod a b\<bar> < b \<and> 0 \<le> a * c_mod a b"
proof (cases "a < 0")
  case True
  then have "c_mod a b = a + (- a div b) * b" using assms by (simp add: c_mod_def c_div_neg)
  also have "\<dots> = - (- a mod b)" by (simp add: minus_div_mult_eq_mod [symmetric])
  finally have m: "c_mod a b = - (- a mod b)" .
  have "0 \<le> - a mod b" "- a mod b < b" using assms by simp_all
  with True show ?thesis unfolding m by (simp add: mult_nonpos_nonneg)
next
  case False
  then have "c_mod a b = a mod b" using assms by (simp add: c_mod_def c_div_nonneg minus_div_mult_eq_mod)
  with False assms show ?thesis by simp
qed

definition ucel :: "sensor_value \<Rightarrow> int" where
  "ucel v = val1 v * 1000000 + val2 v"

definition sensor_value_ok :: "sensor_value \<Rightarrow> bool" where
  "sensor_value_ok v \<longleftrightarrow> - 256 \<le> val1 v \<and> val1 v < 256 \<and> \<bar>val2 v\<bar> < 1000000"

lemma ucel_split: "ucel \<lparr>val1 = c_div x 1000000, val2 = c_mod x 1000000\<rparr> = x"
  by (simp add: ucel_def c_mod_def)

text \<open>The attributes that have been set.\<close>

definition attr_contract ::
    "'w sensor_api \<Rightarrow> dev \<Rightarrow> ('w \<Rightarrow> (sensor_attribute \<times> sensor_value) list) \<Rightarrow> bool" where
  [contract_defs]: "attr_contract S dev attrs \<longleftrightarrow>
     (\<forall>a v w. attrs (snd (sensor_attr_set S dev SENSOR_CHAN_AMBIENT_TEMP a v w)) =
        (if fst (sensor_attr_set S dev SENSOR_CHAN_AMBIENT_TEMP a v w) = 0 then attrs w @ [(a, v)] else attrs w)) \<and>
     (\<forall>bs. keeps (c_printf S bs) attrs)"

section \<open>The sampling loop\<close>

text \<open>
  What the thread relies on in a sensor: it has the readings \<open>readings w\<close> to come, a fetch
  takes the next one and holds it, or fails when there is none, and getting the channel answers
  the value of the reading that is held. Neither is seen in \<open>seen\<close>.
\<close>

locale sensor =
  fixes fetch :: "'w \<Rightarrow> int \<times> 'w"
    and get_channel :: "'w \<Rightarrow> int \<times> sensor_value \<times> 'w"
    and readings :: "'w \<Rightarrow> 'r list"
    and held :: "'w \<Rightarrow> 'r"
    and reading_value :: "'r \<Rightarrow> sensor_value"
    and seen :: "'w \<Rightarrow> 'b"
  assumes fetch_some: "readings w = r # rs \<Longrightarrow>
      \<exists>w'. fetch w = (0, w') \<and> held w' = r \<and> readings w' = rs \<and> seen w' = seen w"
    and fetch_none: "readings w = [] \<Longrightarrow> \<exists>rc w'. fetch w = (rc, w') \<and> rc \<noteq> 0 \<and> seen w' = seen w"
    and get_held: "\<exists>w'. get_channel w = (0, reading_value (held w), w') \<and> readings w' = readings w \<and> seen w' = seen w"
begin

lemma sample:
  assumes "readings w = r # rs"
  obtains w1 w2 where "fetch w = (0, w1)" "get_channel w1 = (0, reading_value r, w2)" "readings w2 = rs" "seen w2 = seen w"
proof -
  from fetch_some [OF assms] obtain w1 where
    1: "fetch w = (0, w1)" "held w1 = r" "readings w1 = rs" "seen w1 = seen w" by blast
  from get_held [of w1] 1 that show ?thesis by auto
qed

end

text \<open>The line printed for a value at an uptime.\<close>

definition sample_line :: "'w sensor_api \<Rightarrow> nat \<times> sensor_value \<Rightarrow> u8 list" where
  "sample_line S tv = uptime_text (fst tv) @ ascii '': '' @ fmt_g S (snd tv) @ ascii '' C'' @ [LF]"

text \<open>The thread's sensor is one of the subsystem; asking the time and sleeping are not seen, printing is.\<close>

locale sensor_printer =
  sensor "sensor_sample_fetch S dev" "sensor_channel_get S dev SENSOR_CHAN_AMBIENT_TEMP" readings held reading_value out
  for Z :: "'w kernel_api" and S :: "'w sensor_api" and dev :: dev and readings :: "'w \<Rightarrow> 'r list"
    and held :: "'w \<Rightarrow> 'r" and reading_value :: "'r \<Rightarrow> sensor_value" and out :: "'w \<Rightarrow> u8 list" +
  assumes uptime: "readings (snd (k_uptime_get_32 Z w)) = readings w" "out (snd (k_uptime_get_32 Z w)) = out w"
    and sleep: "readings (k_sleep Z 2000 w) = readings w" "out (k_sleep Z 2000 w) = out w"
    and print: "readings (c_printf S bs w) = readings w" "out (c_printf S bs w) = out w @ bs"
begin

lemma sample_once_run:
  assumes buf: "length buf = 16" and rd: "readings w = r # rs"
  shows "\<exists>buf' w' t. sample_once Z S dev (buf, w) = Inr (True, buf', w') \<and> length buf' = 16 \<and> readings w' = rs \<and>
     out w' = out w @ sample_line S (t, reading_value r)"
proof -
  from sample [OF rd] obtain w1 w2 where g: "sensor_sample_fetch S dev w = (0, w1)"
    "sensor_channel_get S dev SENSOR_CHAN_AMBIENT_TEMP w1 = (0, reading_value r, w2)" "readings w2 = rs" "out w2 = out w" .
  obtain buf1 w3 where n: "now_str Z (buf, w2) = (buf1, w3)" by (cases "now_str Z (buf, w2)")
  from now_str_text [OF buf n] obtain now where t: "length buf1 = 16" "k_uptime_get_32 Z w2 = (now, w3)"
    "cstr buf1 = Inr (uptime_text (unat now))" by blast
  have w3: "readings w3 = rs" "out w3 = out w" using uptime [of w2] t(2) g(3,4) by simp_all
  let ?line = "uptime_text (unat now) @ ascii '': '' @ fmt_g S (reading_value r) @ ascii '' C'' @ [LF]"
  from g n t w3 show ?thesis
    by (intro exI [of _ buf1] exI [of _ "k_sleep Z 2000 (c_printf S ?line w3)"] exI [of _ "unat now"])
      (simp add: sample_once_def sample_line_def sleep print)
qed

lemma sample_once_fails:
  assumes "readings w = []"
  shows "\<exists>w' rc. sample_once Z S dev (buf, w) = Inr (False, buf, w') \<and> rc \<noteq> 0 \<and>
     out w' = out w @ ascii ''sensor_sample_fetch error: '' @ fmt_d rc @ [LF]"
proof -
  from fetch_none [OF assms] obtain rc w1 where "sensor_sample_fetch S dev w = (rc, w1)" "rc \<noteq> 0" "out w1 = out w" by blast
  then show ?thesis by (auto simp: sample_once_def print)
qed

lemma sample_loop_run:
  assumes buf: "length buf = 16"
  shows "\<exists>buf' w' ts rc. sample_loop Z S dev (True, buf, w) = Some (Inr (False, buf', w')) \<and>
     length ts = length (readings w) \<and> rc \<noteq> 0 \<and>
     out w' = out w @ concat (map (sample_line S) (zip ts (map reading_value (readings w)))) @
       ascii ''sensor_sample_fetch error: '' @ fmt_d rc @ [LF]"
  using buf
proof (induction "readings w" arbitrary: buf w)
  case Nil
  from sample_once_fails [OF Nil.hyps [symmetric], of buf] obtain w' rc where
    o: "sample_once Z S dev (buf, w) = Inr (False, buf, w')" "rc \<noteq> 0"
    "out w' = out w @ ascii ''sensor_sample_fetch error: '' @ fmt_d rc @ [LF]" by blast
  have "sample_loop Z S dev (True, buf, w) = Some (Inr (False, buf, w'))"
    unfolding sample_loop_def by (subst whileM_go, simp, subst prod.case, simp add: o(1) whileM_stop)
  with o Nil.hyps show ?case by (intro exI [of _ buf] exI [of _ w'] exI [of _ "[]"] exI [of _ rc]) simp
next
  case (Cons r rs)
  from sample_once_run [OF Cons.prems Cons.hyps(2) [symmetric]] obtain buf1 w1 t where
    o: "sample_once Z S dev (buf, w) = Inr (True, buf1, w1)" "length buf1 = 16" "readings w1 = rs"
    "out w1 = out w @ sample_line S (t, reading_value r)" by blast
  from Cons.hyps(1) [OF o(3) [symmetric] o(2)] obtain buf' w' ts rc where
    n: "sample_loop Z S dev (True, buf1, w1) = Some (Inr (False, buf', w'))" "length ts = length (readings w1)" "rc \<noteq> 0"
    "out w' = out w1 @ concat (map (sample_line S) (zip ts (map reading_value (readings w1)))) @
       ascii ''sensor_sample_fetch error: '' @ fmt_d rc @ [LF]" by blast
  have "sample_loop Z S dev (True, buf, w) = sample_loop Z S dev (True, buf1, w1)"
    unfolding sample_loop_def by (rule whileM_step [where ?s1.0 = "(True, buf, w)"]) (simp_all add: o(1))
  with n o Cons.hyps(2) [symmetric] show ?case
    by (intro exI [of _ buf'] exI [of _ w'] exI [of _ "t # ts"] exI [of _ rc]) simp
qed

lemma thread_run:
  assumes "length buf = 16" and "device_is_ready Z dev w"
  shows "\<exists>buf' w' ts rc. thread_mcp9808 False Z S (Some dev) name (buf, w) = Some (Inr (buf', w')) \<and>
     length ts = length (readings w) \<and> rc \<noteq> 0 \<and>
     out w' = out w @ concat (map (sample_line S) (zip ts (map reading_value (readings w)))) @
       ascii ''sensor_sample_fetch error: '' @ fmt_d rc @ [LF]"
proof -
  from sample_loop_run [OF assms(1), of w] obtain buf' w' ts rc where
    "sample_loop Z S dev (True, buf, w) = Some (Inr (False, buf', w'))" "length ts = length (readings w)" "rc \<noteq> 0"
    "out w' = out w @ concat (map (sample_line S) (zip ts (map reading_value (readings w)))) @
       ascii ''sensor_sample_fetch error: '' @ fmt_d rc @ [LF]" by blast
  with assms(2) show ?thesis
    by (intro exI [of _ buf'] exI [of _ w'] exI [of _ ts] exI [of _ rc]) (simp add: thread_mcp9808_def)
qed

end

section \<open>Properties\<close>

text \<open>C33. The time stamp is never cut: for every uptime the static buffer holds a whole C string of
  at most 14 characters, and its hours, minutes, seconds and milliseconds, read back as
  numbers, add up to that uptime.\<close>

theorem now_str_exact:
  assumes "length buf = 16" and "now_str Z (buf, w) = (buf', w')"
  shows "\<exists>now h m s ms. k_uptime_get_32 Z w = (now, w') \<and>
     cstr buf' = Inr (dec h @ [58] @ pad0 2 (dec m) @ [58] @ pad0 2 (dec s) @ [46] @ pad0 3 (dec ms)) \<and>
     length (dec h @ [58] @ pad0 2 (dec m) @ [58] @ pad0 2 (dec s) @ [46] @ pad0 3 (dec ms)) \<le> 14 \<and>
     m < 60 \<and> s < 60 \<and> ms < 1000 \<and>
     undec (dec h) * 3600000 + undec (pad0 2 (dec m)) * 60000 + undec (pad0 2 (dec s)) * 1000 +
       undec (pad0 3 (dec ms)) = unat now"
proof -
  from now_str_text [OF assms] obtain now where n: "k_uptime_get_32 Z w = (now, w')"
    "cstr buf' = Inr (uptime_text (unat now))" by blast
  have "unat now < 2 ^ 32" using unsigned_less [of now] by simp
  then have "length (uptime_text (unat now)) \<le> 14" by (rule uptime_text_length)
  with n show ?thesis
    using uptime_parts [of "unat now"] unfolding uptime_text_def Let_def
    by (intro exI conjI) (assumption | simp)+
qed

text \<open>C34. The alert window: for any temperature the driver can report the two thresholds are set to
  exactly half a degree below and above it, lower first, the upper only if the lower was
  accepted, and none of the sums leaves the range of an \<^verbatim>\<open>int\<close>.\<close>

theorem set_window_thresholds:
  assumes "attr_contract S dev attrs" and "sensor_value_ok temp" and "set_window S dev temp w = (rc, w')"
  shows "\<exists>lo hi. ucel lo = ucel temp - 500000 \<and> ucel hi = ucel temp + 500000 \<and>
     \<bar>val2 lo\<bar> < 1000000 \<and> \<bar>val2 hi\<bar> < 1000000 \<and>
     attrs w' = attrs w @ (if rc = 0 then [(SENSOR_ATTR_LOWER_THRESH, lo), (SENSOR_ATTR_UPPER_THRESH, hi)]
       else if attrs w' = attrs w then [] else [(SENSOR_ATTR_LOWER_THRESH, lo)]) \<and>
     int32_range (ucel temp) \<and> int32_range (ucel lo) \<and> int32_range (ucel hi)"
proof -
  let ?x = "ucel temp"
  let ?lo = "\<lparr>val1 = c_div (?x - 500000) 1000000, val2 = c_mod (?x - 500000) 1000000\<rparr>"
  let ?hi = "\<lparr>val1 = c_div (?x + 500000) 1000000, val2 = c_mod (?x + 500000) 1000000\<rparr>"
  have u: "ucel ?lo = ?x - 500000" "ucel ?hi = ?x + 500000" by (rule ucel_split)+
  have b: "\<bar>val2 ?lo\<bar> < 1000000" "\<bar>val2 ?hi\<bar> < 1000000"
    using c_mod_bound [of 1000000 "?x - 500000"] c_mod_bound [of 1000000 "?x + 500000"] by simp_all
  have r: "int32_range ?x" "int32_range (?x - 500000)" "int32_range (?x + 500000)"
    using assms(2) by (auto simp: ucel_def sensor_value_ok_def int32_range_def)
  obtain r1 w1 where a: "sensor_attr_set S dev SENSOR_CHAN_AMBIENT_TEMP SENSOR_ATTR_LOWER_THRESH ?lo w = (r1, w1)"
    by (cases "sensor_attr_set S dev SENSOR_CHAN_AMBIENT_TEMP SENSOR_ATTR_LOWER_THRESH ?lo w")
  obtain r2 w2 where c: "sensor_attr_set S dev SENSOR_CHAN_AMBIENT_TEMP SENSOR_ATTR_UPPER_THRESH ?hi w1 = (r2, w2)"
    by (cases "sensor_attr_set S dev SENSOR_CHAN_AMBIENT_TEMP SENSOR_ATTR_UPPER_THRESH ?hi w1")
  have set: "attrs (snd (sensor_attr_set S dev SENSOR_CHAN_AMBIENT_TEMP k v z)) =
      (if fst (sensor_attr_set S dev SENSOR_CHAN_AMBIENT_TEMP k v z) = 0 then attrs z @ [(k, v)] else attrs z)" for k v z
    using assms(1) unfolding attr_contract_def by blast
  have pf: "attrs (c_printf S bs z) = attrs z" for bs z
    using assms(1) unfolding attr_contract_def keeps_def by blast
  have w1: "attrs w1 = (if r1 = 0 then attrs w @ [(SENSOR_ATTR_LOWER_THRESH, ?lo)] else attrs w)"
    and w2: "attrs w2 = (if r2 = 0 then attrs w1 @ [(SENSOR_ATTR_UPPER_THRESH, ?hi)] else attrs w1)"
    using set [of SENSOR_ATTR_LOWER_THRESH ?lo w] set [of SENSOR_ATTR_UPPER_THRESH ?hi w1] a c by simp_all
  have x: "val1 temp * 1000000 + val2 temp = ?x" by (simp add: ucel_def)
  have "rc = (if r1 = 0 then r2 else r1) \<and> attrs w' = (if r1 = 0 then attrs w2 else attrs w1)"
    using assms(3) a c
    by (auto simp: set_window_def Let_def UCEL_PER_CEL_def TEMP_WINDOW_HALF_UCEL_def x pf split: if_splits)
  with w1 w2 have "attrs w' = attrs w @ (if rc = 0 then [(SENSOR_ATTR_LOWER_THRESH, ?lo), (SENSOR_ATTR_UPPER_THRESH, ?hi)]
       else if attrs w' = attrs w then [] else [(SENSOR_ATTR_LOWER_THRESH, ?lo)])"
    by (auto split: if_splits)
  with u b r show ?thesis by (intro exI [of _ ?lo] exI [of _ ?hi]) simp
qed

section \<open>Witnesses\<close>

definition attr_log :: "(sensor_attribute \<times> sensor_value) list sensor_api" where
  "attr_log =
     \<lparr>sensor_sample_fetch = (\<lambda>d w. (0, w)), sensor_channel_get = (\<lambda>d c w. (0, \<lparr>val1 = 0, val2 = 0\<rparr>, w)),
      sensor_attr_set = (\<lambda>d c a v w. (0, w @ [(a, v)])), sensor_trigger_set = (\<lambda>d c w. (0, w)),
      c_printf = (\<lambda>bs w. w), fmt_g = (\<lambda>v. [])\<rparr>"

theorem now_str_exact_witness:
  "\<exists>buf' w'. now_str board_kernel (replicate 16 0, board0) = (buf', w') \<and> cstr buf' \<noteq> Inl OOB_read"
proof -
  obtain buf' w' where n: "now_str board_kernel (replicate 16 0, board0) = (buf', w')"
    by (cases "now_str board_kernel (replicate 16 0, board0)")
  from now_str_exact [OF _ n] have "cstr buf' \<noteq> Inl OOB_read" by auto
  with n show ?thesis by blast
qed

theorem set_window_thresholds_witness:
  "\<exists>lo hi. snd (set_window attr_log 6 \<lparr>val1 = - 1, val2 = - 250000\<rparr> []) =
       [(SENSOR_ATTR_LOWER_THRESH, lo), (SENSOR_ATTR_UPPER_THRESH, hi)] \<and>
     ucel lo = - 1750000 \<and> ucel hi = - 750000"
proof -
  have a: "attr_contract attr_log 6 id" by (simp add: attr_contract_def attr_log_def keeps_def)
  have v: "sensor_value_ok \<lparr>val1 = - 1, val2 = - 250000\<rparr>" by (simp add: sensor_value_ok_def)
  obtain rc w' where w: "set_window attr_log 6 \<lparr>val1 = - 1, val2 = - 250000\<rparr> [] = (rc, w')"
    by (cases "set_window attr_log 6 \<lparr>val1 = - 1, val2 = - 250000\<rparr> []")
  then have "rc = 0" by (auto simp: set_window_def attr_log_def Let_def)
  with set_window_thresholds [OF a v w] w show ?thesis by (auto simp: ucel_def)
qed

end
