(* ===== verification/Queue_Thread.thy ===== *)
theory Queue_Thread
  imports Zephyr Traces
begin

text \<open>
  A thread that waits for messages in a queue and prints them, beside whatever puts them
  there: the shape of the echo bot and of the application thread. The interfaces
  \<open>printing_thread\<close> and \<open>queue_thread\<close> say what the thread's two steps and the producer do;
  what follows for the thread alone and for every interleaving is proved here, once.
\<close>

section \<open>Interleavings\<close>

text \<open>
  The state has the thread's variable for a message with whether it is inside the body of its
  loop, the producer's state, of which the queue is a part, and the world. The producer runs
  to its end; the thread can be interrupted between taking a message and printing it.
\<close>

type_synonym ('m, 's, 'w) thread_state = "bool \<times> 'm \<times> 's \<times> 'w"

datatype 'p thread_event = Produce 'p | Take | Print | Quiet

inductive q_step ::
    "('s \<times> 'w \<Rightarrow> 'p \<Rightarrow> 's \<times> 'w \<Rightarrow> bool) \<Rightarrow> ('m \<times> 'q \<times> 'w \<Rightarrow> bool \<times> 'm \<times> 'q \<times> 'w) \<Rightarrow>
     ('m \<times> 'q \<times> 'w \<Rightarrow> ('m \<times> 'q \<times> 'w) checked) \<Rightarrow> ('s \<Rightarrow> 'q) \<Rightarrow> ('q \<Rightarrow> 's \<Rightarrow> 's) \<Rightarrow> ('w \<Rightarrow> u8 list) \<Rightarrow>
     ('m, 's, 'w) thread_state \<Rightarrow> 'p thread_event \<Rightarrow> ('m, 's, 'w) thread_state \<Rightarrow> bool"
  for prd tak prn queue_of set_queue out where
  produced: "prd (s, w) p (s', w') \<Longrightarrow>
     q_step prd tak prn queue_of set_queue out (busy, b, s, w) (Produce p) (busy, b, s', w')"
| taken: "tak (b, queue_of s, w) = (True, b', q', w') \<Longrightarrow>
     q_step prd tak prn queue_of set_queue out (False, b, s, w) Take (True, b', set_queue q' s, w')"
| printed: "prn (b, queue_of s, w) = Inr (b', q', w') \<Longrightarrow>
     q_step prd tak prn queue_of set_queue out (True, b, s, w) Print (False, b', set_queue q' s, w')"
| quiet: "out w' = out w \<Longrightarrow>
     q_step prd tak prn queue_of set_queue out (busy, b, s, w) Quiet (busy, b, s, w')"

inductive_cases q_step_produceE [elim]: "q_step prd tak prn queue_of set_queue out st (Produce p) st'"
inductive_cases q_step_takeE [elim]: "q_step prd tak prn queue_of set_queue out st Take st'"
inductive_cases q_step_printE [elim]: "q_step prd tak prn queue_of set_queue out st Print st'"

text \<open>A full queue drops what does not fit, from the first message on that does not.\<close>

lemma fold_put_sub:
  "\<exists>new. fold (put_upto cap) ls q = q @ new \<and> subseq new ls \<and> (length q + length ls \<le> cap \<longrightarrow> new = ls)"
proof (induction ls arbitrary: q)
  case Nil
  then show ?case by simp
next
  case (Cons l ls)
  show ?case
  proof (cases "length q < cap")
    case True
    from Cons.IH [of "q @ [l]"] obtain new where "fold (put_upto cap) ls (q @ [l]) = (q @ [l]) @ new" "subseq new ls"
      "length (q @ [l]) + length ls \<le> cap \<longrightarrow> new = ls" by blast
    moreover have "put_upto cap l q = q @ [l]" using True by (simp add: put_upto_def)
    ultimately show ?thesis by (intro exI [of _ "l # new"]) simp
  next
    case False
    from Cons.IH [of q] obtain new where "fold (put_upto cap) ls q = q @ new" "subseq new ls" by blast
    moreover have "put_upto cap l q = q" using False by (simp add: put_upto_def)
    ultimately show ?thesis using False by (intro exI [of _ new]) auto
  qed
qed

section \<open>The interfaces\<close>

text \<open>
  The thread: \<open>msgs\<close> are the messages of a queue, \<open>good\<close> those that can be printed, \<open>shown m\<close>
  what is printed of one and \<open>line\<close> how.
\<close>

locale printing_thread =
  fixes tak :: "'m \<times> 'q \<times> 'w \<Rightarrow> bool \<times> 'm \<times> 'q \<times> 'w"
    and prn :: "'m \<times> 'q \<times> 'w \<Rightarrow> ('m \<times> 'q \<times> 'w) checked"
    and out :: "'w \<Rightarrow> u8 list" and msgs :: "'q \<Rightarrow> 'm list"
    and good :: "'m \<Rightarrow> bool" and shown :: "'m \<Rightarrow> 't" and line :: "'t \<Rightarrow> u8 list"
  assumes take_message: "msgs q = m # ms \<Longrightarrow> \<exists>q'. tak (b, q, w) = (True, m, q', w) \<and> msgs q' = ms"
    and take_empty: "msgs q = [] \<Longrightarrow> \<exists>q'. tak (b, q, w) = (False, b, q', w) \<and> msgs q' = []"
    and print_message: "good m \<Longrightarrow> \<exists>w'. prn (m, q, w) = Inr (m, q, w') \<and> out w' = out w @ line (shown m)"
begin

text \<open>The thread alone: its loop prints what is queued and returns when the queue is empty.\<close>

lemma loop_run:
  assumes "list_all good (msgs q)"
  shows "\<exists>b' q' w'. whileM tak (\<lambda>st. Some (prn st)) (b, q, w) = Some (Inr (b', q', w')) \<and> msgs q' = [] \<and>
    out w' = out w @ concat (map line (map shown (msgs q)))"
  using assms
proof (induction "msgs q" arbitrary: b q w)
  case Nil
  then obtain q' where "tak (b, q, w) = (False, b, q', w)" "msgs q' = []" using take_empty [of q b w] by auto
  then have "whileM tak (\<lambda>st. Some (prn st)) (b, q, w) = Some (Inr (b, q', w))" by (simp add: whileM_stop)
  with \<open>msgs q' = []\<close> Nil show ?case by simp
next
  case (Cons m ms)
  from take_message [OF Cons.hyps(2) [symmetric], of b w] obtain q1 where
    t: "tak (b, q, w) = (True, m, q1, w)" "msgs q1 = ms" by blast
  from Cons.prems Cons.hyps(2) [symmetric] have g: "good m" "list_all good (msgs q1)" by (simp_all add: t(2))
  from print_message [OF g(1), of q1 w] obtain w1 where
    p: "prn (m, q1, w) = Inr (m, q1, w1)" "out w1 = out w @ line (shown m)" by blast
  from Cons.hyps(1) [OF _ g(2), of m w1] t(2) obtain b' q' w' where
    r: "whileM tak (\<lambda>st. Some (prn st)) (m, q1, w1) = Some (Inr (b', q', w'))" "msgs q' = []"
      "out w' = out w1 @ concat (map line (map shown ms))" by auto
  have "whileM tak (\<lambda>st. Some (prn st)) (b, q, w) = whileM tak (\<lambda>st. Some (prn st)) (m, q1, w1)"
    using whileM_step [of tak "(b, q, w)" "(m, q1, w)" "\<lambda>st. Some (prn st)" "(m, q1, w1)"] t(1) p(1) by simp
  with r p(2) show ?case by (simp add: Cons.hyps(2) [symmetric])
qed

end

text \<open>
  With its producer: \<open>items p\<close> is what the producer puts in when \<open>p\<close> happens, as far as there is
  room, \<open>inv\<close> its invariant.
\<close>

locale queue_thread = printing_thread tak prn out msgs good shown line
  for tak :: "'m \<times> 'q \<times> 'w \<Rightarrow> bool \<times> 'm \<times> 'q \<times> 'w" and prn and out :: "'w \<Rightarrow> u8 list" and msgs :: "'q \<Rightarrow> 'm list"
    and good :: "'m \<Rightarrow> bool" and shown :: "'m \<Rightarrow> 't" and line +
  fixes prd :: "'s \<times> 'w \<Rightarrow> 'p \<Rightarrow> 's \<times> 'w \<Rightarrow> bool"
    and queue_of :: "'s \<Rightarrow> 'q" and set_queue :: "'q \<Rightarrow> 's \<Rightarrow> 's" and cap :: nat
    and inv :: "'s \<Rightarrow> bool" and items :: "'p \<Rightarrow> 't list"
  assumes produce: "inv s \<Longrightarrow> list_all good (msgs (queue_of s)) \<Longrightarrow> prd (s, w) p (s', w') \<Longrightarrow>
      inv s' \<and> list_all good (msgs (queue_of s')) \<and> out w' = out w \<and>
      map shown (msgs (queue_of s')) = fold (put_upto cap) (items p) (map shown (msgs (queue_of s)))"
    and queue_set: "queue_of (set_queue q s) = q"
    and inv_set: "inv s \<Longrightarrow> inv (set_queue q s)"
begin

definition ok :: "('m, 's, 'w) thread_state \<Rightarrow> bool" where
  "ok st = (case st of (busy, b, s, w) \<Rightarrow> inv s \<and> list_all good (msgs (queue_of s)) \<and> (busy \<longrightarrow> good b))"

definition under_way :: "('m, 's, 'w) thread_state \<Rightarrow> 't list" where
  "under_way st = (case st of (busy, b, s, w) \<Rightarrow> (if busy then [shown b] else []) @ map shown (msgs (queue_of s)))"

definition printed_of :: "('m, 's, 'w) thread_state \<Rightarrow> u8 list" where
  "printed_of st = (case st of (busy, b, s, w) \<Rightarrow> out w)"

fun event_items :: "'p thread_event \<Rightarrow> 't list" where
  "event_items (Produce p) = items p"
| "event_items e = []"

lemma step_effect:
  assumes "ok st" and step: "q_step prd tak prn queue_of set_queue out st e st'"
  shows "ok st' \<and> (\<exists>ms. printed_of st' = printed_of st @ concat (map line ms) \<and>
    subseq (ms @ under_way st') (under_way st @ event_items e) \<and>
    (length (under_way st) + length (event_items e) \<le> cap \<longrightarrow> ms @ under_way st' = under_way st @ event_items e))"
  using step
proof cases
  case (produced s w p s' w' busy b)
  from produced(1) assms(1) have i: "inv s" "list_all good (msgs (queue_of s))" "busy \<longrightarrow> good b" by (simp_all add: ok_def)
  from produce [OF i(1,2) produced(4)] have
    r: "inv s'" "list_all good (msgs (queue_of s'))" "out w' = out w"
      "map shown (msgs (queue_of s')) = fold (put_upto cap) (items p) (map shown (msgs (queue_of s)))" by simp_all
  obtain new where n: "fold (put_upto cap) (items p) (map shown (msgs (queue_of s))) = map shown (msgs (queue_of s)) @ new"
    "subseq new (items p)" "length (map shown (msgs (queue_of s))) + length (items p) \<le> cap \<longrightarrow> new = items p"
    using fold_put_sub by blast
  have "subseq (under_way st') (under_way st @ items p)"
    unfolding produced(1,3) under_way_def prod.case r(4) n(1) append_assoc
    by (intro list_emb_append_mono subseq_order.refl n(2))
  with r n i(3) produced(1-3) show ?thesis
    by (intro conjI exI [of _ "[]"]) (simp_all add: ok_def under_way_def printed_of_def)
next
  case (taken b s w b' q' w')
  have "msgs (queue_of s) \<noteq> []"
  proof
    assume "msgs (queue_of s) = []"
    from take_empty [OF this, of b w] taken(4) show False by simp
  qed
  then obtain m ms where q: "msgs (queue_of s) = m # ms" by (cases "msgs (queue_of s)") auto
  from take_message [OF this, of b w] taken q assms(1) show ?thesis
    by (intro conjI exI [of _ "[]"]) (auto simp: ok_def under_way_def printed_of_def queue_set inv_set)
next
  case (printed b s w b' q' w')
  with assms(1) have "good b" by (simp add: ok_def)
  from print_message [OF this, of "queue_of s" w] printed assms(1) show ?thesis
    by (intro conjI exI [of _ "[shown b]"]) (auto simp: ok_def under_way_def printed_of_def queue_set inv_set)
next
  case (quiet w' w busy b s)
  with assms(1) show ?thesis
    by (intro conjI exI [of _ "[]"]) (auto simp: ok_def under_way_def printed_of_def)
qed

sublocale relay: relay_line "q_step prd tak prn queue_of set_queue out" ok printed_of line under_way event_items "\<lambda>n. n \<le> cap"
proof
  fix s t :: "('m, 's, 'w) thread_state" and e assume "ok s" "q_step prd tak prn queue_of set_queue out s e t"
  from step_effect [OF this] show "ok t" and
    "\<exists>ms. printed_of t = printed_of s @ concat (map line ms) \<and> subseq (ms @ under_way t) (under_way s @ event_items e) \<and>
       (length (under_way s) + length (event_items e) \<le> cap \<longrightarrow> ms @ under_way t = under_way s @ event_items e)" by blast+
qed simp

lemmas trace_ok = relay.run_ok
lemmas trace_relays = relay.relay_run

text \<open>At its condition the thread, left alone, prints all that is queued.\<close>

lemma drains:
  assumes "ok (False, b, s, w)"
  shows "\<exists>b' s' w'. run (q_step prd tak prn queue_of set_queue out) (False, b, s, w)
       (concat (replicate (length (msgs (queue_of s))) [Take, Print])) (False, b', s', w') \<and>
     msgs (queue_of s') = [] \<and> out w' = out w @ concat (map line (map shown (msgs (queue_of s))))"
  using assms
proof (induction "msgs (queue_of s)" arbitrary: b s w)
  case Nil
  then show ?case by (intro exI [of _ b] exI [of _ s] exI [of _ w]) (simp add: Nil.hyps [symmetric])
next
  case (Cons m ms)
  let ?step = "q_step prd tak prn queue_of set_queue out"
  from take_message [OF Cons.hyps(2) [symmetric], of b w] obtain q1 where
    t: "tak (b, queue_of s, w) = (True, m, q1, w)" "msgs q1 = ms" by blast
  let ?s = "set_queue q1 s" and ?s' = "set_queue q1 (set_queue q1 s)"
  have m: "good m" using Cons.prems Cons.hyps(2) [symmetric] by (simp add: ok_def)
  from print_message [OF m, of q1 w] obtain w1 where
    p: "prn (m, queue_of ?s, w) = Inr (m, q1, w1)" "out w1 = out w @ line (shown m)" by (auto simp: queue_set)
  have "?step (False, b, s, w) Take (True, m, ?s, w)" by (rule q_step.taken) (rule t(1))
  moreover have "?step (True, m, ?s, w) Print (False, m, ?s', w1)" by (rule q_step.printed) (rule p(1))
  ultimately have a: "run ?step (False, b, s, w) [Take, Print] (False, m, ?s', w1)" by (rule run_pair)
  have "ok (False, m, ?s', w1)" using Cons.prems Cons.hyps(2) [symmetric] t(2) by (simp add: ok_def queue_set inv_set)
  from Cons.hyps(1) [OF _ this] t(2) obtain b' s' w' where
    r: "run ?step (False, m, ?s', w1) (concat (replicate (length ms) [Take, Print])) (False, b', s', w')"
      "msgs (queue_of s') = []" "out w' = out w1 @ concat (map line (map shown ms))" by (auto simp: queue_set)
  from run_append [OF r(1) a] r(2,3) p(2) show ?case
    by (intro exI [of _ b'] exI [of _ s'] exI [of _ w']) (simp add: Cons.hyps(2) [symmetric])
qed

end

end
