(* ===== verification/Main_App.thy ===== *)
theory Main_App
  imports Board Queue_Thread
begin

text \<open>
  The application thread, \<^verbatim>\<open>src/main_app.c\<close>: messages of up to 64 bytes with a size and a
  type, put in a queue by \<open>send_app\<close> and printed by the thread.
\<close>

section \<open>State and operations\<close>

definition MSG_BODY_SIZE :: nat where "MSG_BODY_SIZE = 64"

record data_item_with_size_and_type =
  item_size :: nat
  item_type :: u16
  item_data :: "u8 list"

definition send_app ::
    "'w kernel_api \<Rightarrow> (data_item_with_size_and_type, 'q) msgq_api \<Rightarrow> u8 list \<Rightarrow> nat \<Rightarrow> u16 \<Rightarrow> 'q \<times> 'w \<Rightarrow>
     ('q \<times> 'w) checked" where
  "send_app Z M data len typ st =
     (case st of (q, w) \<Rightarrow>
      if len > MSG_BODY_SIZE then Inr (q, printk Z (ascii ''send_app, size over, drop'') w)
      else
        let tx_buf = \<lparr>item_size = len, item_type = typ, item_data = replicate MSG_BODY_SIZE 0\<rparr>
        in sbind (memcpy 0 data len (item_data tx_buf)) (\<lambda>body.
           Inr (snd (k_msgq_put M (tx_buf\<lparr>item_data := body\<rparr>) q), w)))"

text \<open>\<open>%s\<close> reads on to a NUL, which nothing puts behind the 64 bytes of \<open>data\<close>.\<close>

definition recv_app :: "'w kernel_api \<Rightarrow> u8 list \<Rightarrow> nat \<Rightarrow> u16 \<Rightarrow> 'w \<Rightarrow> 'w checked" where
  "recv_app Z data len typ w =
     (let w1 = printk Z (ascii ''recv_app, size '' @ fmt_d (int len) @ ascii '', type '' @
                 fmt_d (uint typ) @ [LF]) w
      in sbind (cstr data) (\<lambda>s. Inr (printk Z (ascii ''recv_app, data = '' @ s @ [LF]) w1)))"

text \<open>\<open>rx_buf\<close>: what the thread's stack variable holds before the first message.\<close>

definition app_take ::
    "(data_item_with_size_and_type, 'q) msgq_api \<Rightarrow> data_item_with_size_and_type \<times> 'q \<times> 'w \<Rightarrow>
     bool \<times> data_item_with_size_and_type \<times> 'q \<times> 'w" where
  "app_take M st =
     (case st of (rx_buf, q, w) \<Rightarrow>
      case k_msgq_get M q of (r, m, q1) \<Rightarrow> (r = 0, if r = 0 then m else rx_buf, q1, w))"

definition app_print ::
    "'w kernel_api \<Rightarrow> data_item_with_size_and_type \<times> 'q \<times> 'w \<Rightarrow> (data_item_with_size_and_type \<times> 'q \<times> 'w) checked" where
  "app_print Z st =
     (case st of (rx_buf, q, w) \<Rightarrow>
      sbind (recv_app Z (item_data rx_buf) (item_size rx_buf) (item_type rx_buf) w) (\<lambda>w1. Inr (rx_buf, q, w1)))"

definition thread_app ::
    "'w kernel_api \<Rightarrow> (data_item_with_size_and_type, 'q) msgq_api \<Rightarrow> data_item_with_size_and_type \<times> 'q \<times> 'w \<Rightarrow>
     (data_item_with_size_and_type \<times> 'q \<times> 'w) outcome" where
  "thread_app Z M = whileM (app_take M) (\<lambda>st. Some (app_print Z st))"

definition APP_STACKSIZE :: nat where [simp]: "APP_STACKSIZE = 1024"
definition APP_PRIORITY :: nat where [simp]: "APP_PRIORITY = 7"

definition main_app :: "'w kernel_api \<Rightarrow> 'w \<Rightarrow> 'w" where
  "main_app Z w =
     k_thread_start Z Thread_app_data (k_thread_create Z Thread_app_data Thread_app APP_STACKSIZE APP_PRIORITY w)"

section \<open>Sending and printing\<close>

text \<open>The item that \<open>send_app\<close> queues, and what the thread prints of one.\<close>

definition app_item :: "u8 list \<Rightarrow> u16 \<Rightarrow> data_item_with_size_and_type" where
  "app_item bs typ = \<lparr>item_size = length bs, item_type = typ,
     item_data = bs @ replicate (MSG_BODY_SIZE - length bs) 0\<rparr>"

definition app_line :: "data_item_with_size_and_type \<Rightarrow> u8 list" where
  "app_line m = ascii ''recv_app, size '' @ fmt_d (int (item_size m)) @ ascii '', type '' @
     fmt_d (uint (item_type m)) @ [LF] @ ascii ''recv_app, data = '' @
     takeWhile (\<lambda>c. c \<noteq> 0) (item_data m) @ [LF]"

lemma send_app_fits:
  assumes "length bs \<le> MSG_BODY_SIZE"
  shows "send_app Z M bs (length bs) typ (q, w) = Inr (snd (k_msgq_put M (app_item bs typ) q), w)"
  using assms by (simp add: send_app_def app_item_def mem_simps Let_def)

lemma recv_app_prints:
  assumes "printk_out_contract Z out" and "0 \<in> set (item_data m)"
  shows "\<exists>w'. recv_app Z (item_data m) (item_size m) (item_type m) w = Inr w' \<and> out w' = out w @ app_line m"
  using assms by (simp add: recv_app_def cstr_def printk_out_contract_def app_line_def Let_def)

lemma app_prints:
  assumes Z: "printk_out_contract Z out" and M: "msgq_get_contract M msgs"
  shows "printing_thread (app_take M) (app_print Z) out msgs (\<lambda>m. 0 \<in> set (item_data m)) (\<lambda>m. m) app_line"
proof
  show "\<exists>q'. app_take M (b, q, w) = (True, m, q', w) \<and> msgs q' = ms" if "msgs q = m # ms" for b q w m ms
    using M that by (rule msgq_get_contract_message) (simp add: app_take_def)
  show "\<exists>q'. app_take M (b, q, w) = (False, b, q', w) \<and> msgs q' = []" if "msgs q = []" for b q w
    using M that by (rule msgq_get_contract_empty) (simp add: app_take_def)
  show "\<exists>w'. app_print Z (m, q, w) = Inr (m, q, w') \<and> out w' = out w @ app_line m" if "0 \<in> set (item_data m)" for m q w
    using recv_app_prints [OF Z that, of w] by (auto simp: app_print_def)
qed

section \<open>Properties\<close>

text \<open>C35. A message of exactly 64 bytes without a NUL is accepted by \<open>send_app\<close> and then read past
  its end by the thread.\<close>

theorem app_full_message_overread:
  assumes "msgq_put_contract M msgs cap" "msgq_get_contract M msgs" and "0 < cap" and "msgs q = []"
    and "length bs = MSG_BODY_SIZE" "0 \<notin> set bs"
  shows "\<exists>q'. send_app Z M bs (length bs) typ (q, w) = Inr (q', w) \<and>
     thread_app Z M (rx_buf, q', w) = Some (Inl OOB_read)"
proof -
  let ?q = "snd (k_msgq_put M (app_item bs typ) q)"
  have s: "send_app Z M bs (length bs) typ (q, w) = Inr (?q, w)" using assms(5) by (intro send_app_fits) simp
  have "msgs ?q = [app_item bs typ]"
    using msgq_put_contractD [OF assms(1), of "app_item bs typ" q] assms(3,4) by (simp add: put_upto_def)
  with assms(2) obtain q1 where g: "k_msgq_get M ?q = (0, app_item bs typ, q1)"
    by (rule msgq_get_contract_message)
  have "recv_app Z (item_data (app_item bs typ)) (item_size (app_item bs typ)) (item_type (app_item bs typ)) w = Inl OOB_read"
    using assms(5,6) by (simp add: recv_app_def app_item_def cstr_no_zero Let_def)
  with g have "thread_app Z M (rx_buf, ?q, w) = Some (Inl OOB_read)"
    unfolding thread_app_def by (intro whileM_fault [where ?s1.0 = "(app_item bs typ, q1, w)"]) (simp_all add: app_take_def app_print_def)
  with s show ?thesis by blast
qed

section \<open>Witnesses\<close>

lemma board_printk_out: "printk_out_contract board_kernel console"
  by (simp add: printk_out_contract_def)

theorem app_full_message_overread_witness:
  "\<exists>q'. send_app board_kernel board_msgq (replicate 64 65) (length (replicate 64 (65 :: u8))) 7 ([], board0) = Inr (q', board0) \<and>
     thread_app board_kernel board_msgq (app_item [] 0, q', board0) = Some (Inl OOB_read)"
  by (rule app_full_message_overread [OF board_msgq_contracts]) (simp_all add: MSG_BODY_SIZE_def)

end
