(* ===== verification/Sockets.thy ===== *)
theory Sockets
  imports Zephyr Framing
begin

text \<open>
  The socket calls of the two HTTP programs, what of their documented behaviour the
  properties use, and a concrete stack to run them on.
\<close>

section \<open>Services\<close>

datatype sock_family = AF_INET | AF_OTHER int
datatype sock_type = SOCK_STREAM | SOCK_OTHER int
datatype sock_proto = IPPROTO_TCP | IPPROTO_TLS_1_2 | PROTO_OTHER int
datatype sock_opt = TLS_SEC_TAG_LIST | TLS_HOSTNAME

record 'a addrinfo =
  ai_family :: sock_family
  ai_socktype :: sock_type
  ai_protocol :: sock_proto
  ai_addr :: 'a
  ai_text :: "u8 list"

text \<open>
  Addresses are of a type \<open>'a\<close>; \<open>any_addr\<close> is the wildcard address at a port, \<open>inet_ntop\<close>
  the text of one in so many bytes. \<open>ai_text\<close> is what \<open>printf\<close> makes of the fields of an
  address record in \<open>dump_addrinfo\<close>.
\<close>

record ('a, 'w) sock_api =
  sk_socket :: "sock_family \<Rightarrow> sock_type \<Rightarrow> sock_proto \<Rightarrow> 'w \<Rightarrow> int \<times> 'w"
  sk_bind :: "int \<Rightarrow> 'a \<Rightarrow> 'w \<Rightarrow> int \<times> 'w"
  sk_listen :: "int \<Rightarrow> int \<Rightarrow> 'w \<Rightarrow> int \<times> 'w"
  sk_accept :: "int \<Rightarrow> 'w \<Rightarrow> int \<times> 'a \<times> 'w"
  sk_connect :: "int \<Rightarrow> 'a \<Rightarrow> 'w \<Rightarrow> int \<times> 'w"
  sk_setsockopt :: "int \<Rightarrow> sock_opt \<Rightarrow> u8 list \<Rightarrow> 'w \<Rightarrow> int \<times> 'w"
  sk_recv :: "int \<Rightarrow> nat \<Rightarrow> 'w \<Rightarrow> int \<times> u8 list \<times> 'w"
  sk_send :: "int \<Rightarrow> u8 list \<Rightarrow> 'w \<Rightarrow> int \<times> 'w"
  sk_close :: "int \<Rightarrow> 'w \<Rightarrow> int \<times> 'w"
  sk_errno :: "'w \<Rightarrow> int"
  sk_getaddrinfo :: "u8 list \<Rightarrow> u8 list \<Rightarrow> sock_family \<Rightarrow> sock_type \<Rightarrow> 'w \<Rightarrow> int \<times> 'a addrinfo \<times> 'w"
  sk_tls_credential_add :: "'w \<Rightarrow> 'w"
  sk_printf :: "u8 list \<Rightarrow> 'w \<Rightarrow> 'w"
  any_addr :: "nat \<Rightarrow> 'a"
  inet_ntop :: "'a \<Rightarrow> nat \<Rightarrow> u8 list"

definition E_AGAIN :: int where "E_AGAIN = 11"
definition E_INTR :: int where "E_INTR = 4"

text \<open>
  The programs' \<open>CHECK\<close> macro: on -1 the text of the expression is printed and the program
  ends; what was printed is not part of the result.
\<close>

definition CHECK :: "int \<times> 'w \<Rightarrow> (int \<times> 'w) checked" where
  "CHECK rw = (if fst rw = - 1 then Inl (Exited 1) else Inr rw)"

section \<open>Contracts\<close>

text \<open>
  Socket \<open>s\<close>: \<open>rx w\<close> is what is still to be received, \<open>tx w\<close> what has been sent. A receive
  takes a part of the front, at least a byte; at the end it answers \<open>e\<close>, which is 0 if the peer
  has closed and negative if the connection has failed. A send takes at least a byte.
\<close>

definition recv_upto ::
    "('a, 'w) sock_api \<Rightarrow> int \<Rightarrow> int \<Rightarrow> ('w \<Rightarrow> u8 list) \<Rightarrow> ('w \<Rightarrow> 'b) \<Rightarrow> bool" where
  [contract_defs]: "recv_upto S s e rx \<alpha> \<longleftrightarrow>
     (\<forall>n w. 0 < n \<and> rx w = [] \<longrightarrow> (\<exists>w'. sk_recv S s n w = (e, [], w') \<and> rx w' = [] \<and> \<alpha> w' = \<alpha> w)) \<and>
     (\<forall>n w. 0 < n \<and> rx w \<noteq> [] \<longrightarrow> (\<exists>k w'. 0 < k \<and> k \<le> n \<and> k \<le> length (rx w) \<and>
        sk_recv S s n w = (int k, take k (rx w), w') \<and> rx w' = drop k (rx w) \<and> \<alpha> w' = \<alpha> w))"

abbreviation recv_contract :: "('a, 'w) sock_api \<Rightarrow> int \<Rightarrow> ('w \<Rightarrow> u8 list) \<Rightarrow> ('w \<Rightarrow> 'b) \<Rightarrow> bool" where
  "recv_contract S s \<equiv> recv_upto S s 0"

definition send_contract ::
    "('a, 'w) sock_api \<Rightarrow> int \<Rightarrow> ('w \<Rightarrow> u8 list) \<Rightarrow> ('w \<Rightarrow> 'b) \<Rightarrow> bool" where
  [contract_defs]: "send_contract S s tx \<alpha> \<longleftrightarrow>
     (\<forall>bs w. bs \<noteq> [] \<longrightarrow>
        (\<exists>k w'. 0 < k \<and> k \<le> length bs \<and> sk_send S s bs w = (int k, w') \<and> tx w' = tx w @ take k bs \<and> \<alpha> w' = \<alpha> w) \<or>
        (\<exists>w'. sk_send S s bs w = (- 1, w') \<and> tx w' = tx w \<and> \<alpha> w' = \<alpha> w))"

text \<open>
  A receive may also be interrupted: while \<open>wait w\<close> is positive it answers with an error that
  asks to try again. After that it takes a part of the front, or ends: 0 when the peer has
  closed, or an error of another kind.
\<close>

definition patient_recv ::
    "('a, 'w) sock_api \<Rightarrow> int \<Rightarrow> ('w \<Rightarrow> u8 list) \<Rightarrow> ('w \<Rightarrow> nat) \<Rightarrow> ('w \<Rightarrow> 'b) \<Rightarrow> bool" where
  [contract_defs]: "patient_recv S s rx wait \<alpha> \<longleftrightarrow>
     (\<forall>n w. 0 < n \<and> 0 < wait w \<longrightarrow> (\<exists>w'. sk_recv S s n w = (- 1, [], w') \<and>
        (sk_errno S w' = E_AGAIN \<or> sk_errno S w' = E_INTR) \<and> wait w' < wait w \<and> rx w' = rx w \<and> \<alpha> w' = \<alpha> w)) \<and>
     (\<forall>n w. 0 < n \<and> wait w = 0 \<and> rx w = [] \<longrightarrow> (\<exists>e w'. sk_recv S s n w = (e, [], w') \<and> e \<le> 0 \<and>
        (e < 0 \<longrightarrow> sk_errno S w' \<noteq> E_AGAIN \<and> sk_errno S w' \<noteq> E_INTR) \<and> rx w' = [] \<and> \<alpha> w' = \<alpha> w)) \<and>
     (\<forall>n w. 0 < n \<and> wait w = 0 \<and> rx w \<noteq> [] \<longrightarrow> (\<exists>k w'. 0 < k \<and> k \<le> n \<and> k \<le> length (rx w) \<and>
        sk_recv S s n w = (int k, take k (rx w), w') \<and> rx w' = drop k (rx w) \<and> \<alpha> w' = \<alpha> w))"

lemma patient_again:
  assumes "patient_recv S s rx wait \<alpha>" and "0 < wait w"
  obtains w' where "sk_recv S s 1 w = (- 1, [], w')" "sk_errno S w' = E_AGAIN \<or> sk_errno S w' = E_INTR"
    "wait w' < wait w" "rx w' = rx w" "\<alpha> w' = \<alpha> w"
  using assms zero_less_one unfolding patient_recv_def by metis

lemma patient_end:
  assumes "patient_recv S s rx wait \<alpha>" and "wait w = 0" and "rx w = []"
  obtains e w' where "sk_recv S s 1 w = (e, [], w')" "e \<le> 0"
    "e < 0 \<longrightarrow> sk_errno S w' \<noteq> E_AGAIN \<and> sk_errno S w' \<noteq> E_INTR" "rx w' = []" "\<alpha> w' = \<alpha> w"
  using assms zero_less_one unfolding patient_recv_def by metis

lemma patient_byte:
  assumes "patient_recv S s rx wait \<alpha>" and "wait w = 0" and "rx w = c # cs"
  obtains w' where "sk_recv S s 1 w = (1, [c], w')" "rx w' = cs" "\<alpha> w' = \<alpha> w"
proof -
  from assms have "0 < (1 :: nat) \<and> wait w = 0 \<and> rx w \<noteq> []" by simp
  with assms(1) obtain k w' where k: "0 < k" "k \<le> 1"
    "sk_recv S s 1 w = (int k, take k (rx w), w')" "rx w' = drop k (rx w)" "\<alpha> w' = \<alpha> w"
    unfolding patient_recv_def by blast
  then have "k = 1" by simp
  with k assms(3) that show thesis by simp
qed

text \<open>Closing is recorded in \<open>cl\<close>.\<close>

definition close_contract ::
    "('a, 'w) sock_api \<Rightarrow> ('w \<Rightarrow> int list) \<Rightarrow> ('w \<Rightarrow> 'b) \<Rightarrow> bool" where
  [contract_defs]: "close_contract S cl \<alpha> \<longleftrightarrow>
     (\<forall>s w. cl (snd (sk_close S s w)) = cl w @ [s] \<and> \<alpha> (snd (sk_close S s w)) = \<alpha> w)"

lemma recv_end:
  assumes "recv_upto S s e rx \<alpha>" and "0 < n" and "rx w = []"
  shows "\<exists>w'. sk_recv S s n w = (e, [], w') \<and> rx w' = [] \<and> \<alpha> w' = \<alpha> w"
  using assms unfolding recv_upto_def by blast

lemma recv_some:
  assumes "recv_upto S s e rx \<alpha>" and "0 < n" and "rx w \<noteq> []"
  shows "\<exists>k w'. 0 < k \<and> k \<le> n \<and> k \<le> length (rx w) \<and> sk_recv S s n w = (int k, take k (rx w), w') \<and>
    rx w' = drop k (rx w) \<and> \<alpha> w' = \<alpha> w"
  using assms unfolding recv_upto_def by blast

lemma send_some:
  assumes "send_contract S s tx \<alpha>" and "bs \<noteq> []" and "fst (sk_send S s bs w) \<noteq> - 1"
  obtains k w' where "0 < k" "k \<le> length bs" "sk_send S s bs w = (int k, w')" "tx w' = tx w @ take k bs" "\<alpha> w' = \<alpha> w"
proof -
  have "(\<exists>k w'. 0 < k \<and> k \<le> length bs \<and> sk_send S s bs w = (int k, w') \<and> tx w' = tx w @ take k bs \<and> \<alpha> w' = \<alpha> w) \<or>
      (\<exists>w'. sk_send S s bs w = (- 1, w') \<and> tx w' = tx w \<and> \<alpha> w' = \<alpha> w)"
    using assms(1,2) unfolding send_contract_def by blast
  with assms(3) that show ?thesis by (elim disjE exE conjE) simp_all
qed

section \<open>A concrete stack\<close>

text \<open>One connection: what it will deliver, what was sent on it, what was printed and closed.\<close>

record net =
  net_rx :: "u8 list"
  net_tx :: "u8 list"
  net_out :: "u8 list"
  net_closed :: "int list"
  net_served :: "(int \<times> u8 list) list"

definition net0 :: "u8 list \<Rightarrow> net" where
  "net0 bs = \<lparr>net_rx = bs, net_tx = [], net_out = [], net_closed = [], net_served = []\<rparr>"

text \<open>Receives hand out at most 3 bytes at a time, sends take at most 5.\<close>

definition net_sock :: "(nat, net) sock_api" where
  "net_sock =
     \<lparr>sk_socket = (\<lambda>f t p w. (3, w)), sk_bind = (\<lambda>s a w. (0, w)), sk_listen = (\<lambda>s b w. (0, w)),
      sk_accept = (\<lambda>s w. (4, 0, w)), sk_connect = (\<lambda>s a w. (0, w)), sk_setsockopt = (\<lambda>s p v w. (0, w)),
      sk_recv = (\<lambda>s n w. (int (length (take (min n 3) (net_rx w))), take (min n 3) (net_rx w),
         w\<lparr>net_rx := drop (min n 3) (net_rx w)\<rparr>)),
      sk_send = (\<lambda>s bs w. (int (length (take 5 bs)), w\<lparr>net_tx := net_tx w @ take 5 bs\<rparr>)),
      sk_close = (\<lambda>s w. (0, w\<lparr>net_closed := net_closed w @ [s], net_served := net_served w @ [(s, net_tx w)]\<rparr>)), sk_errno = (\<lambda>w. 0),
      sk_getaddrinfo = (\<lambda>h p f t w. (0,
         \<lparr>ai_family = AF_INET, ai_socktype = SOCK_STREAM, ai_protocol = IPPROTO_TCP, ai_addr = 0, ai_text = []\<rparr>, w)),
      sk_tls_credential_add = (\<lambda>w. w), sk_printf = (\<lambda>bs w. w\<lparr>net_out := net_out w @ bs\<rparr>),
      any_addr = (\<lambda>p. p), inet_ntop = (\<lambda>a n. [])\<rparr>"

lemma net_recv_contract:
  assumes "\<And>w q. \<alpha> (w\<lparr>net_rx := q\<rparr>) = \<alpha> w"
  shows "recv_contract net_sock s net_rx \<alpha>"
proof -
  have "\<exists>k w'. 0 < k \<and> k \<le> n \<and> k \<le> length (net_rx w) \<and> sk_recv net_sock s n w = (int k, take k (net_rx w), w') \<and>
      net_rx w' = drop k (net_rx w) \<and> \<alpha> w' = \<alpha> w" if "0 < n" "net_rx w \<noteq> []" for n w
    using that assms
    by (intro exI [of _ "min (min n 3) (length (net_rx w))"]) (auto simp: net_sock_def min_def)
  then show ?thesis
    unfolding recv_upto_def using assms by (auto simp: net_sock_def)
qed

lemma net_patient_recv:
  assumes "\<And>w q. \<alpha> (w\<lparr>net_rx := q\<rparr>) = \<alpha> w"
  shows "patient_recv net_sock s net_rx (\<lambda>w. 0) \<alpha>"
  using net_recv_contract [of \<alpha> s] assms unfolding patient_recv_def recv_upto_def by (auto, intro exI [of _ 0], simp)

lemma net_send_contract:
  assumes "\<And>w q. \<alpha> (w\<lparr>net_tx := q\<rparr>) = \<alpha> w"
  shows "send_contract net_sock s net_tx \<alpha>"
proof -
  have "\<exists>k w'. 0 < k \<and> k \<le> length bs \<and> sk_send net_sock s bs w = (int k, w') \<and>
      net_tx w' = net_tx w @ take k bs \<and> \<alpha> w' = \<alpha> w" if "bs \<noteq> []" for bs w
    using that assms by (intro exI [of _ "min 5 (length bs)"]) (auto simp: net_sock_def min_def)
  then show ?thesis unfolding send_contract_def by blast
qed

lemma net_close_contract:
  assumes "\<And>w q r. \<alpha> (w\<lparr>net_closed := q, net_served := r\<rparr>) = \<alpha> w"
  shows "close_contract net_sock net_closed \<alpha>"
  using assms by (simp add: close_contract_def net_sock_def)

end
