(* ===== verification/Http_Get.thy ===== *)
theory Http_Get
  imports Sockets "HOL-Library.Sublist"
begin

text \<open>
  The HTTP client thread, \<^verbatim>\<open>src/http_get.c\<close>: one request, and every chunk of the response
  printed as a C string. \<open>tls\<close> is the configuration option that puts TLS under the socket.
\<close>

section \<open>Operations\<close>

definition HTTP_HOST :: "u8 list" where "HTTP_HOST = ascii ''google.com''"
definition HTTP_PORT :: "bool \<Rightarrow> u8 list" where "HTTP_PORT tls = (if tls then ascii ''443'' else ascii ''80'')"
definition HTTP_PATH :: "u8 list" where "HTTP_PATH = ascii ''/''"
definition RESPONSE_SIZE :: nat where "RESPONSE_SIZE = 1024"
definition CA_CERTIFICATE_TAG :: u8 where "CA_CERTIFICATE_TAG = 1"

definition REQUEST :: "u8 list" where
  "REQUEST = ascii ''GET '' @ HTTP_PATH @ ascii '' HTTP/1.0'' @ [CR, LF] @ ascii ''Host: '' @ HTTP_HOST @ [CR, LF, CR, LF]"

definition dump_addrinfo :: "('a, 'w) sock_api \<Rightarrow> 'a addrinfo \<Rightarrow> 'w \<Rightarrow> 'w" where
  "dump_addrinfo S ai w = sk_printf S (ascii ''addrinfo @'' @ ai_text ai @ [LF]) w"

text \<open>
  One pass of the receive loop, on the static buffer \<open>response\<close>: what \<open>recv\<close> wrote, the NUL
  behind it, the print. How it goes on:
\<close>

datatype get_end = Receiving | Response_done | Read_failed

definition get_pass :: "('a, 'w) sock_api \<Rightarrow> int \<Rightarrow> u8 list \<times> get_end \<times> 'w \<Rightarrow> (u8 list \<times> get_end \<times> 'w) checked" where
  "get_pass S sock st =
     (case st of (response, e, w) \<Rightarrow> case sk_recv S sock (length response - 1) w of (len, bs, w1) \<Rightarrow>
      sbind (mem_put 0 bs response) (\<lambda>response1.
      if len < 0 then Inr (response1, Read_failed, sk_printf S (ascii ''Error reading response'' @ [LF]) w1)
      else if len = 0 then Inr (response1, Response_done, w1)
      else sbind (store (nat len) NUL response1) (\<lambda>response2.
           sbind (cstr response2) (\<lambda>s. Inr (response2, Receiving, sk_printf S s w1)))))"

definition get_response :: "('a, 'w) sock_api \<Rightarrow> int \<Rightarrow> u8 list \<times> get_end \<times> 'w \<Rightarrow> (u8 list \<times> get_end \<times> 'w) outcome" where
  "get_response S sock =
     whileM (\<lambda>(response, e, w). (e = Receiving, response, e, w)) (\<lambda>st. Some (get_pass S sock st))"

text \<open>From the connected socket on, to the end of the thread.\<close>

definition get_from :: "('a, 'w) sock_api \<Rightarrow> int \<Rightarrow> u8 list \<times> 'w \<Rightarrow> (u8 list \<times> 'w) outcome" where
  "get_from S sock st =
     (case st of (response, w) \<Rightarrow>
      obind (get_response S sock (response, Receiving, sk_printf S (ascii ''Response:'' @ [LF, LF]) w)) (\<lambda>(response1, e, w1).
      if e = Read_failed then Some (Inr (response1, w1))
      else Some (Inr (response1, snd (sk_close S sock (sk_printf S [LF] w1))))))"

text \<open>\<open>setsockopt\<close> hands over the tag as the bytes of \<open>sec_tag_opt\<close> and the host name with its NUL.\<close>

definition tls_options :: "('a, 'w) sock_api \<Rightarrow> int \<Rightarrow> 'w \<Rightarrow> 'w checked" where
  "tls_options S sock w =
     sbind (CHECK (sk_setsockopt S sock TLS_SEC_TAG_LIST [CA_CERTIFICATE_TAG, 0, 0, 0] w)) (\<lambda>(r1, w1).
     sbind (CHECK (sk_setsockopt S sock TLS_HOSTNAME (HTTP_HOST @ [NUL]) w1)) (\<lambda>(r2, w2). Inr w2))"

definition thread_http_get ::
    "'w kernel_api \<Rightarrow> ('a, 'w) sock_api \<Rightarrow> bool \<Rightarrow> u8 list \<times> 'w \<Rightarrow> (u8 list \<times> 'w) outcome" where
  "thread_http_get Z S tls st =
     (case st of (response, w) \<Rightarrow>
      let w1 = k_sleep Z 10000 w;
          w2 = (if tls then sk_tls_credential_add S w1 else w1);
          w3 = sk_printf S (ascii ''Preparing HTTP GET request for http://'' @ HTTP_HOST @ ascii '':'' @
                 HTTP_PORT tls @ HTTP_PATH @ [LF]) w2
      in case sk_getaddrinfo S HTTP_HOST (HTTP_PORT tls) AF_INET SOCK_STREAM w3 of (r, res, w4) \<Rightarrow>
      let w5 = sk_printf S (ascii ''getaddrinfo status: '' @ fmt_d r @ [LF]) w4 in
      if r \<noteq> 0 then Some (Inr (response, sk_printf S (ascii ''Unable to resolve address, quitting'' @ [LF]) w5))
      else
        obind (Some (CHECK (sk_socket S (ai_family res) (ai_socktype res)
          (if tls then IPPROTO_TLS_1_2 else ai_protocol res) (dump_addrinfo S res w5)))) (\<lambda>(sock, w6).
        let w7 = sk_printf S (ascii ''sock = '' @ fmt_d sock @ [LF]) w6 in
        obind (Some (if tls then tls_options S sock w7 else Inr w7)) (\<lambda>w8.
        obind (Some (CHECK (sk_connect S sock (ai_addr res) w8))) (\<lambda>(r1, w9).
        obind (Some (CHECK (sk_send S sock REQUEST w9))) (\<lambda>(r2, w10).
        get_from S sock (response, w10))))))"

definition HTTP_GET_STACKSIZE :: nat where [simp]: "HTTP_GET_STACKSIZE = 4096"
definition HTTP_GET_PRIORITY :: nat where [simp]: "HTTP_GET_PRIORITY = 7"

definition main_http_get :: "'w kernel_api \<Rightarrow> 'w \<Rightarrow> 'w" where
  "main_http_get Z w =
     k_thread_start Z Thread_http_get_data (k_thread_create Z Thread_http_get_data Thread_http_get HTTP_GET_STACKSIZE HTTP_GET_PRIORITY w)"

section \<open>The response\<close>

text \<open>
  What the client relies on for its socket: receiving up to the end \<open>e\<close>, and \<open>printf\<close> putting
  its text at the end of \<open>out\<close>.
\<close>

definition print_contract :: "('a, 'w) sock_api \<Rightarrow> ('w \<Rightarrow> u8 list) \<Rightarrow> ('w \<Rightarrow> 'b) \<Rightarrow> bool" where
  [contract_defs]: "print_contract S out \<alpha> \<longleftrightarrow>
     (\<forall>bs w. out (sk_printf S bs w) = out w @ bs \<and> \<alpha> (sk_printf S bs w) = \<alpha> w)"

lemma get_response_pass:
  "get_pass S sock (response, Receiving, w) = Inr st \<Longrightarrow>
     get_response S sock (response, Receiving, w) = get_response S sock st"
  unfolding get_response_def by (subst whileM.simps) simp

lemma get_response_stop: "e \<noteq> Receiving \<Longrightarrow> get_response S sock (response, e, w) = Some (Inr (response, e, w))"
  unfolding get_response_def by (simp add: whileM_stop)

text \<open>A chunk is stored in front of a NUL that fits, and printed up to its first NUL.\<close>

lemma get_pass_chunk:
  assumes R: "recv_upto S sock e rx (\<lambda>w. (\<alpha> w, out w))" and P: "print_contract S out (\<lambda>w. (\<alpha> w, rx w))"
    and len: "length response = RESPONSE_SIZE" and some: "rx w \<noteq> []"
  shows "\<exists>k response' w'. 0 < k \<and> k \<le> length (rx w) \<and> length response' = RESPONSE_SIZE \<and>
     get_pass S sock (response, Receiving, w) = Inr (response', Receiving, w') \<and>
     rx w' = drop k (rx w) \<and> \<alpha> w' = \<alpha> w \<and> out w' = out w @ takeWhile (\<lambda>c. c \<noteq> 0) (take k (rx w))"
proof -
  have "0 < length response - 1" using len by (simp add: RESPONSE_SIZE_def)
  from recv_some [OF R this some] obtain k w1 where k: "0 < k" "k \<le> length response - 1" "k \<le> length (rx w)"
    and r: "sk_recv S sock (length response - 1) w = (int k, take k (rx w), w1)"
    and w1: "rx w1 = drop k (rx w)" "(\<alpha> w1, out w1) = (\<alpha> w, out w)" by blast
  let ?bs = "take k (rx w)" and ?tail = "drop (Suc k) response"
  have l: "length ?bs = k" "k < length response" using k len by (simp_all add: RESPONSE_SIZE_def)
  have "mem_put 0 ?bs response = Inr (?bs @ drop k response)" using l by (simp add: mem_simps)
  moreover have "store k NUL (?bs @ drop k response) = Inr (?bs @ NUL # ?tail)"
  proof -
    have "drop k response = response ! k # ?tail" using l(2) by (simp add: Cons_nth_drop_Suc)
    then show ?thesis using l by (simp add: store_ok list_update_append)
  qed
  moreover have "cstr (?bs @ NUL # ?tail) = Inr (takeWhile (\<lambda>c. c \<noteq> 0) ?bs)"
    by (rule cstr_first_zero)
  ultimately have "get_pass S sock (response, Receiving, w) =
      Inr (?bs @ NUL # ?tail, Receiving, sk_printf S (takeWhile (\<lambda>c. c \<noteq> 0) ?bs) w1)"
    using k r by (simp add: get_pass_def)
  moreover have "length (?bs @ NUL # ?tail) = RESPONSE_SIZE" using l len by simp
  moreover have "rx (sk_printf S (takeWhile (\<lambda>c. c \<noteq> 0) ?bs) w1) = drop k (rx w)"
    "\<alpha> (sk_printf S (takeWhile (\<lambda>c. c \<noteq> 0) ?bs) w1) = \<alpha> w"
    "out (sk_printf S (takeWhile (\<lambda>c. c \<noteq> 0) ?bs) w1) = out w @ takeWhile (\<lambda>c. c \<noteq> 0) ?bs"
    using P w1 by (simp_all add: print_contract_def)
  ultimately show ?thesis using k(1,3) by blast
qed

definition end_text :: "int \<Rightarrow> u8 list" where
  "end_text e = (if e = 0 then [] else ascii ''Error reading response'' @ [LF])"

lemma get_response_run:
  assumes R: "recv_upto S sock e rx (\<lambda>w. (\<alpha> w, out w))" and P: "print_contract S out (\<lambda>w. (\<alpha> w, rx w))"
    and "e \<le> 0" and "length response = RESPONSE_SIZE"
  shows "\<exists>response' w' shown. get_response S sock (response, Receiving, w) =
       Some (Inr (response', if e = 0 then Response_done else Read_failed, w')) \<and>
     rx w' = [] \<and> \<alpha> w' = \<alpha> w \<and> out w' = out w @ shown @ end_text e \<and> subseq shown (rx w) \<and>
     (0 \<notin> set (rx w) \<longrightarrow> shown = rx w)"
  using assms(4)
proof (induction "length (rx w)" arbitrary: response w rule: less_induct)
  case less
  show ?case
  proof (cases "rx w = []")
    case True
    have "0 < length response - 1" using less.prems by (simp add: RESPONSE_SIZE_def)
    from recv_end [OF R this True] obtain w1 where r: "sk_recv S sock (length response - 1) w = (e, [], w1)"
      "rx w1 = []" "(\<alpha> w1, out w1) = (\<alpha> w, out w)" by blast
    let ?w = "if e = 0 then w1 else sk_printf S (ascii ''Error reading response'' @ [LF]) w1"
    have "get_pass S sock (response, Receiving, w) = Inr (response, if e = 0 then Response_done else Read_failed, ?w)"
      using r(1) \<open>e \<le> 0\<close> by (simp add: get_pass_def mem_simps)
    then have "get_response S sock (response, Receiving, w) =
        Some (Inr (response, if e = 0 then Response_done else Read_failed, ?w))"
      by (cases "e = 0") (simp_all add: get_response_pass get_response_stop)
    moreover have "rx ?w = []" "\<alpha> ?w = \<alpha> w" "out ?w = out w @ end_text e"
      using r(2,3) P by (simp_all add: print_contract_def end_text_def)
    ultimately show ?thesis using True by (intro exI [of _ response] exI [of _ ?w] exI [of _ "[]"]) simp
  next
    case False
    from get_pass_chunk [OF R P less.prems False] obtain k response1 w1 where k: "0 < k" "k \<le> length (rx w)"
      and p: "length response1 = RESPONSE_SIZE" "get_pass S sock (response, Receiving, w) = Inr (response1, Receiving, w1)"
      and w1: "rx w1 = drop k (rx w)" "\<alpha> w1 = \<alpha> w" "out w1 = out w @ takeWhile (\<lambda>c. c \<noteq> 0) (take k (rx w))"
      by blast
    have "length (rx w1) < length (rx w)" using k w1(1) by simp
    from less.hyps [OF this p(1)] obtain response' w' shown where
      g: "get_response S sock (response1, Receiving, w1) =
        Some (Inr (response', if e = 0 then Response_done else Read_failed, w'))"
      and w': "rx w' = []" "\<alpha> w' = \<alpha> w1" "out w' = out w1 @ shown @ end_text e" "subseq shown (rx w1)"
        "0 \<notin> set (rx w1) \<longrightarrow> shown = rx w1" by blast
    let ?t = "takeWhile (\<lambda>c. c \<noteq> 0) (take k (rx w))"
    have "subseq (?t @ shown) (take k (rx w) @ drop k (rx w))"
      using w'(4) w1(1) by (intro list_emb_append_mono) (simp_all add: takeWhile_is_prefix prefix_imp_subseq)
    moreover have "?t @ shown = rx w" if "0 \<notin> set (rx w)"
    proof -
      from that have "?t = take k (rx w)" by (auto simp: takeWhile_eq_all_conv dest: in_set_takeD)
      moreover from that have "0 \<notin> set (rx w1)" using w1(1) by (auto dest: in_set_dropD)
      ultimately have "shown = drop k (rx w)" and "?t = take k (rx w)" using w'(5) w1(1) by (simp, blast)
      then show ?thesis by (simp only: append_take_drop_id)
    qed
    ultimately show ?thesis using g w' w1 get_response_pass [OF p(2)]
      by (intro exI [of _ response'] exI [of _ w'] exI [of _ "?t @ shown"]) simp
  qed
qed

section \<open>The whole thread\<close>

text \<open>
  The network as the client meets it: the name resolves to \<open>res\<close>, a socket, its options and
  its connection are to be had, and none of these calls receives, sends, closes or prints.
\<close>

definition http_server_contract ::
    "'w kernel_api \<Rightarrow> ('a, 'w) sock_api \<Rightarrow> bool \<Rightarrow> 'a addrinfo \<Rightarrow> int \<Rightarrow> int \<Rightarrow>
     ('w \<Rightarrow> u8 list) \<Rightarrow> ('w \<Rightarrow> u8 list) \<Rightarrow> ('w \<Rightarrow> int list) \<Rightarrow> ('w \<Rightarrow> u8 list) \<Rightarrow> bool" where
  [contract_defs]: "http_server_contract Z S tls res sock e rx tx cl out \<longleftrightarrow>
     recv_upto S sock e rx (\<lambda>w. ((tx w, cl w), out w)) \<and>
     send_contract S sock tx (\<lambda>w. (rx w, cl w, out w)) \<and>
     close_contract S cl (\<lambda>w. (rx w, tx w, out w)) \<and>
     print_contract S out (\<lambda>w. ((tx w, cl w), rx w)) \<and>
     keeps (k_sleep Z 10000) (\<lambda>w. (rx w, tx w, cl w, out w)) \<and>
     keeps (sk_tls_credential_add S) (\<lambda>w. (rx w, tx w, cl w, out w)) \<and>
     (\<forall>p w. \<exists>w'. sk_getaddrinfo S HTTP_HOST p AF_INET SOCK_STREAM w = (0, res, w') \<and>
        (rx w', tx w', cl w', out w') = (rx w, tx w, cl w, out w)) \<and>
     sock \<noteq> - 1 \<and>
     (\<forall>p w. \<exists>w'. sk_socket S (ai_family res) (ai_socktype res) p w = (sock, w') \<and>
        (rx w', tx w', cl w', out w') = (rx w, tx w, cl w, out w)) \<and>
     (\<forall>p v w. \<exists>w'. sk_setsockopt S sock p v w = (0, w') \<and> (rx w', tx w', cl w', out w') = (rx w, tx w, cl w, out w)) \<and>
     (\<forall>w. \<exists>w'. sk_connect S sock (ai_addr res) w = (0, w') \<and> (rx w', tx w', cl w', out w') = (rx w, tx w, cl w, out w))"

text \<open>What has been printed before the response.\<close>

definition get_prologue :: "bool \<Rightarrow> 'a addrinfo \<Rightarrow> int \<Rightarrow> u8 list" where
  "get_prologue tls res sock =
     ascii ''Preparing HTTP GET request for http://'' @ HTTP_HOST @ ascii '':'' @ HTTP_PORT tls @ HTTP_PATH @ [LF] @
     ascii ''getaddrinfo status: '' @ fmt_d 0 @ [LF] @ ascii ''addrinfo @'' @ ai_text res @ [LF] @
     ascii ''sock = '' @ fmt_d sock @ [LF] @ ascii ''Response:'' @ [LF, LF]"

lemma get_from_run:
  assumes R: "recv_upto S sock e rx (\<lambda>w. ((tx w, cl w), out w))" and P: "print_contract S out (\<lambda>w. ((tx w, cl w), rx w))"
    and C: "close_contract S cl (\<lambda>w. (rx w, tx w, out w))" and "e \<le> 0" and "length response = RESPONSE_SIZE"
  shows "\<exists>response' w' shown. get_from S sock (response, w) = Some (Inr (response', w')) \<and> rx w' = [] \<and> tx w' = tx w \<and>
     out w' = out w @ ascii ''Response:'' @ [LF, LF] @ shown @ (if e = 0 then [LF] else end_text e) \<and>
     subseq shown (rx w) \<and> (0 \<notin> set (rx w) \<longrightarrow> shown = rx w) \<and> cl w' = cl w @ (if e = 0 then [sock] else [])"
proof -
  have p: "out (sk_printf S bs w) = out w @ bs" "rx (sk_printf S bs w) = rx w" "tx (sk_printf S bs w) = tx w"
    "cl (sk_printf S bs w) = cl w" for bs w using P by (simp_all add: print_contract_def)
  have c: "cl (snd (sk_close S sock w)) = cl w @ [sock]" "rx (snd (sk_close S sock w)) = rx w"
    "tx (snd (sk_close S sock w)) = tx w" "out (snd (sk_close S sock w)) = out w" for w
    using C by (simp_all add: close_contract_def)
  let ?w = "sk_printf S (ascii ''Response:'' @ [LF, LF]) w"
  from get_response_run [where w = ?w and \<alpha> = "\<lambda>w. (tx w, cl w)", OF R P assms(4,5)] obtain response' w1 shown
    where g: "get_response S sock (response, Receiving, ?w) =
      Some (Inr (response', if e = 0 then Response_done else Read_failed, w1))"
    and w1: "rx w1 = []" "(tx w1, cl w1) = (tx ?w, cl ?w)" "out w1 = out ?w @ shown @ end_text e" "subseq shown (rx ?w)"
      "0 \<notin> set (rx ?w) \<longrightarrow> shown = rx ?w" by blast
  let ?w' = "if e = 0 then snd (sk_close S sock (sk_printf S [LF] w1)) else w1"
  have "get_from S sock (response, w) = Some (Inr (response', ?w'))"
    using g by (simp add: get_from_def)
  moreover have "out ?w' = out w @ ascii ''Response:'' @ [LF, LF] @ shown @ (if e = 0 then [LF] else end_text e)"
    using w1(3) by (simp add: p c end_text_def)
  moreover have "rx ?w' = []" "tx ?w' = tx w" "cl ?w' = cl w @ (if e = 0 then [sock] else [])"
    using w1(1,2) by (simp_all add: p c)
  ultimately show ?thesis using w1(4,5) p
    by (intro exI [of _ response'] exI [of _ ?w'] exI [of _ shown]) simp
qed

text \<open>The options are set without anything else happening, and only with TLS.\<close>

lemma tls_options_run:
  assumes "http_server_contract Z S tls res sock e rx tx cl out"
  shows "\<exists>w'. (if tls then tls_options S sock w else Inr w) = Inr w' \<and>
    (rx w', tx w', cl w', out w') = (rx w, tx w, cl w, out w)"
proof -
  have o: "\<exists>w'. sk_setsockopt S sock p v w = (0, w') \<and> (rx w', tx w', cl w', out w') = (rx w, tx w, cl w, out w)" for p v w
    using assms unfolding http_server_contract_def by (elim conjE) blast
  from o [of TLS_SEC_TAG_LIST "[CA_CERTIFICATE_TAG, 0, 0, 0]" w] obtain w1 where
    1: "sk_setsockopt S sock TLS_SEC_TAG_LIST [CA_CERTIFICATE_TAG, 0, 0, 0] w = (0, w1)"
      "(rx w1, tx w1, cl w1, out w1) = (rx w, tx w, cl w, out w)" by blast
  from o [of TLS_HOSTNAME "HTTP_HOST @ [NUL]" w1] obtain w2 where
    2: "sk_setsockopt S sock TLS_HOSTNAME (HTTP_HOST @ [NUL]) w1 = (0, w2)"
      "(rx w2, tx w2, cl w2, out w2) = (rx w1, tx w1, cl w1, out w1)" by blast
  from 1 2 have "tls_options S sock w = Inr w2" by (simp add: tls_options_def CHECK_def)
  with 1(2) 2(2) show ?thesis by (cases tls) auto
qed

text \<open>Up to the printout of the socket.\<close>

lemma thread_http_get_start:
  assumes C: "http_server_contract Z S tls res sock e rx tx cl out"
  shows "\<exists>w'. thread_http_get Z S tls (response, w) =
       obind (Some (if tls then tls_options S sock w' else Inr w')) (\<lambda>w8.
        obind (Some (CHECK (sk_connect S sock (ai_addr res) w8))) (\<lambda>(r1, w9).
        obind (Some (CHECK (sk_send S sock REQUEST w9))) (\<lambda>(r2, w10). get_from S sock (response, w10)))) \<and>
     rx w' = rx w \<and> tx w' = tx w \<and> cl w' = cl w \<and>
     out w' @ ascii ''Response:'' @ [LF, LF] = out w @ get_prologue tls res sock"
proof -
  have p: "out (sk_printf S bs w) = out w @ bs" "rx (sk_printf S bs w) = rx w" "tx (sk_printf S bs w) = tx w"
    "cl (sk_printf S bs w) = cl w" for bs w using C by (simp_all add: http_server_contract_def print_contract_def)
  have k: "rx (k_sleep Z 10000 w) = rx w" "tx (k_sleep Z 10000 w) = tx w" "cl (k_sleep Z 10000 w) = cl w"
    "out (k_sleep Z 10000 w) = out w" "rx (sk_tls_credential_add S w) = rx w" "tx (sk_tls_credential_add S w) = tx w"
    "cl (sk_tls_credential_add S w) = cl w" "out (sk_tls_credential_add S w) = out w" for w
    using C by (simp_all add: http_server_contract_def keeps_def)
  let ?w3 = "sk_printf S (ascii ''Preparing HTTP GET request for http://'' @ HTTP_HOST @ ascii '':'' @
    HTTP_PORT tls @ HTTP_PATH @ [LF]) (if tls then sk_tls_credential_add S (k_sleep Z 10000 w) else k_sleep Z 10000 w)"
  obtain w4 where 4: "sk_getaddrinfo S HTTP_HOST (HTTP_PORT tls) AF_INET SOCK_STREAM ?w3 = (0, res, w4)"
      "(rx w4, tx w4, cl w4, out w4) = (rx ?w3, tx ?w3, cl ?w3, out ?w3)"
    using C unfolding http_server_contract_def by (elim conjE) blast
  let ?w5 = "dump_addrinfo S res (sk_printf S (ascii ''getaddrinfo status: '' @ fmt_d 0 @ [LF]) w4)"
  obtain w6 where 6: "sk_socket S (ai_family res) (ai_socktype res) (if tls then IPPROTO_TLS_1_2 else ai_protocol res) ?w5 = (sock, w6)"
      "(rx w6, tx w6, cl w6, out w6) = (rx ?w5, tx ?w5, cl ?w5, out ?w5)"
    using C unfolding http_server_contract_def by (elim conjE) blast
  have s: "sock \<noteq> - 1" using C by (simp add: http_server_contract_def)
  let ?w7 = "sk_printf S (ascii ''sock = '' @ fmt_d sock @ [LF]) w6"
  have "thread_http_get Z S tls (response, w) =
       obind (Some (if tls then tls_options S sock ?w7 else Inr ?w7)) (\<lambda>w8.
        obind (Some (CHECK (sk_connect S sock (ai_addr res) w8))) (\<lambda>(r1, w9).
        obind (Some (CHECK (sk_send S sock REQUEST w9))) (\<lambda>(r2, w10). get_from S sock (response, w10))))"
    unfolding thread_http_get_def Let_def prod.case 4(1) using s by (simp add: CHECK_def 6(1))
  moreover have "out ?w7 @ ascii ''Response:'' @ [LF, LF] = out w @ get_prologue tls res sock"
    using 4(2) 6(2) by (simp add: p k dump_addrinfo_def get_prologue_def)
  moreover have "rx ?w7 = rx w" "tx ?w7 = tx w" "cl ?w7 = cl w" using 4(2) 6(2) by (simp_all add: p k dump_addrinfo_def)
  ultimately show ?thesis by (intro exI [of _ ?w7] conjI)
qed

section \<open>Properties\<close>

text \<open>
  C23. The client prints what the server sends: after a front of the request has gone out and a
  fixed prologue, the printout is a part of the response in order, all of it if it has no NUL,
  whatever the chunks it comes in; the static buffer is never overrun. The socket is closed if
  the server ends the connection, and left open if receiving fails.
\<close>

theorem http_get_prints_response:
  assumes "http_server_contract Z S tls res sock e rx tx cl out" and "e \<le> 0"
    and "length response = RESPONSE_SIZE" and "\<And>bs u. fst (sk_send S sock bs u) \<noteq> - 1"
  shows "\<exists>response' w' shown k. thread_http_get Z S tls (response, w) = Some (Inr (response', w')) \<and>
     0 < k \<and> tx w' = tx w @ take k REQUEST \<and> rx w' = [] \<and>
     out w' = out w @ get_prologue tls res sock @ shown @ (if e = 0 then [LF] else end_text e) \<and>
     subseq shown (rx w) \<and> (0 \<notin> set (rx w) \<longrightarrow> shown = rx w) \<and>
     cl w' = cl w @ (if e = 0 then [sock] else [])"
proof -
  from thread_http_get_start [OF assms(1), of response w] obtain w7 where
    run: "thread_http_get Z S tls (response, w) =
       obind (Some (if tls then tls_options S sock w7 else Inr w7)) (\<lambda>w8.
        obind (Some (CHECK (sk_connect S sock (ai_addr res) w8))) (\<lambda>(r1, w9).
        obind (Some (CHECK (sk_send S sock REQUEST w9))) (\<lambda>(r2, w10). get_from S sock (response, w10))))"
    and w7: "rx w7 = rx w" "tx w7 = tx w" "cl w7 = cl w"
      "out w7 @ ascii ''Response:'' @ [LF, LF] = out w @ get_prologue tls res sock" by blast
  from tls_options_run [OF assms(1), of w7] obtain w8 where
    8: "(if tls then tls_options S sock w7 else Inr w7) = Inr w8"
      "(rx w8, tx w8, cl w8, out w8) = (rx w7, tx w7, cl w7, out w7)" by blast
  from assms(1) obtain w9 where 9: "sk_connect S sock (ai_addr res) w8 = (0, w9)"
      "(rx w9, tx w9, cl w9, out w9) = (rx w8, tx w8, cl w8, out w8)"
    unfolding http_server_contract_def by (elim conjE) blast
  from assms(1) have Snd: "send_contract S sock tx (\<lambda>w. (rx w, cl w, out w))" by (simp add: http_server_contract_def)
  have "REQUEST \<noteq> []" by (simp add: REQUEST_def)
  from send_some [OF Snd this assms(4), of w9] obtain k w10 where 10: "0 < k" "sk_send S sock REQUEST w9 = (int k, w10)"
      "tx w10 = tx w9 @ take k REQUEST" "(rx w10, cl w10, out w10) = (rx w9, cl w9, out w9)" by blast
  have "thread_http_get Z S tls (response, w) = get_from S sock (response, w10)"
    using run 8(1) 9(1) 10(1,2) by (simp add: CHECK_def)
  moreover have R: "recv_upto S sock e rx (\<lambda>w. ((tx w, cl w), out w))" and P: "print_contract S out (\<lambda>w. ((tx w, cl w), rx w))"
    and C: "close_contract S cl (\<lambda>w. (rx w, tx w, out w))" using assms(1) by (simp_all add: http_server_contract_def)
  moreover obtain response' w' shown where
    g: "get_from S sock (response, w10) = Some (Inr (response', w'))"
    and w': "rx w' = []" "tx w' = tx w10" "subseq shown (rx w10)" "0 \<notin> set (rx w10) \<longrightarrow> shown = rx w10"
      "out w' = out w10 @ ascii ''Response:'' @ [LF, LF] @ shown @ (if e = 0 then [LF] else end_text e)"
      "cl w' = cl w10 @ (if e = 0 then [sock] else [])"
    using get_from_run [where w = w10, OF R P C assms(2,3)] by (elim exE conjE) rule
  ultimately have "thread_http_get Z S tls (response, w) = Some (Inr (response', w'))" by simp
  moreover have same: "rx w10 = rx w" "tx w9 = tx w" "cl w10 = cl w" "out w10 = out w7"
    using w7(1-3) 8(2) 9(2) 10(4) by simp_all
  moreover have "out w' = out w @ get_prologue tls res sock @ shown @ (if e = 0 then [LF] else end_text e)"
    using w'(5) same(4) arg_cong [OF w7(4), of "\<lambda>t. t @ shown @ (if e = 0 then [LF] else end_text e)"]
    by (simp only: append_assoc)
  ultimately show ?thesis using w'(1-4,6) 10(1,3)
    by (intro exI [of _ response'] exI [of _ w'] exI [of _ shown] exI [of _ k]) simp
qed

section \<open>Runs of the properties\<close>

definition net_kernel :: "net kernel_api" where
  "net_kernel =
     \<lparr>device_is_ready = (\<lambda>d w. True), device_get_binding = (\<lambda>name w. None), printk = (\<lambda>bs w. w),
      k_sleep = (\<lambda>ms w. w), k_busy_wait = (\<lambda>us w. w), k_uptime_get_32 = (\<lambda>w. (0, w)),
      k_timer_init = (\<lambda>t f w. w), k_timer_user_data_set = (\<lambda>t p w. w), k_timer_start = (\<lambda>t d p w. w),
      k_work_init = (\<lambda>k f w. w), k_work_submit = (\<lambda>k w. w), k_work_queue_init = (\<lambda>w. w),
      k_work_queue_start = (\<lambda>s p w. w), k_work_submit_to_queue = (\<lambda>k w. w),
      k_thread_create = (\<lambda>t f s p w. w), k_thread_start = (\<lambda>t w. w), usb_enable = (\<lambda>w. (0, w))\<rparr>"

definition net_res :: "nat addrinfo" where
  "net_res = \<lparr>ai_family = AF_INET, ai_socktype = SOCK_STREAM, ai_protocol = IPPROTO_TCP, ai_addr = 0, ai_text = []\<rparr>"

lemma net_http_server: "http_server_contract net_kernel net_sock True net_res 3 0 net_rx net_tx net_closed net_out"
proof -
  have "recv_upto net_sock 3 0 net_rx (\<lambda>w. ((net_tx w, net_closed w), net_out w))" by (rule net_recv_contract) simp
  moreover have "send_contract net_sock 3 net_tx (\<lambda>w. (net_rx w, net_closed w, net_out w))" by (rule net_send_contract) simp
  moreover have "close_contract net_sock net_closed (\<lambda>w. (net_rx w, net_tx w, net_out w))" by (rule net_close_contract) simp
  ultimately show ?thesis unfolding http_server_contract_def
    by (intro conjI) (simp_all add: print_contract_def keeps_def net_kernel_def net_sock_def net_res_def)
qed

theorem http_get_prints_response_witness:
  "\<exists>response' w' k. thread_http_get net_kernel net_sock True (replicate 1024 0, net0 [72, 101, 108, 108, 111]) =
       Some (Inr (response', w')) \<and>
     net_tx w' = take k REQUEST \<and> net_closed w' = [3] \<and>
     net_out w' = get_prologue True net_res 3 @ [72, 101, 108, 108, 111] @ [LF]"
proof -
  have "fst (sk_send net_sock 3 bs u) \<noteq> - 1" for bs u by (simp add: net_sock_def)
  from http_get_prints_response [OF net_http_server _ _ this, of "replicate 1024 0" "net0 [72, 101, 108, 108, 111]"]
  show ?thesis by (auto simp: RESPONSE_SIZE_def net0_def)
qed

end
