(* ===== verification/Cdc_Acm_Composite.thy ===== *)
theory Cdc_Acm_Composite
  imports Cdc_Acm
begin

text \<open>
  Two USB serial ports connected back to back, \<^verbatim>\<open>src/main_cdc_acm_composite.c\<close>: what one
  receives the other sends, through a ring buffer each way. A thread waits for the host to
  open both ports and then installs the handlers.
\<close>

section \<open>State\<close>

definition COMPOSITE_RING_BUF_SIZE :: nat where "COMPOSITE_RING_BUF_SIZE = 128"

record 'rb serial_peer =
  peer_dev :: dev
  peer_data :: "nat option"
  peer_rb :: 'rb

text \<open>
  The array \<open>peers\<close>, of at least two elements, as a function of the index; a pointer to an
  element is its index, a null pointer \<open>None\<close>.
\<close>

type_synonym 'rb peers = "nat \<Rightarrow> 'rb serial_peer"

section \<open>The interrupt handler\<close>

text \<open>The receive half: what the port has goes to the ring buffer of the peer's peer.\<close>

definition composite_rx ::
    "'rb ring_api \<Rightarrow> 'w uart_api \<Rightarrow> dev \<Rightarrow> nat \<Rightarrow> 'rb peers \<times> 'w \<Rightarrow> ('rb peers \<times> 'w) checked" where
  "composite_rx R U dev peer st =
     (case st of (peers, w) \<Rightarrow>
      case peer_data (peers peer) of
        None \<Rightarrow> Inl OOB_read
      | Some target \<Rightarrow>
          (case uart_fifo_read U dev 64 w of (n, bs, w1) \<Rightarrow>
           let read = (if n < 0 then 0 else nat n)
           in if length bs < read then Inl Uninit_read
              else case ring_buf_put R (take read bs) (peer_rb (peers target)) of (wrote, rb) \<Rightarrow>
                Inr (peers(target := (peers target)\<lparr>peer_rb := rb\<rparr>),
                     if wrote \<noteq> 0 then uart_irq_tx_enable U (peer_dev (peers peer)) w1 else w1)))"

text \<open>The transmit half: up to 64 bytes of the peer's own ring buffer.\<close>

definition composite_tx ::
    "'rb ring_api \<Rightarrow> 'w uart_api \<Rightarrow> dev \<Rightarrow> nat \<Rightarrow> 'rb peers \<times> 'w \<Rightarrow> 'rb peers \<times> 'w" where
  "composite_tx R U dev peer st =
     (case st of (peers, w) \<Rightarrow>
      case tx_chunk 64 R U dev (peer_rb (peers peer), w) of (rb, w1) \<Rightarrow>
        (peers(peer := (peers peer)\<lparr>peer_rb := rb\<rparr>), w1))"

definition composite_pass ::
    "'rb ring_api \<Rightarrow> 'w uart_api \<Rightarrow> dev \<Rightarrow> nat \<Rightarrow> 'rb peers \<times> 'w \<Rightarrow> ('rb peers \<times> 'w) outcome" where
  "composite_pass R U dev peer st =
     (case st of (peers, w) \<Rightarrow>
      case uart_irq_rx_ready U dev w of (r, w1) \<Rightarrow>
      Some (sbind (if r \<noteq> 0 then composite_rx R U dev peer (peers, w1) else Inr (peers, w1)) (\<lambda>(peers2, w2).
        case uart_irq_tx_ready U dev w2 of (t, w3) \<Rightarrow>
          Inr (if t \<noteq> 0 then composite_tx R U dev peer (peers2, w3) else (peers2, w3)))))"

definition composite_interrupt_handler ::
    "'rb ring_api \<Rightarrow> 'w uart_api \<Rightarrow> dev \<Rightarrow> nat \<Rightarrow> 'rb peers \<times> 'w \<Rightarrow> ('rb peers \<times> 'w) outcome" where
  "composite_interrupt_handler R U dev peer = whileM (pending_guard U dev) (composite_pass R U dev peer)"

section \<open>Starting up\<close>

text \<open>The baud rate is asked for and only logged.\<close>

definition composite_uart_line_set :: "'w kernel_api \<Rightarrow> 'w uart_api \<Rightarrow> dev \<Rightarrow> 'w \<Rightarrow> 'w" where
  "composite_uart_line_set Z U dev w =
     (let w1 = snd (uart_line_ctrl_set U dev UART_LINE_CTRL_DCD 1 w);
          w2 = snd (uart_line_ctrl_set U dev UART_LINE_CTRL_DSR 1 w1);
          w3 = k_busy_wait Z 1000000 w2
      in snd (snd (uart_line_ctrl_get U dev UART_LINE_CTRL_BAUD_RATE w3)))"

text \<open>\<open>dtr\<close> keeps its value when the query writes nothing.\<close>

definition wait_dtr :: "'w kernel_api \<Rightarrow> 'w uart_api \<Rightarrow> dev \<Rightarrow> u32 \<times> 'w \<Rightarrow> (u32 \<times> 'w) outcome" where
  "wait_dtr Z U dev =
     whileM
       (\<lambda>(dtr, w). case uart_line_ctrl_get U dev UART_LINE_CTRL_DTR w of (r, v, w1) \<Rightarrow>
          let dtr1 = (case v of None \<Rightarrow> dtr | Some x \<Rightarrow> x) in (dtr1 = 0, dtr1, w1))
       (\<lambda>(dtr, w). Some (Inr (dtr, k_sleep Z 100 w)))"

definition composite_start ::
    "'w kernel_api \<Rightarrow> 'rb ring_api \<Rightarrow> 'w uart_api \<Rightarrow> 'rb peers \<times> 'w \<Rightarrow> 'rb peers \<times> 'w" where
  "composite_start Z R U st =
     (case st of (peers, w) \<Rightarrow>
      let d0 = peer_dev (peers 0); d1 = peer_dev (peers 1);
          w1 = composite_uart_line_set Z U d0 w;
          w2 = composite_uart_line_set Z U d1 w1;
          peers1 = peers(0 := (peers 0)\<lparr>peer_data := Some 1\<rparr>);
          peers2 = peers1(1 := (peers1 1)\<lparr>peer_data := Some 0\<rparr>);
          peers3 = peers2(0 := (peers2 0)\<lparr>peer_rb := ring_buf_init R COMPOSITE_RING_BUF_SIZE\<rparr>);
          peers4 = peers3(1 := (peers3 1)\<lparr>peer_rb := ring_buf_init R COMPOSITE_RING_BUF_SIZE\<rparr>);
          w3 = uart_irq_callback_user_data_set U d1 Cdc_acm_composite_interrupt_handler (Peer_ptr 0) w2;
          w4 = uart_irq_callback_user_data_set U d0 Cdc_acm_composite_interrupt_handler (Peer_ptr 1) w3;
          w5 = uart_irq_rx_enable U d0 w4
      in (peers4, uart_irq_rx_enable U d1 w5))"

definition threadA ::
    "'w kernel_api \<Rightarrow> 'rb ring_api \<Rightarrow> 'w uart_api \<Rightarrow> nat \<Rightarrow> 'rb peers \<times> 'w \<Rightarrow> ('rb peers \<times> 'w) outcome" where
  "threadA Z R U n st =
     (case st of (peers, w) \<Rightarrow>
      if \<not> list_all (\<lambda>idx. device_is_ready Z (peer_dev (peers idx)) w) [0..<n] then Some (Inr (peers, w))
      else case usb_enable Z w of (ret, w1) \<Rightarrow>
        if ret \<noteq> 0 then Some (Inr (peers, w1))
        else obind (wait_dtr Z U (peer_dev (peers 0)) (0, w1)) (\<lambda>(dtr, w2).
             obind (wait_dtr Z U (peer_dev (peers 1)) (dtr, w2)) (\<lambda>(dtr3, w3).
             Some (Inr (composite_start Z R U (peers, w3))))))"

definition COMPOSITE_STACKSIZE :: nat where [simp]: "COMPOSITE_STACKSIZE = 1024"
definition COMPOSITE_PRIORITY :: nat where [simp]: "COMPOSITE_PRIORITY = 7"

definition main_cdc_acm_composite :: "'w kernel_api \<Rightarrow> 'w \<Rightarrow> 'w" where
  "main_cdc_acm_composite Z w =
     k_thread_start Z ThreadA_data (k_thread_create Z ThreadA_data ThreadA COMPOSITE_STACKSIZE COMPOSITE_PRIORITY w)"

section \<open>One handler\<close>

text \<open>
  An observation of the world that the handler of \<open>d\<close> does not change: none of the calls it
  makes on \<open>d\<close> does.
\<close>

definition uart_frame :: "'w uart_api \<Rightarrow> dev \<Rightarrow> ('w \<Rightarrow> 'a) \<Rightarrow> bool" where
  [contract_defs]: "uart_frame U d \<beta> \<longleftrightarrow>
     keeps (\<lambda>w. snd (uart_irq_update U d w)) \<beta> \<and> keeps (\<lambda>w. snd (uart_irq_is_pending U d w)) \<beta> \<and>
     keeps (\<lambda>w. snd (uart_irq_rx_ready U d w)) \<beta> \<and> keeps (\<lambda>w. snd (uart_irq_tx_ready U d w)) \<beta> \<and>
     (\<forall>n. keeps (\<lambda>w. snd (snd (uart_fifo_read U d n w))) \<beta>) \<and>
     keeps (uart_irq_tx_disable U d) \<beta> \<and> (\<forall>bs. keeps (\<lambda>w. snd (uart_fifo_fill U d bs w)) \<beta>)"

lemma uart_frameD:
  assumes "uart_frame U d \<beta>"
  shows "\<beta> (snd (uart_irq_update U d w)) = \<beta> w" "\<beta> (snd (uart_irq_is_pending U d w)) = \<beta> w"
    "\<beta> (snd (uart_irq_rx_ready U d w)) = \<beta> w" "\<beta> (snd (uart_irq_tx_ready U d w)) = \<beta> w"
    "\<beta> (snd (snd (uart_fifo_read U d n w))) = \<beta> w" "\<beta> (uart_irq_tx_disable U d w) = \<beta> w"
    "\<beta> (snd (uart_fifo_fill U d bs w)) = \<beta> w"
  using assms by (simp_all add: uart_frame_def keeps_def)

lemma pending_guard_frame:
  assumes "uart_frame U d \<beta>"
  shows "\<beta> (snd (snd (pending_guard U d (s, w)))) = \<beta> w"
  using uart_frameD(1) [OF assms, of w] uart_frameD(2) [OF assms, of "snd (uart_irq_update U d w)"]
  by (auto simp: pending_guard_def split: prod.splits)

lemma tx_chunk_frame:
  assumes "uart_frame U d \<beta>"
  shows "\<beta> (snd (tx_chunk n R U d (rb, w))) = \<beta> w"
  using uart_frameD(6,7) [OF assms] by (auto simp: tx_chunk_def split: prod.splits)

text \<open>
  What the other end of the connection sees of a receive: its transmit interrupt is on
  afterwards if anything was stored, and the rest of it is as it was.
\<close>

lemma composite_rx_run:
  fixes content :: "'rb \<Rightarrow> u8 list"
  assumes U: "relay_contract U d lossless rx txr tx" and R: "ring_contract R content cap"
    and le: "length (content (peer_rb (peers t))) \<le> cap"
    and p: "peer_data (peers p) = Some t" and ne: "rx w \<noteq> []"
    and other: "keeps (uart_irq_tx_enable U (peer_dev (peers p))) (\<lambda>w. (rx w, txr w, tx w))"
  shows "\<exists>rb w' k. composite_rx R U d p (peers, w) = Inr (peers(t := (peers t)\<lparr>peer_rb := rb\<rparr>), w') \<and>
     0 < k \<and> k \<le> length (rx w) \<and> rx w' = drop k (rx w) \<and> txr w' = txr w \<and> tx w' = tx w \<and>
     content rb = take cap (content (peer_rb (peers t)) @ take k (rx w)) \<and>
     (content rb = content (peer_rb (peers t)) \<and> w' = snd (snd (uart_fifo_read U d 64 w)) \<or>
      w' = uart_irq_tx_enable U (peer_dev (peers p)) (snd (snd (uart_fifo_read U d 64 w))))"
proof -
  have "0 < (64 :: nat)" by simp
  from relay_read [OF U this ne] obtain k w1 where k: "0 < k" "k \<le> 64" "k \<le> length (rx w)"
    "uart_fifo_read U d 64 w = (int k, take k (rx w), w1)" "rx w1 = drop k (rx w)"
    "txr w1 = txr w" "tx w1 = tx w" by blast
  let ?old = "peer_rb (peers t)" and ?bs = "take k (rx w)"
  obtain wrote rb where q: "ring_buf_put R ?bs ?old = (wrote, rb)" by (cases "ring_buf_put R ?bs ?old")
  from R q have "wrote = min (length ?bs) (cap - length (content ?old))"
    "content rb = content ?old @ take (cap - length (content ?old)) ?bs"
    unfolding ring_contract_def by (metis fst_conv, metis snd_conv)
  then have c: "content rb = take cap (content ?old @ ?bs)" "wrote = 0 \<longrightarrow> content rb = content ?old"
    using le k(1,3) by auto
  let ?w' = "if wrote \<noteq> 0 then uart_irq_tx_enable U (peer_dev (peers p)) w1 else w1"
  have "composite_rx R U d p (peers, w) = Inr (peers(t := (peers t)\<lparr>peer_rb := rb\<rparr>), ?w')"
    using k(3,4) p q by (simp add: composite_rx_def Let_def)
  moreover have "rx ?w' = rx w1" "txr ?w' = txr w1" "tx ?w' = tx w1"
    using keepsD [OF other, of w1] by simp_all
  ultimately show ?thesis using k c
    by (intro exI [of _ rb] exI [of _ ?w'] exI [of _ k]) simp
qed

definition wired :: "'rb peers \<Rightarrow> nat \<Rightarrow> dev \<times> nat option" where
  "wired peers i = (peer_dev (peers i), peer_data (peers i))"

abbreviation ring_of :: "('rb \<Rightarrow> u8 list) \<Rightarrow> 'rb peers \<Rightarrow> nat \<Rightarrow> u8 list" where
  "ring_of content peers i \<equiv> content (peer_rb (peers i))"

text \<open>
  The world of one handler run: port \<open>d\<close> with peer \<open>p\<close>, whose peer is \<open>t\<close>; \<open>\<beta>\<close> and \<open>txr'\<close>
  are what is observed of the port at the other end.
\<close>

definition handler_contract ::
    "'w uart_api \<Rightarrow> 'rb ring_api \<Rightarrow> dev \<Rightarrow> dev \<Rightarrow> bool \<Rightarrow> ('w \<Rightarrow> u8 list) \<Rightarrow> ('w \<Rightarrow> bool) \<Rightarrow> ('w \<Rightarrow> u8 list) \<Rightarrow>
     ('rb \<Rightarrow> u8 list) \<Rightarrow> nat \<Rightarrow> ('w \<Rightarrow> 'a) \<Rightarrow> ('w \<Rightarrow> bool) \<Rightarrow> bool" where
  [contract_defs]: "handler_contract U R d e lossless rx txr tx content cap \<beta> txr' \<longleftrightarrow>
     relay_contract U d lossless rx txr tx \<and> ring_contract R content cap \<and>
     keeps (uart_irq_tx_enable U e) (\<lambda>w. (rx w, txr w, tx w)) \<and>
     uart_frame U d \<beta> \<and> keeps (uart_irq_tx_enable U e) \<beta> \<and>
     uart_frame U d txr' \<and> (\<forall>w. txr' (uart_irq_tx_enable U e w))"

lemma handler_contractD:
  assumes "handler_contract U R d e lossless rx txr tx content cap \<beta> txr'"
  shows "relay_contract U d lossless rx txr tx" "ring_contract R content cap"
    "keeps (uart_irq_tx_enable U e) (\<lambda>w. (rx w, txr w, tx w))"
    "uart_frame U d \<beta>" "\<beta> (uart_irq_tx_enable U e w) = \<beta> w"
    "uart_frame U d txr'" "txr' (uart_irq_tx_enable U e w)"
  using assms by (simp_all add: handler_contract_def keeps_def)

lemma composite_pass_run:
  fixes content :: "'rb \<Rightarrow> u8 list"
  assumes H: "handler_contract U R d (peer_dev (peers p)) lossless rx txr tx content cap \<beta> txr'"
    and le: "length (ring_of content peers t) \<le> cap"
    and pt: "peer_data (peers p) = Some t" "t \<noteq> p" and pend: "rx w \<noteq> [] \<or> txr w"
  shows "\<exists>peers' w' sent. composite_pass R U d p (peers, w) = Some (Inr (peers', w')) \<and> wired peers' = wired peers \<and>
     tx w' = tx w @ sent \<and> length (ring_of content peers' t) \<le> cap \<and>
     take cap (ring_of content peers' t @ rx w') = take cap (ring_of content peers t @ rx w) \<and>
     subseq (sent @ ring_of content peers' p) (ring_of content peers p) \<and>
     (lossless \<longrightarrow> sent @ ring_of content peers' p = ring_of content peers p) \<and> \<beta> w' = \<beta> w \<and>
     (no_stall content txr' (peer_rb (peers t), w) \<longrightarrow> no_stall content txr' (peer_rb (peers' t), w')) \<and>
     (eager_contract U d txr \<and> no_stall content txr (peer_rb (peers p), w) \<longrightarrow>
        no_stall content txr (peer_rb (peers' p), w')) \<and>
     relay_measure rx txr content (peer_rb (peers' p), w') < relay_measure rx txr content (peer_rb (peers p), w)"
proof -
  note U = handler_contractD(1) [OF H] and R = handler_contractD(2) [OF H]
    and en = handler_contractD(3) [OF H] and fb = handler_contractD(4) [OF H]
    and eb = handler_contractD(5) [OF H] and ft = handler_contractD(6) [OF H] and et = handler_contractD(7) [OF H]
  obtain r w1 where q: "uart_irq_rx_ready U d w = (r, w1)" by (cases "uart_irq_rx_ready U d w")
  with relay_queries(3) [OF U, of w] relay_keeps(7-9) [OF U, of w] uart_frameD(3) [OF fb, of w] uart_frameD(3) [OF ft, of w]
  have w1: "r \<noteq> 0 \<longleftrightarrow> rx w \<noteq> []" "rx w1 = rx w" "txr w1 = txr w" "tx w1 = tx w" "\<beta> w1 = \<beta> w" "txr' w1 = txr' w"
    by simp_all
  have "\<exists>rb w2. (if r \<noteq> 0 then composite_rx R U d p (peers, w1) else Inr (peers, w1)) =
        Inr (peers(t := (peers t)\<lparr>peer_rb := rb\<rparr>), w2) \<and>
      txr w2 = txr w \<and> tx w2 = tx w \<and> \<beta> w2 = \<beta> w \<and> length (content rb) \<le> cap \<and>
      take cap (content rb @ rx w2) = take cap (ring_of content peers t @ rx w) \<and>
      (if rx w = [] then rx w2 = [] else length (rx w2) < length (rx w)) \<and>
      (no_stall content txr' (peer_rb (peers t), w) \<longrightarrow> no_stall content txr' (rb, w2))"
  proof (cases "rx w = []")
    case True
    with w1 le show ?thesis
      by (intro exI [of _ "peer_rb (peers t)"] exI [of _ w1]) (simp add: no_stall_def)
  next
    case False
    then have ne: "rx w1 \<noteq> []" using w1 by simp
    from composite_rx_run [where content = content, OF U R le pt(1) ne en] obtain rb w2 k where
      c: "composite_rx R U d p (peers, w1) = Inr (peers(t := (peers t)\<lparr>peer_rb := rb\<rparr>), w2)"
      "0 < k" "k \<le> length (rx w1)" "rx w2 = drop k (rx w1)" "txr w2 = txr w1" "tx w2 = tx w1"
      "content rb = take cap (ring_of content peers t @ take k (rx w1))"
      "content rb = ring_of content peers t \<and> w2 = snd (snd (uart_fifo_read U d 64 w1)) \<or>
        w2 = uart_irq_tx_enable U (peer_dev (peers p)) (snd (snd (uart_fifo_read U d 64 w1)))" by blast
    have b: "\<beta> w2 = \<beta> w" using c(8) w1(5) eb uart_frameD(5) [OF fb, of 64 w1] by auto
    have n: "no_stall content txr' (peer_rb (peers t), w) \<longrightarrow> no_stall content txr' (rb, w2)"
      using c(8) w1(6) et uart_frameD(5) [OF ft, of 64 w1] by (auto simp: no_stall_def)
    have "take cap (content rb @ rx w2) = take cap ((ring_of content peers t @ take k (rx w1)) @ drop k (rx w1))"
      unfolding c(4,7) by (rule take_take_append)
    then have "take cap (content rb @ rx w2) = take cap (ring_of content peers t @ rx w)" using w1 by simp
    with c b n False w1 show ?thesis
      by (intro exI [of _ rb] exI [of _ w2]) auto
  qed
  then obtain rb w2 where
    A: "(if r \<noteq> 0 then composite_rx R U d p (peers, w1) else Inr (peers, w1)) =
        Inr (peers(t := (peers t)\<lparr>peer_rb := rb\<rparr>), w2)"
      "txr w2 = txr w" "tx w2 = tx w" "\<beta> w2 = \<beta> w" "length (content rb) \<le> cap"
      "take cap (content rb @ rx w2) = take cap (ring_of content peers t @ rx w)"
      "if rx w = [] then rx w2 = [] else length (rx w2) < length (rx w)"
      "no_stall content txr' (peer_rb (peers t), w) \<longrightarrow> no_stall content txr' (rb, w2)" by blast
  let ?peers = "peers(t := (peers t)\<lparr>peer_rb := rb\<rparr>)"
  have wd: "wired ?peers = wired peers" by (rule ext) (simp add: wired_def)
  obtain z w3 where t: "uart_irq_tx_ready U d w2 = (z, w3)" by (cases "uart_irq_tx_ready U d w2")
  with relay_queries(4) [OF U, of w2] relay_keeps(10-12) [OF U, of w2] uart_frameD(4) [OF fb, of w2] uart_frameD(4) [OF ft, of w2] A
  have w3: "z \<noteq> 0 \<longleftrightarrow> txr w" "rx w3 = rx w2" "txr w3 = txr w" "tx w3 = tx w" "\<beta> w3 = \<beta> w" "txr' w3 = txr' w2"
    by simp_all
  show ?thesis
  proof (cases "txr w")
    case False
    then have "rx w \<noteq> []" using pend by simp
    with False A w3 t q wd pt show ?thesis
      by (intro exI [of _ ?peers] exI [of _ w3] exI [of _ "[]"])
        (auto simp: composite_pass_def relay_measure_def no_stall_def)
  next
    case True
    have n: "0 < (64 :: nat)" by simp
    from tx_chunk_run [OF U R n, of "peer_rb (peers p)" w3] obtain rb' w' sent where
      c: "tx_chunk 64 R U d (peer_rb (peers p), w3) = (rb', w')" "rx w' = rx w3" "tx w' = tx w3 @ sent"
      "subseq (sent @ content rb') (ring_of content peers p)" "lossless \<longrightarrow> sent @ content rb' = ring_of content peers p"
      "if ring_of content peers p = [] then content rb' = [] \<and> \<not> txr w'
       else length (content rb') < length (ring_of content peers p)" by blast
    let ?peers' = "?peers(p := (?peers p)\<lparr>peer_rb := rb'\<rparr>)"
    have f: "\<beta> w' = \<beta> w3" "txr' w' = txr' w3"
      using tx_chunk_frame [OF fb, of 64 R "peer_rb (peers p)" w3] tx_chunk_frame [OF ft, of 64 R "peer_rb (peers p)" w3] c(1)
      by simp_all
    have wd': "wired ?peers' = wired peers" using wd by (auto simp: wired_def fun_eq_iff)
    have s: "peer_rb (?peers' t) = rb" "peer_rb (?peers' p) = rb'" using pt(2) by simp_all
    have m: "relay_measure rx txr content (rb', w') < relay_measure rx txr content (peer_rb (peers p), w)"
      using c(2,6) w3 A(7) True by (auto simp: relay_measure_def split: if_splits)
    have ns: "no_stall content txr (rb', w')"
      if "eager_contract U d txr" "no_stall content txr (peer_rb (peers p), w)"
    proof -
      have "no_stall content txr (peer_rb (peers p), w3)" using that(2) w3 by (simp add: no_stall_def)
      from tx_chunk_no_stall [OF U R n that(1) this] c(1) show ?thesis by simp
    qed
    have "composite_pass R U d p (peers, w) = Some (Inr (?peers', w'))"
      using q A(1) t w3(1) True c(1) pt(2) by (simp add: composite_pass_def composite_tx_def)
    with c w3 A f wd' m s ns show ?thesis
      by (intro exI [of _ ?peers'] exI [of _ w'] exI [of _ sent]) (simp add: no_stall_def)
  qed
qed

lemma composite_handler_run:
  fixes content :: "'rb \<Rightarrow> u8 list" and rx :: "'w \<Rightarrow> u8 list"
  assumes H: "handler_contract U R d (peer_dev (peers p)) lossless rx txr tx content cap \<beta> txr'"
    and le: "length (ring_of content peers t) \<le> cap"
    and pt: "peer_data (peers p) = Some t" "t \<noteq> p"
  shows "\<exists>peers' w' sent. composite_interrupt_handler R U d p (peers, w) = Some (Inr (peers', w')) \<and>
     wired peers' = wired peers \<and> rx w' = [] \<and> \<not> txr w' \<and> tx w' = tx w @ sent \<and>
     ring_of content peers' t = take cap (ring_of content peers t @ rx w) \<and>
     subseq (sent @ ring_of content peers' p) (ring_of content peers p) \<and>
     (lossless \<longrightarrow> sent @ ring_of content peers' p = ring_of content peers p) \<and> \<beta> w' = \<beta> w \<and>
     (no_stall content txr' (peer_rb (peers t), w) \<longrightarrow> no_stall content txr' (peer_rb (peers' t), w')) \<and>
     (eager_contract U d txr \<and> no_stall content txr (peer_rb (peers p), w) \<longrightarrow> ring_of content peers' p = [])"
proof -
  note U = handler_contractD(1) [OF H]
  let ?P = "\<lambda>(q :: 'rb peers, v :: 'w). \<exists>sent. wired q = wired peers \<and> tx v = tx w @ sent \<and> length (ring_of content q t) \<le> cap \<and>
     take cap (ring_of content q t @ rx v) = take cap (ring_of content peers t @ rx w) \<and>
     subseq (sent @ ring_of content q p) (ring_of content peers p) \<and>
     (lossless \<longrightarrow> sent @ ring_of content q p = ring_of content peers p) \<and> \<beta> v = \<beta> w \<and>
     (no_stall content txr' (peer_rb (peers t), w) \<longrightarrow> no_stall content txr' (peer_rb (q t), v)) \<and>
     (eager_contract U d txr \<and> no_stall content txr (peer_rb (peers p), w) \<longrightarrow> no_stall content txr (peer_rb (q p), v))"
  let ?Q = "\<lambda>(q :: 'rb peers, v :: 'w). ?P (q, v) \<and> rx v = [] \<and> \<not> txr v"
  let ?m = "\<lambda>(q :: 'rb peers, v :: 'w). relay_measure rx txr content (peer_rb (q p), v)"
  have "\<exists>s'. composite_interrupt_handler R U d p (peers, w) = Some (Inr s') \<and> ?Q s'"
    unfolding composite_interrupt_handler_def
  proof (rule whileM_total [where P = ?P and Q = ?Q and m = ?m])
    show "?P (peers, w)" using le by simp
  next
    fix s s1 assume P: "?P s" and go: "pending_guard U d s = (True, s1)"
    obtain q v where s: "s = (q, v)" by (cases s)
    from pending_guard_run [OF U, of q v] go s obtain v1 where
      v1: "s1 = (q, v1)" "rx v1 = rx v" "txr v1 = txr v" "tx v1 = tx v" "rx v \<noteq> [] \<or> txr v" by auto
    have fr: "\<beta> v1 = \<beta> v" "txr' v1 = txr' v"
      using pending_guard_frame [OF handler_contractD(4) [OF H], of q v]
        pending_guard_frame [OF handler_contractD(6) [OF H], of q v] go s v1(1) by simp_all
    from P s obtain sent where I: "wired q = wired peers" "tx v = tx w @ sent" "length (ring_of content q t) \<le> cap"
      "take cap (ring_of content q t @ rx v) = take cap (ring_of content peers t @ rx w)"
      "subseq (sent @ ring_of content q p) (ring_of content peers p)"
      "lossless \<longrightarrow> sent @ ring_of content q p = ring_of content peers p" "\<beta> v = \<beta> w"
      "no_stall content txr' (peer_rb (peers t), w) \<longrightarrow> no_stall content txr' (peer_rb (q t), v)"
      "eager_contract U d txr \<and> no_stall content txr (peer_rb (peers p), w) \<longrightarrow> no_stall content txr (peer_rb (q p), v)"
      unfolding s prod.case by (elim exE conjE) rule
    have dev: "peer_dev (q p) = peer_dev (peers p)" "peer_data (q p) = Some t"
      using fun_cong [OF I(1), of p] pt(1) by (simp_all add: wired_def)
    have H': "handler_contract U R d (peer_dev (q p)) lossless rx txr tx content cap \<beta> txr'" using H dev by simp
    have "rx v1 \<noteq> [] \<or> txr v1" using v1 by simp
    from composite_pass_run [OF H' I(3) dev(2) pt(2) this] obtain q' v' sent' where
      r: "composite_pass R U d p (q, v1) = Some (Inr (q', v'))" "wired q' = wired q" "tx v' = tx v1 @ sent'"
      "length (ring_of content q' t) \<le> cap"
      "take cap (ring_of content q' t @ rx v') = take cap (ring_of content q t @ rx v1)"
      "subseq (sent' @ ring_of content q' p) (ring_of content q p)"
      "lossless \<longrightarrow> sent' @ ring_of content q' p = ring_of content q p" "\<beta> v' = \<beta> v1"
      "no_stall content txr' (peer_rb (q t), v1) \<longrightarrow> no_stall content txr' (peer_rb (q' t), v')"
      "eager_contract U d txr \<and> no_stall content txr (peer_rb (q p), v1) \<longrightarrow> no_stall content txr (peer_rb (q' p), v')"
      "relay_measure rx txr content (peer_rb (q' p), v') < relay_measure rx txr content (peer_rb (q p), v1)" by blast
    have "no_stall content txr' (peer_rb (peers t), w) \<longrightarrow> no_stall content txr' (peer_rb (q' t), v')"
      using I(8) r(9) fr by (simp add: no_stall_def)
    moreover have "eager_contract U d txr \<and> no_stall content txr (peer_rb (peers p), w) \<longrightarrow> no_stall content txr (peer_rb (q' p), v')"
      using I(9) r(10) v1 by (simp add: no_stall_def)
    ultimately have "?P (q', v')"
      using I r v1 fr subseq_trans_append [OF I(5) r(6)]
      by (simp only: prod.case) (intro exI [of _ "sent @ sent'"], auto)
    moreover have "relay_measure rx txr content (peer_rb (q p), v1) = relay_measure rx txr content (peer_rb (q p), v)"
      using v1 by (simp add: relay_measure_def)
    ultimately show "\<exists>s2. composite_pass R U d p s1 = Some (Inr s2) \<and> ?P s2 \<and> ?m s2 < ?m s"
      using r(1,11) s v1(1) by (intro exI [of _ "(q', v')"]) simp
  next
    fix s s1 assume P: "?P s" and stop: "pending_guard U d s = (False, s1)"
    obtain q v where s: "s = (q, v)" by (cases s)
    from pending_guard_run [OF U, of q v] stop s obtain v1 where
      v1: "s1 = (q, v1)" "rx v1 = rx v" "txr v1 = txr v" "tx v1 = tx v" "rx v = []" "\<not> txr v" by auto
    have fr: "\<beta> v1 = \<beta> v" "txr' v1 = txr' v"
      using pending_guard_frame [OF handler_contractD(4) [OF H], of q v]
        pending_guard_frame [OF handler_contractD(6) [OF H], of q v] stop s v1(1) by simp_all
    from P s v1 fr show "?Q s1" by (simp add: no_stall_def)
  qed
  then obtain s where s: "composite_interrupt_handler R U d p (peers, w) = Some (Inr s)" "?Q s" by (elim exE conjE) rule
  obtain q v where sv: "s = (q, v)" by (cases s)
  from s(2) sv have rt: "rx v = []" "\<not> txr v" by simp_all
  from s(2) obtain sent where "wired q = wired peers" "tx v = tx w @ sent" "length (ring_of content q t) \<le> cap"
      "take cap (ring_of content q t @ rx v) = take cap (ring_of content peers t @ rx w)"
      "subseq (sent @ ring_of content q p) (ring_of content peers p)"
      "lossless \<longrightarrow> sent @ ring_of content q p = ring_of content peers p" "\<beta> v = \<beta> w"
      "no_stall content txr' (peer_rb (peers t), w) \<longrightarrow> no_stall content txr' (peer_rb (q t), v)"
      "eager_contract U d txr \<and> no_stall content txr (peer_rb (peers p), w) \<longrightarrow> no_stall content txr (peer_rb (q p), v)"
      unfolding sv prod.case by (elim exE conjE) rule
  with s(1) sv rt show ?thesis
    by (intro exI [of _ q] exI [of _ v] exI [of _ sent]) (simp add: no_stall_def)
qed

section \<open>Waiting for the host\<close>

text \<open>
  The query of DTR on a port: it answers 0 some \<open>m w\<close> times, as long as the thread sleeps in
  between, and then something else. \<open>strict\<close> excludes a query that writes nothing.
\<close>

definition dtr_contract :: "'w kernel_api \<Rightarrow> 'w uart_api \<Rightarrow> dev \<Rightarrow> bool \<Rightarrow> ('w \<Rightarrow> nat) \<Rightarrow> bool" where
  [contract_defs]: "dtr_contract Z U d strict m \<longleftrightarrow>
     (\<forall>w. case uart_line_ctrl_get U d UART_LINE_CTRL_DTR w of (r, v, w1) \<Rightarrow>
        (if m w = 0 then (\<exists>x. v = Some x \<and> x \<noteq> 0)
         else (v = Some 0 \<or> v = None \<and> \<not> strict) \<and> m (k_sleep Z 100 w1) < m w))"

lemma wait_dtr_returns:
  fixes m :: "'w \<Rightarrow> nat"
  assumes D: "dtr_contract Z U d strict m" and start: "dtr = 0 \<or> strict"
  shows "\<exists>dtr' w'. wait_dtr Z U d (dtr, w) = Some (Inr (dtr', w')) \<and> dtr' \<noteq> 0"
proof -
  let ?P = "\<lambda>(x :: u32, v :: 'w). x = 0 \<or> strict" and ?Q = "\<lambda>(x :: u32, v :: 'w). x \<noteq> 0"
  have "\<exists>s. wait_dtr Z U d (dtr, w) = Some (Inr s) \<and> ?Q s"
    unfolding wait_dtr_def
  proof (rule whileM_total [where P = ?P and Q = ?Q and m = "\<lambda>(x, v). m v"])
    show "?P (dtr, w)" using start by simp
  next
    fix s s1 assume P: "?P s" and go: "(case s of (dtr, w) \<Rightarrow> case uart_line_ctrl_get U d UART_LINE_CTRL_DTR w of (r, v, w1) \<Rightarrow>
        let dtr1 = case v of None \<Rightarrow> dtr | Some x \<Rightarrow> x in (dtr1 = 0, dtr1, w1)) = (True, s1)"
    obtain x v where s: "s = (x, v)" by (cases s)
    obtain r y w1 where g: "uart_line_ctrl_get U d UART_LINE_CTRL_DTR v = (r, y, w1)"
      by (cases "uart_line_ctrl_get U d UART_LINE_CTRL_DTR v")
    have "if m v = 0 then \<exists>x. y = Some x \<and> x \<noteq> 0 else (y = Some 0 \<or> y = None \<and> \<not> strict) \<and> m (k_sleep Z 100 w1) < m v"
      using D g unfolding dtr_contract_def by (auto split: prod.splits)
    with go P s g show "\<exists>s2. (case s1 of (dtr, w) \<Rightarrow> Some (Inr (dtr, k_sleep Z 100 w))) = Some (Inr s2) \<and> ?P s2 \<and>
        (case s2 of (x, v) \<Rightarrow> m v) < (case s of (x, v) \<Rightarrow> m v)"
      by (cases "m v = 0") (auto simp: Let_def)
  next
    fix s s1 assume P: "?P s" and stop: "(case s of (dtr, w) \<Rightarrow> case uart_line_ctrl_get U d UART_LINE_CTRL_DTR w of (r, v, w1) \<Rightarrow>
        let dtr1 = case v of None \<Rightarrow> dtr | Some x \<Rightarrow> x in (dtr1 = 0, dtr1, w1)) = (False, s1)"
    then show "?Q s1" by (auto simp: Let_def split: prod.splits)
  qed
  then show ?thesis by auto
qed

lemma wait_dtr_diverges:
  assumes never: "\<And>w. \<exists>r v w1. uart_line_ctrl_get U d UART_LINE_CTRL_DTR w = (r, v, w1) \<and> (v = None \<or> v = Some 0)"
  shows "wait_dtr Z U d (0, w) = None"
  unfolding wait_dtr_def
proof (rule whileM_diverges [where P = "\<lambda>(x, v). x = 0"])
  fix s :: "u32 \<times> 'a"
  assume P: "case s of (x, v) \<Rightarrow> x = 0"
  obtain x v where s: "s = (x, v)" by (cases s)
  from never [of v] obtain r y w1 where "uart_line_ctrl_get U d UART_LINE_CTRL_DTR v = (r, y, w1)" "y = None \<or> y = Some 0"
    by blast
  with s P show "\<exists>s1 s2. (case s of (dtr, w) \<Rightarrow> case uart_line_ctrl_get U d UART_LINE_CTRL_DTR w of (r, v, w1) \<Rightarrow>
      let dtr1 = case v of None \<Rightarrow> dtr | Some x \<Rightarrow> x in (dtr1 = 0, dtr1, w1)) = (True, s1) \<and>
      (case s1 of (dtr, w) \<Rightarrow> Some (Inr (dtr, k_sleep Z 100 w))) = Some (Inr s2) \<and> (case s2 of (x, v) \<Rightarrow> x = 0)"
    by (auto simp: Let_def)
qed simp

section \<open>Properties\<close>

text \<open>One port's handler: it returns, stores what it received (cut to the ring buffer) for the
  other port and nothing else there, and what it sends followed by what is left in its own
  ring buffer is, in order, part of what was there, all of it if the UART takes whole chunks.\<close>

lemma composite_handler_relays:
  fixes content :: "'rb \<Rightarrow> u8 list"
  assumes "handler_contract U R d (peer_dev (peers p)) lossless rx txr tx content COMPOSITE_RING_BUF_SIZE \<beta> txr'"
    and "length (ring_of content peers t) \<le> COMPOSITE_RING_BUF_SIZE"
    and "peer_data (peers p) = Some t" "t \<noteq> p"
  shows "\<exists>peers' w' sent. composite_interrupt_handler R U d p (peers, w) = Some (Inr (peers', w')) \<and>
     wired peers' = wired peers \<and> rx w' = [] \<and> \<not> txr w' \<and> tx w' = tx w @ sent \<and> \<beta> w' = \<beta> w \<and>
     ring_of content peers' t = take COMPOSITE_RING_BUF_SIZE (ring_of content peers t @ rx w) \<and>
     subseq (sent @ ring_of content peers' p) (ring_of content peers p) \<and>
     (lossless \<longrightarrow> sent @ ring_of content peers' p = ring_of content peers p)"
  using composite_handler_run [OF assms, of w] by blast

text \<open>The cross-over connection: with the two elements pointing at each other, the bytes port 0
  receives come out of port 1, in order and all of them up to the 128 the ring buffer holds,
  once each port's handler has run; the ring buffer between them is then empty.\<close>

lemma composite_crossover:
  fixes content :: "'rb \<Rightarrow> u8 list"
  assumes H0: "handler_contract U R d0 d1 True rx0 txr0 tx0 content COMPOSITE_RING_BUF_SIZE tx1 txr1"
    and H1: "handler_contract U R d1 d0 True rx1 txr1 tx1 content COMPOSITE_RING_BUF_SIZE tx0 txr0"
    and wires: "wired peers 0 = (d0, Some 1)" "wired peers 1 = (d1, Some 0)"
    and room: "length (ring_of content peers 0) \<le> COMPOSITE_RING_BUF_SIZE"
      "length (ring_of content peers 1) \<le> COMPOSITE_RING_BUF_SIZE"
    and eager: "eager_contract U d1 txr1" "no_stall content txr1 (peer_rb (peers 0), w)"
  shows "\<exists>peers1 w1 peers2 w2. composite_interrupt_handler R U d0 1 (peers, w) = Some (Inr (peers1, w1)) \<and>
     composite_interrupt_handler R U d1 0 (peers1, w1) = Some (Inr (peers2, w2)) \<and>
     tx1 w2 = tx1 w @ take COMPOSITE_RING_BUF_SIZE (ring_of content peers 0 @ rx0 w) \<and>
     ring_of content peers2 0 = []"
proof -
  have p: "peer_dev (peers 1) = d1" "peer_data (peers 1) = Some 0" using wires by (simp_all add: wired_def)
  have H0': "handler_contract U R d0 (peer_dev (peers 1)) True rx0 txr0 tx0 content COMPOSITE_RING_BUF_SIZE tx1 txr1"
    using H0 p by simp
  have ne: "(0 :: nat) \<noteq> 1" "(1 :: nat) \<noteq> 0" by simp_all
  from composite_handler_run [OF H0' room(1) p(2) ne(1), of w] eager(2) obtain peers1 w1 sent where
    a: "composite_interrupt_handler R U d0 1 (peers, w) = Some (Inr (peers1, w1))" "wired peers1 = wired peers"
    "ring_of content peers1 0 = take COMPOSITE_RING_BUF_SIZE (ring_of content peers 0 @ rx0 w)"
    "sent @ ring_of content peers1 1 = ring_of content peers 1" "tx1 w1 = tx1 w"
    "no_stall content txr1 (peer_rb (peers1 0), w1)" by blast
  have q: "peer_dev (peers1 0) = d0" "peer_data (peers1 0) = Some 1"
    using fun_cong [OF a(2), of 0] wires by (simp_all add: wired_def)
  have H1': "handler_contract U R d1 (peer_dev (peers1 0)) True rx1 txr1 tx1 content COMPOSITE_RING_BUF_SIZE tx0 txr0"
    using H1 q by simp
  have "length (sent @ ring_of content peers1 1) \<le> COMPOSITE_RING_BUF_SIZE" unfolding a(4) by (rule room(2))
  then have le: "length (ring_of content peers1 1) \<le> COMPOSITE_RING_BUF_SIZE" by simp
  from composite_handler_run [OF H1' le q(2) ne(2), of w1] eager(1) a(6) obtain peers2 w2 sent2 where
    b: "composite_interrupt_handler R U d1 0 (peers1, w1) = Some (Inr (peers2, w2))" "tx1 w2 = tx1 w1 @ sent2"
    "sent2 @ ring_of content peers2 0 = ring_of content peers1 0" "ring_of content peers2 0 = []" by blast
  with a show ?thesis
    by (intro exI [of _ peers1] exI [of _ w1] exI [of _ peers2] exI [of _ w2]) simp
qed

text \<open>C31. Once the host has opened both ports (after any number of polls that find DTR down) the
  thread returns, with the elements pointing at each other, both ring buffers new, each
  handler given the other port's element and both receivers enabled.\<close>

theorem threadA_connects:
  assumes ready: "list_all (\<lambda>idx. device_is_ready Z (peer_dev (peers idx)) w) [0..<n]" and usb: "usb_enable Z w = (0, wu)"
    and dtr: "dtr_contract Z U (peer_dev (peers 0)) False m0" "dtr_contract Z U (peer_dev (peers 1)) True m1"
  shows "\<exists>peers' w' wd. threadA Z R U n (peers, w) = Some (Inr (peers', w')) \<and>
     wired peers' 0 = (peer_dev (peers 0), Some 1) \<and> wired peers' 1 = (peer_dev (peers 1), Some 0) \<and>
     peer_rb (peers' 0) = ring_buf_init R 128 \<and> peer_rb (peers' 1) = ring_buf_init R 128 \<and>
     w' = uart_irq_rx_enable U (peer_dev (peers 1)) (uart_irq_rx_enable U (peer_dev (peers 0))
       (uart_irq_callback_user_data_set U (peer_dev (peers 0)) Cdc_acm_composite_interrupt_handler (Peer_ptr 1)
       (uart_irq_callback_user_data_set U (peer_dev (peers 1)) Cdc_acm_composite_interrupt_handler (Peer_ptr 0) wd)))"
proof -
  from wait_dtr_returns [OF dtr(1), of 0 wu] obtain x w2 where
    a: "wait_dtr Z U (peer_dev (peers 0)) (0, wu) = Some (Inr (x, w2))" by blast
  from wait_dtr_returns [OF dtr(2), of x w2] obtain y w3 where
    b: "wait_dtr Z U (peer_dev (peers 1)) (x, w2) = Some (Inr (y, w3))" by blast
  from ready usb a b have "threadA Z R U n (peers, w) = Some (Inr (composite_start Z R U (peers, w3)))"
    by (simp add: threadA_def)
  then show ?thesis
    by (auto simp: composite_start_def Let_def wired_def COMPOSITE_RING_BUF_SIZE_def)
qed

text \<open>As long as the host does not open the first port the thread never returns.\<close>

lemma threadA_waits:
  assumes "list_all (\<lambda>idx. device_is_ready Z (peer_dev (peers idx)) w) [0..<n]" and "usb_enable Z w = (0, wu)"
    and "\<And>w. \<exists>r v w1. uart_line_ctrl_get U (peer_dev (peers 0)) UART_LINE_CTRL_DTR w = (r, v, w1) \<and> (v = None \<or> v = Some 0)"
  shows "threadA Z R U n (peers, w) = None"
  using assms(1,2) wait_dtr_diverges [OF assms(3)] by (simp add: threadA_def)

section \<open>Witnesses\<close>

definition board_peers :: "u8 list peers" where
  "board_peers i = \<lparr>peer_dev = 10 + i, peer_data = Some (if i = 0 then 1 else 0), peer_rb = []\<rparr>"

lemma board_handler_contract:
  "d \<noteq> e \<Longrightarrow> handler_contract board_uart (board_ring cap) d e True (\<lambda>w. rxq w d) (\<lambda>w. tx_on w d) (\<lambda>w. txq w d)
     id cap (\<lambda>w. txq w e) (\<lambda>w. tx_on w e)"
  using board_relay [of d] board_ring_contract [of cap]
  by (simp add: handler_contract_def uart_frame_def keeps_def) (simp add: board_uart_def)

lemma board_dtr: "dtr_contract board_kernel board_uart d strict dtr_after"
  by (simp add: dtr_contract_def) (simp add: board_uart_def board_kernel_def log_def)

theorem threadA_connects_witness:
  "\<exists>peers' w'. threadA board_kernel (board_ring 128) board_uart 2 (board_peers, board0\<lparr>dtr_after := 3\<rparr>) = Some (Inr (peers', w')) \<and>
     peer_data (peers' 0) = Some 1"
proof -
  have r: "list_all (\<lambda>idx. device_is_ready board_kernel (peer_dev (board_peers idx)) (board0\<lparr>dtr_after := 3\<rparr>)) [0..<2]"
    by (simp add: board0_def list_all_iff)
  have u: "usb_enable board_kernel w = (0, log Usb_enable w)" for w by (simp add: board_kernel_def)
  from threadA_connects [OF r u board_dtr board_dtr, of "board_ring 128"] show ?thesis
    by (fastforce simp: wired_def)
qed

end
