(* ===== verification/Main_Shell_Module.thy ===== *)
theory Main_Shell_Module
  imports Cdc_Acm_Composite
begin

text \<open>
  The shell commands and the thread that waits for the shell's port,
  \<^verbatim>\<open>src/main_shell_module.c\<close>. The shell itself, which finds the command and hands over its
  arguments, is the system's.
\<close>

section \<open>Commands\<close>

text \<open>\<open>shell_print\<close> prints a line, \<open>shell_hexdump\<close> a dump of so many bytes.\<close>

record 'w shell_api =
  shell_print :: "u8 list \<Rightarrow> 'w \<Rightarrow> 'w"
  shell_hexdump :: "u8 list \<Rightarrow> 'w \<Rightarrow> 'w"

text \<open>\<open>argv\<close> is an array of C strings; an element is the object that holds the string.\<close>

definition arg :: "u8 list list \<Rightarrow> nat \<Rightarrow> u8 list checked" where
  "arg argv cnt = (if cnt < length argv then cstr (argv ! cnt) else Inl OOB_read)"

definition cmd_demo_ping :: "'w shell_api \<Rightarrow> nat \<Rightarrow> u8 list list \<Rightarrow> 'w \<Rightarrow> (int \<times> 'w) checked" where
  "cmd_demo_ping H argc argv w = Inr (0, shell_print H (ascii ''pong'') w)"

text \<open>\<open>board\<close> is \<^verbatim>\<open>CONFIG_BOARD\<close>.\<close>

definition cmd_demo_board :: "u8 list \<Rightarrow> 'w shell_api \<Rightarrow> nat \<Rightarrow> u8 list list \<Rightarrow> 'w \<Rightarrow> (int \<times> 'w) checked" where
  "cmd_demo_board board H argc argv w = Inr (0, shell_print H board w)"

text \<open>The loops of the next two commands, from \<open>cnt\<close> on with so many passes to go.\<close>

fun params_loop :: "'w shell_api \<Rightarrow> u8 list list \<Rightarrow> nat \<Rightarrow> nat \<Rightarrow> 'w \<Rightarrow> 'w checked" where
  "params_loop H argv 0 cnt w = Inr w"
| "params_loop H argv (Suc k) cnt w =
     sbind (arg argv cnt) (\<lambda>s.
       params_loop H argv k (cnt + 1)
         (shell_print H (ascii ''  argv['' @ dec cnt @ ascii ''] = '' @ s) w))"

fun hexdump_loop :: "'w shell_api \<Rightarrow> u8 list list \<Rightarrow> nat \<Rightarrow> nat \<Rightarrow> 'w \<Rightarrow> 'w checked" where
  "hexdump_loop H argv 0 cnt w = Inr w"
| "hexdump_loop H argv (Suc k) cnt w =
     (let w1 = shell_print H (ascii ''argv['' @ dec cnt @ ascii '']'') w
      in sbind (arg argv cnt) (\<lambda>s. hexdump_loop H argv k (cnt + 1) (shell_hexdump H s w1)))"

definition cmd_demo_params :: "'w shell_api \<Rightarrow> nat \<Rightarrow> u8 list list \<Rightarrow> 'w \<Rightarrow> (int \<times> 'w) checked" where
  "cmd_demo_params H argc argv w =
     sbind (params_loop H argv argc 0 (shell_print H (ascii ''argc = '' @ dec argc) w)) (\<lambda>w1. Inr (0, w1))"

definition cmd_demo_hexdump :: "'w shell_api \<Rightarrow> nat \<Rightarrow> u8 list list \<Rightarrow> 'w \<Rightarrow> (int \<times> 'w) checked" where
  "cmd_demo_hexdump H argc argv w =
     sbind (hexdump_loop H argv argc 0 (shell_print H (ascii ''argc = '' @ dec argc) w)) (\<lambda>w1. Inr (0, w1))"

text \<open>\<open>version\<close> is \<^verbatim>\<open>KERNEL_VERSION_STRING\<close>.\<close>

definition cmd_version :: "u8 list \<Rightarrow> 'w shell_api \<Rightarrow> nat \<Rightarrow> u8 list list \<Rightarrow> 'w \<Rightarrow> (int \<times> 'w) checked" where
  "cmd_version version H argc argv w = Inr (0, shell_print H (ascii ''Zephyr version '' @ version) w)"

text \<open>The command's pointer carries its value, which becomes an \<^verbatim>\<open>int\<close>.\<close>

definition cmd_dict :: "'w shell_api \<Rightarrow> nat \<Rightarrow> u8 list list \<Rightarrow> int \<Rightarrow> 'w \<Rightarrow> (int \<times> 'w) checked" where
  "cmd_dict H argc argv data w =
     (let val = sint (word_of_int data :: 32 word)
      in sbind (arg argv 0) (\<lambda>s.
           Inr (0, shell_print H (ascii ''(syntax, value) : ('' @ s @ ascii '', '' @ fmt_d val @ ascii '')'') w)))"

definition cmd1_handler :: "'w shell_api \<Rightarrow> nat \<Rightarrow> u8 list list \<Rightarrow> 'w \<Rightarrow> (int \<times> 'w) checked" where
  "cmd1_handler H argc argv w = Inr (0, shell_print H (ascii ''cmd1 executed'') w)"

section \<open>The tables\<close>

text \<open>
  What the registration macros lay out for the shell: a command has its name, the commands below
  it, a help text, a handler, and how many arguments it takes, the mandatory ones (its name is one
  of them) and the optional ones, if that is restricted. An entry of a dictionary has a value, and
  the handler of the dictionary.
\<close>

datatype cmd_fn = Cmd_demo_hexdump | Cmd_demo_params | Cmd_demo_ping | Cmd_demo_board | Cmd_version | Cmd1_handler

datatype shell_cmd =
    Shell_cmd (cmd_syntax: "u8 list") (cmd_subs: "shell_cmd list") (cmd_help: "u8 list")
      (cmd_handler: "cmd_fn option") (cmd_args: "(nat \<times> nat) option")
  | Dict_cmd (cmd_syntax: "u8 list") (dict_value: int) (cmd_help: "u8 list")
  where "cmd_subs (Dict_cmd s v h) = []"

definition sub_dict_cmds :: "shell_cmd list" where
  "sub_dict_cmds =
     [Dict_cmd (ascii ''value_0'') 0 (ascii ''value 0''), Dict_cmd (ascii ''value_1'') 1 (ascii ''value 1''),
      Dict_cmd (ascii ''value_2'') 2 (ascii ''value 2''), Dict_cmd (ascii ''value_3'') 3 (ascii ''value 3'')]"

definition sub_demo :: "shell_cmd list" where
  "sub_demo =
     [Shell_cmd (ascii ''dictionary'') sub_dict_cmds (ascii ''Dictionary commands'') None None,
      Shell_cmd (ascii ''hexdump'') [] (ascii ''Hexdump params command.'') (Some Cmd_demo_hexdump) None,
      Shell_cmd (ascii ''params'') [] (ascii ''Print params command.'') (Some Cmd_demo_params) None,
      Shell_cmd (ascii ''ping'') [] (ascii ''Ping command.'') (Some Cmd_demo_ping) None,
      Shell_cmd (ascii ''board'') [] (ascii ''Show board name command.'') (Some Cmd_demo_board) None]"

definition demo_cmd :: shell_cmd where
  "demo_cmd = Shell_cmd (ascii ''demo'') sub_demo (ascii ''Demo commands'') None None"

definition version_cmd :: shell_cmd where
  "version_cmd = Shell_cmd (ascii ''version'') [] (ascii ''Show kernel version'') (Some Cmd_version) (Some (1, 0))"

text \<open>The set below \<open>cmd1\<close> has no members.\<close>

definition sub_section_cmd1 :: "shell_cmd list" where "sub_section_cmd1 = []"

definition sub_section_cmd :: "shell_cmd list" where
  "sub_section_cmd =
     [Shell_cmd (ascii ''cmd1'') sub_section_cmd1 (ascii ''help for cmd1'') (Some Cmd1_handler) (Some (1, 0))]"

definition section_cmd :: shell_cmd where
  "section_cmd = Shell_cmd (ascii ''section_cmd'') sub_section_cmd
     (ascii ''Demo command using section for subcommand registration'') None None"

definition root_cmds :: "shell_cmd list" where "root_cmds = [demo_cmd, version_cmd, section_cmd]"

text \<open>
  A command line, split into words: the shell finds the command (\<open>look\<close> is its look-up, which
  answers with the command and the arguments from the command's name on) and calls its handler.
\<close>

definition call_handler ::
    "u8 list \<Rightarrow> u8 list \<Rightarrow> 'w shell_api \<Rightarrow> shell_cmd \<Rightarrow> nat \<Rightarrow> u8 list list \<Rightarrow> 'w \<Rightarrow> (int \<times> 'w) checked option" where
  "call_handler board version H cmd argc argv w =
     (case cmd of
        Dict_cmd s v h \<Rightarrow> Some (cmd_dict H argc argv v w)
      | Shell_cmd s subs h f n \<Rightarrow> map_option (\<lambda>f. case f of
            Cmd_demo_hexdump \<Rightarrow> cmd_demo_hexdump H argc argv w
          | Cmd_demo_params \<Rightarrow> cmd_demo_params H argc argv w
          | Cmd_demo_ping \<Rightarrow> cmd_demo_ping H argc argv w
          | Cmd_demo_board \<Rightarrow> cmd_demo_board board H argc argv w
          | Cmd_version \<Rightarrow> cmd_version version H argc argv w
          | Cmd1_handler \<Rightarrow> cmd1_handler H argc argv w) f)"

definition command_line ::
    "(shell_cmd list \<Rightarrow> u8 list list \<Rightarrow> (shell_cmd \<times> u8 list list) option) \<Rightarrow> u8 list \<Rightarrow> u8 list \<Rightarrow> 'w shell_api \<Rightarrow>
     u8 list list \<Rightarrow> 'w \<Rightarrow> (int \<times> 'w) checked option" where
  "command_line look board version H ws w =
     (case look root_cmds ws of
        None \<Rightarrow> None
      | Some (cmd, args) \<Rightarrow> call_handler board version H cmd (length args) (map (\<lambda>s. s @ [NUL]) args) w)"

section \<open>The thread\<close>

text \<open>
  \<open>obscured\<close> is \<^verbatim>\<open>CONFIG_SHELL_START_OBSCURED\<close>, with \<open>login_init\<close> not a function of the
  repository; \<open>on_usb\<close> is whether the shell's port is a CDC ACM one.
\<close>

definition shell_wait :: "'w kernel_api \<Rightarrow> 'w uart_api \<Rightarrow> dev \<Rightarrow> u32 \<times> 'w \<Rightarrow> (u32 \<times> 'w) outcome" where
  "shell_wait Z U dev =
     whileM (\<lambda>(dtr, w). (dtr = 0, dtr, w))
       (\<lambda>(dtr, w). case uart_line_ctrl_get U dev UART_LINE_CTRL_DTR w of (r, v, w1) \<Rightarrow>
          Some (Inr (case v of None \<Rightarrow> dtr | Some x \<Rightarrow> x, k_sleep Z 100 w1)))"

definition thread_shell_module ::
    "bool \<Rightarrow> bool \<Rightarrow> ('w \<Rightarrow> 'w) \<Rightarrow> 'w kernel_api \<Rightarrow> 'w uart_api \<Rightarrow> dev \<Rightarrow> 'w \<Rightarrow> 'w outcome" where
  "thread_shell_module obscured on_usb login_init Z U dev w =
     (let w1 = printk Z (ascii ''start !'') w;
          w2 = (if obscured then login_init w1 else w1)
      in if \<not> on_usb then Some (Inr w2)
         else if \<not> device_is_ready Z dev w2 then Some (Inr w2)
         else case usb_enable Z w2 of (ret, w3) \<Rightarrow>
           if ret \<noteq> 0 then Some (Inr w3)
           else obind (shell_wait Z U dev (0, w3)) (\<lambda>(dtr, w4). Some (Inr w4)))"

definition SHELL_STACKSIZE :: nat where [simp]: "SHELL_STACKSIZE = 1024"
definition SHELL_PRIORITY :: nat where [simp]: "SHELL_PRIORITY = 7"

definition main_shell_module :: "'w kernel_api \<Rightarrow> 'w \<Rightarrow> 'w" where
  "main_shell_module Z w =
     k_thread_start Z Thread_shell_module_data
       (k_thread_create Z Thread_shell_module_data Thread_shell_module SHELL_STACKSIZE SHELL_PRIORITY w)"

section \<open>Lemmas\<close>

text \<open>What the shell shows, the lines and dumps in order.\<close>

datatype shown = Line "u8 list" | Dump "u8 list"

definition shell_contract :: "'w shell_api \<Rightarrow> ('w \<Rightarrow> shown list) \<Rightarrow> bool" where
  [contract_defs]: "shell_contract H scr \<longleftrightarrow>
     (\<forall>bs w. scr (shell_print H bs w) = scr w @ [Line bs]) \<and> (\<forall>bs w. scr (shell_hexdump H bs w) = scr w @ [Dump bs])"

definition c_args :: "u8 list list \<Rightarrow> u8 list list" where
  "c_args args = map (\<lambda>s. s @ [NUL]) args"

definition args_ok :: "u8 list list \<Rightarrow> bool" where
  "args_ok args \<longleftrightarrow> list_all (\<lambda>s. NUL \<notin> set s) args"

definition param_line :: "u8 list list \<Rightarrow> nat \<Rightarrow> shown list" where
  "param_line args i = [Line (ascii ''  argv['' @ dec i @ ascii ''] = '' @ args ! i)]"

definition dump_lines :: "u8 list list \<Rightarrow> nat \<Rightarrow> shown list" where
  "dump_lines args i = [Line (ascii ''argv['' @ dec i @ ascii '']''), Dump (args ! i)]"

lemma arg_ok: "args_ok args \<Longrightarrow> i < length args \<Longrightarrow> arg (c_args args) i = Inr (args ! i)"
  by (simp add: arg_def c_args_def args_ok_def list_all_length cstr_terminated)

lemma params_loop_run:
  assumes "shell_contract H scr" and "args_ok args"
  shows "i + k \<le> length args \<Longrightarrow>
    \<exists>w'. params_loop H (c_args args) k i w = Inr w' \<and> scr w' = scr w @ concat (map (param_line args) [i ..< i + k])"
proof (induction k arbitrary: i w)
  case 0
  then show ?case by simp
next
  case (Suc k)
  let ?w = "shell_print H (ascii ''  argv['' @ dec i @ ascii ''] = '' @ args ! i) w"
  from Suc.IH [of "i + 1" ?w] Suc.prems obtain w' where
    "params_loop H (c_args args) k (i + 1) ?w = Inr w'"
    "scr w' = scr ?w @ concat (map (param_line args) [i + 1 ..< i + Suc k])" by auto
  moreover have "scr ?w = scr w @ param_line args i" using assms(1) by (simp add: shell_contract_def param_line_def)
  ultimately show ?case using Suc.prems by (simp add: arg_ok [OF assms(2)] upt_conv_Cons del: upt_Suc)
qed

lemma hexdump_loop_run:
  assumes "shell_contract H scr" and "args_ok args"
  shows "i + k \<le> length args \<Longrightarrow>
    \<exists>w'. hexdump_loop H (c_args args) k i w = Inr w' \<and> scr w' = scr w @ concat (map (dump_lines args) [i ..< i + k])"
proof (induction k arbitrary: i w)
  case 0
  then show ?case by simp
next
  case (Suc k)
  let ?w = "shell_hexdump H (args ! i) (shell_print H (ascii ''argv['' @ dec i @ ascii '']'') w)"
  from Suc.IH [of "i + 1" ?w] Suc.prems obtain w' where
    "hexdump_loop H (c_args args) k (i + 1) ?w = Inr w'"
    "scr w' = scr ?w @ concat (map (dump_lines args) [i + 1 ..< i + Suc k])" by auto
  moreover have "scr ?w = scr w @ dump_lines args i" using assms(1) by (simp add: shell_contract_def dump_lines_def)
  ultimately show ?case using Suc.prems by (simp add: arg_ok [OF assms(2)] upt_conv_Cons Let_def del: upt_Suc)
qed

text \<open>
  The look-up, as the shell documents it: the words of a command line lead through the tables to a
  command as far as they name commands, and the rest is its arguments; a command that restricts
  their number is not run with another. Words that ask for help or have wildcards in them are
  treated otherwise, and there may be no more than \<open>argc_max\<close> words.
\<close>

definition find_cmd :: "shell_cmd list \<Rightarrow> u8 list \<Rightarrow> shell_cmd option" where
  "find_cmd cmds s = find (\<lambda>c. cmd_syntax c = s) cmds"

fun resolve :: "shell_cmd list \<Rightarrow> u8 list list \<Rightarrow> shell_cmd option" where
  "resolve cmds [] = None"
| "resolve cmds [s] = find_cmd cmds s"
| "resolve cmds (s # t # ss) = (case find_cmd cmds s of None \<Rightarrow> None | Some c \<Rightarrow> resolve (cmd_subs c) (t # ss))"

fun runnable :: "shell_cmd \<Rightarrow> bool" where
  "runnable (Dict_cmd s v h) = True"
| "runnable (Shell_cmd s subs h f n) = (f \<noteq> None)"

fun takes :: "shell_cmd \<Rightarrow> nat \<Rightarrow> bool" where
  "takes (Dict_cmd s v h) n = (n = 1)"
| "takes (Shell_cmd s subs h f None) n = True"
| "takes (Shell_cmd s subs h f (Some (mandatory, optional))) n = (mandatory \<le> n \<and> n \<le> mandatory + optional)"

definition plain_word :: "u8 list \<Rightarrow> bool" where
  "plain_word s \<longleftrightarrow> s \<noteq> ascii ''-h'' \<and> s \<noteq> ascii ''--help'' \<and> 42 \<notin> set s \<and> 63 \<notin> set s"

definition look_contract ::
    "(shell_cmd list \<Rightarrow> u8 list list \<Rightarrow> (shell_cmd \<times> u8 list list) option) \<Rightarrow> nat \<Rightarrow> bool" where
  [contract_defs]: "look_contract look argc_max \<longleftrightarrow>
     (\<forall>cmds path rest cmd. resolve cmds path = Some cmd \<and> runnable cmd \<and> list_all plain_word (path @ rest) \<and>
        (rest = [] \<or> find_cmd (cmd_subs cmd) (hd rest) = None) \<and> length (path @ rest) \<le> argc_max \<longrightarrow>
        look cmds (path @ rest) = (if takes cmd (length rest + 1) then Some (cmd, last path # rest) else None))"

lemma command_line_calls:
  assumes "look_contract look argc_max" and "resolve root_cmds path = Some cmd" and "runnable cmd"
    and "list_all plain_word (path @ rest)" and "rest = [] \<or> find_cmd (cmd_subs cmd) (hd rest) = None"
    and "length (path @ rest) \<le> argc_max"
  shows "command_line look board version H (path @ rest) w =
    (if takes cmd (length rest + 1)
     then call_handler board version H cmd (length rest + 1) (c_args (last path # rest)) w else None)"
proof -
  have "look root_cmds (path @ rest) = (if takes cmd (length rest + 1) then Some (cmd, last path # rest) else None)"
    using assms unfolding look_contract_def by blast
  then show ?thesis by (simp add: command_line_def c_args_def)
qed

lemma command_line_calls0:
  assumes "look_contract look argc_max" and "resolve root_cmds path = Some cmd" and "runnable cmd"
    and "list_all plain_word path" and "length path \<le> argc_max"
  shows "command_line look board version H path w =
    (if takes cmd 1 then call_handler board version H cmd 1 (c_args [last path]) w else None)"
  using command_line_calls [where rest = "[]" and H = H and w = w and board = board and version = version, OF assms(1-3)] assms(4,5)
  by (simp cong: if_cong)

lemmas table_defs = root_cmds_def demo_cmd_def version_cmd_def section_cmd_def sub_demo_def sub_dict_cmds_def
  sub_section_cmd_def sub_section_cmd1_def find_cmd_def ascii_def

definition answers ::
    "(shell_cmd list \<Rightarrow> u8 list list \<Rightarrow> (shell_cmd \<times> u8 list list) option) \<Rightarrow> u8 list \<Rightarrow> u8 list \<Rightarrow> 'w shell_api \<Rightarrow>
     ('w \<Rightarrow> shown list) \<Rightarrow> u8 list list \<Rightarrow> shown list \<Rightarrow> 'w \<Rightarrow> bool" where
  "answers look board version H scr ws lines w \<longleftrightarrow>
     (case command_line look board version H ws w of Some (Inr (ret, w')) \<Rightarrow> ret = 0 \<and> scr w' = scr w @ lines | _ \<Rightarrow> False)"

lemma plain_words:
  "plain_word (ascii ''demo'')" "plain_word (ascii ''dictionary'')" "plain_word (ascii ''hexdump'')"
  "plain_word (ascii ''params'')" "plain_word (ascii ''ping'')" "plain_word (ascii ''board'')"
  "plain_word (ascii ''version'')" "plain_word (ascii ''section_cmd'')" "plain_word (ascii ''cmd1'')"
  "plain_word (ascii ''value_0'')" "plain_word (ascii ''value_1'')" "plain_word (ascii ''value_2'')" "plain_word (ascii ''value_3'')"
  by (simp_all add: plain_word_def ascii_def)

lemma dict_answers:
  assumes scr: "shell_contract H scr" and look: "look_contract look argc_max" and n: "3 \<le> argc_max"
    and s: "resolve root_cmds [ascii ''demo'', ascii ''dictionary'', s] = Some (Dict_cmd s v h)" "plain_word s" "NUL \<notin> set s"
    and v: "0 \<le> v" "v < 4"
  shows "answers look board version H scr [ascii ''demo'', ascii ''dictionary'', s]
    [Line (ascii ''(syntax, value) : ('' @ s @ ascii '', '' @ fmt_d v @ ascii '')'')] w"
proof -
  have "v = 0 \<or> v = 1 \<or> v = 2 \<or> v = 3" using v by linarith
  then have "sint (word_of_int v :: 32 word) = v" by auto
  moreover have "arg (c_args [s]) 0 = Inr s" using s(3) by (intro arg_ok [of "[s]" 0, simplified]) (simp add: args_ok_def)
  moreover have "command_line look board version H [ascii ''demo'', ascii ''dictionary'', s] w =
      call_handler board version H (Dict_cmd s v h) 1 (c_args [s]) w"
    using command_line_calls0 [where H = H and w = w and board = board and version = version, OF look s(1)] n s(2)
    by (simp add: plain_words)
  ultimately show ?thesis using scr by (simp add: answers_def call_handler_def cmd_dict_def shell_contract_def)
qed

lemma shell_wait_returns:
  fixes m :: "'w \<Rightarrow> nat"
  assumes D: "dtr_contract Z U d strict m"
  shows "\<exists>dtr' w'. shell_wait Z U d (0, w) = Some (Inr (dtr', w')) \<and> dtr' \<noteq> 0"
proof -
  let ?P = "\<lambda>(x :: u32, v :: 'w). True" and ?Q = "\<lambda>(x :: u32, v :: 'w). x \<noteq> 0"
  have "\<exists>s. shell_wait Z U d (0, w) = Some (Inr s) \<and> ?Q s"
    unfolding shell_wait_def
  proof (rule whileM_total [where P = ?P and Q = ?Q and m = "\<lambda>(x, v). if x = 0 then Suc (m v) else 0"])
    fix s s1 :: "u32 \<times> 'w" assume go: "(case s of (dtr :: u32, w) \<Rightarrow> (dtr = 0, dtr, w)) = (True, s1)"
    then obtain v where s: "s = (0, v)" "s1 = (0, v)" by (cases s) auto
    obtain r y w1 where g: "uart_line_ctrl_get U d UART_LINE_CTRL_DTR v = (r, y, w1)"
      by (cases "uart_line_ctrl_get U d UART_LINE_CTRL_DTR v")
    have "if m v = 0 then \<exists>x. y = Some x \<and> x \<noteq> 0 else (y = Some 0 \<or> y = None \<and> \<not> strict) \<and> m (k_sleep Z 100 w1) < m v"
      using D g unfolding dtr_contract_def by (auto split: prod.splits)
    with s g show "\<exists>s2. (case s1 of (dtr, w) \<Rightarrow> case uart_line_ctrl_get U d UART_LINE_CTRL_DTR w of (r, v, w1) \<Rightarrow>
          Some (Inr (case v of None \<Rightarrow> dtr | Some x \<Rightarrow> x, k_sleep Z 100 w1))) = Some (Inr s2) \<and> ?P s2 \<and>
        (case s2 of (x, v) \<Rightarrow> if x = 0 then Suc (m v) else 0) < (case s of (x, v) \<Rightarrow> if x = 0 then Suc (m v) else 0)"
      by (cases "m v = 0") auto
  next
    fix s s1 :: "u32 \<times> 'w" assume "(case s of (dtr :: u32, w) \<Rightarrow> (dtr = 0, dtr, w)) = (False, s1)"
    then show "?Q s1" by (cases s) auto
  qed simp
  then show ?thesis by auto
qed

text \<open>
  The thread returns once the host has opened the shell's port, after any number of polls
  that find DTR down; it returns at once when the port is no USB one, not ready, or USB fails.
\<close>

lemma thread_shell_module_returns:
  assumes "dtr_contract Z U dev strict m"
  shows "\<exists>w'. thread_shell_module obscured on_usb login_init Z U dev w = Some (Inr w')"
proof -
  obtain ret w3 where u: "usb_enable Z (if obscured then login_init (printk Z (ascii ''start !'') w)
      else printk Z (ascii ''start !'') w) = (ret, w3)" by fastforce
  from shell_wait_returns [OF assms, of w3] obtain dtr' w4 where
    "shell_wait Z U dev (0, w3) = Some (Inr (dtr', w4))" by blast
  with u show ?thesis by (auto simp: thread_shell_module_def Let_def)
qed

text \<open>
  The two commands that show their arguments show all of them, in order and complete, and read
  nothing else.
\<close>

lemma params_hexdump_run:
  assumes "shell_contract H scr" and "args_ok args"
  shows "\<exists>w1. cmd_demo_params H (length args) (c_args args) w = Inr (0, w1) \<and>
       scr w1 = scr w @ Line (ascii ''argc = '' @ dec (length args)) # concat (map (param_line args) [0 ..< length args])"
    and "\<exists>w2. cmd_demo_hexdump H (length args) (c_args args) w = Inr (0, w2) \<and>
       scr w2 = scr w @ Line (ascii ''argc = '' @ dec (length args)) # concat (map (dump_lines args) [0 ..< length args])"
proof -
  let ?w = "shell_print H (ascii ''argc = '' @ dec (length args)) w"
  have w: "scr ?w = scr w @ [Line (ascii ''argc = '' @ dec (length args))]" using assms(1) by (simp add: shell_contract_def)
  from params_loop_run [OF assms, of 0 "length args" ?w] w
  show "\<exists>w1. cmd_demo_params H (length args) (c_args args) w = Inr (0, w1) \<and>
       scr w1 = scr w @ Line (ascii ''argc = '' @ dec (length args)) # concat (map (param_line args) [0 ..< length args])"
    by (auto simp: cmd_demo_params_def)
  from hexdump_loop_run [OF assms, of 0 "length args" ?w] w
  show "\<exists>w2. cmd_demo_hexdump H (length args) (c_args args) w = Inr (0, w2) \<and>
       scr w2 = scr w @ Line (ascii ''argc = '' @ dec (length args)) # concat (map (dump_lines args) [0 ..< length args])"
    by (auto simp: cmd_demo_hexdump_def)
qed

text \<open>The commands that take any arguments, and those that take none.\<close>

lemma args_answers:
  assumes scr: "shell_contract H scr" and look: "look_contract look argc_max"
    and ws: "list_all plain_word args" "args_ok args" "length args + 2 \<le> argc_max"
  shows "answers look board version H scr (ascii ''demo'' # ascii ''params'' # args)
      (Line (ascii ''argc = '' @ dec (length args + 1)) #
         concat (map (param_line (ascii ''params'' # args)) [0 ..< length args + 1])) w"
    and "answers look board version H scr (ascii ''demo'' # ascii ''hexdump'' # args)
      (Line (ascii ''argc = '' @ dec (length args + 1)) #
         concat (map (dump_lines (ascii ''hexdump'' # args)) [0 ..< length args + 1])) w"
proof -
  let ?c = "\<lambda>s h f. Shell_cmd s [] h (Some f) None"
  let ?p = "?c (ascii ''params'') (ascii ''Print params command.'') Cmd_demo_params"
  let ?h = "?c (ascii ''hexdump'') (ascii ''Hexdump params command.'') Cmd_demo_hexdump"
  have r: "resolve root_cmds [ascii ''demo'', ascii ''params''] = Some ?p"
    "resolve root_cmds [ascii ''demo'', ascii ''hexdump''] = Some ?h"
    by (simp_all add: table_defs)
  have call: "command_line look board version H ([ascii ''demo'', s] @ args) w =
      call_handler board version H (?c s h f) (length args + 1) (c_args (s # args)) w"
    if "resolve root_cmds [ascii ''demo'', s] = Some (?c s h f)" "plain_word s" for s h f
    using command_line_calls [where H = H and w = w and board = board and version = version, OF look that(1), of args] that(2) ws
    by (simp add: plain_words find_cmd_def)
  have ok: "args_ok (ascii ''params'' # args)" "args_ok (ascii ''hexdump'' # args)"
    using ws(2) by (simp_all add: args_ok_def ascii_def)
  from params_hexdump_run(1) [OF scr ok(1), of w] call [OF r(1)]
  show "answers look board version H scr (ascii ''demo'' # ascii ''params'' # args)
      (Line (ascii ''argc = '' @ dec (length args + 1)) #
         concat (map (param_line (ascii ''params'' # args)) [0 ..< length args + 1])) w"
    by (auto simp: answers_def plain_words call_handler_def simp del: upt_Suc)
  from params_hexdump_run(2) [OF scr ok(2), of w] call [OF r(2)]
  show "answers look board version H scr (ascii ''demo'' # ascii ''hexdump'' # args)
      (Line (ascii ''argc = '' @ dec (length args + 1)) #
         concat (map (dump_lines (ascii ''hexdump'' # args)) [0 ..< length args + 1])) w"
    by (auto simp: answers_def plain_words call_handler_def simp del: upt_Suc)
qed

lemma plain_answers:
  assumes scr: "shell_contract H scr" and look: "look_contract look argc_max" and n: "3 \<le> argc_max"
  shows "answers look board version H scr [ascii ''demo'', ascii ''ping''] [Line (ascii ''pong'')] w"
    and "answers look board version H scr [ascii ''demo'', ascii ''board''] [Line board] w"
    and "answers look board version H scr [ascii ''version''] [Line (ascii ''Zephyr version '' @ version)] w"
    and "answers look board version H scr [ascii ''section_cmd'', ascii ''cmd1''] [Line (ascii ''cmd1 executed'')] w"
proof -
  have call: "command_line look board version H path w =
      (if takes cmd 1 then call_handler board version H cmd 1 (c_args [last path]) w else None)"
    if "resolve root_cmds path = Some cmd" "runnable cmd" "list_all plain_word path" "length path \<le> 3" for path cmd
    using command_line_calls0 [where H = H and w = w and board = board and version = version, OF look that(1-3)] that(4) n
    by (simp cong: if_cong)
  show "answers look board version H scr [ascii ''demo'', ascii ''ping''] [Line (ascii ''pong'')] w"
    using call [of "[ascii ''demo'', ascii ''ping'']" "Shell_cmd (ascii ''ping'') [] (ascii ''Ping command.'') (Some Cmd_demo_ping) None"] scr
    by (simp add: answers_def call_handler_def cmd_demo_ping_def shell_contract_def plain_words) (simp add: table_defs)
  show "answers look board version H scr [ascii ''demo'', ascii ''board''] [Line board] w"
    using call [of "[ascii ''demo'', ascii ''board'']" "Shell_cmd (ascii ''board'') [] (ascii ''Show board name command.'') (Some Cmd_demo_board) None"] scr
    by (simp add: answers_def call_handler_def cmd_demo_board_def shell_contract_def plain_words) (simp add: table_defs)
  show "answers look board version H scr [ascii ''version''] [Line (ascii ''Zephyr version '' @ version)] w"
    using call [of "[ascii ''version'']" version_cmd] scr
    by (simp add: answers_def call_handler_def cmd_version_def shell_contract_def plain_words version_cmd_def) (simp add: table_defs)
  show "answers look board version H scr [ascii ''section_cmd'', ascii ''cmd1''] [Line (ascii ''cmd1 executed'')] w"
    using call [of "[ascii ''section_cmd'', ascii ''cmd1'']" "Shell_cmd (ascii ''cmd1'') sub_section_cmd1 (ascii ''help for cmd1'') (Some Cmd1_handler) (Some (1, 0))"] scr
    by (simp add: answers_def call_handler_def cmd1_handler_def shell_contract_def plain_words) (simp add: table_defs)
qed

lemma version_refuses_args:
  assumes "look_contract look argc_max" and "list_all plain_word args" and "args \<noteq> []" and "length args + 1 \<le> argc_max"
  shows "command_line look board version H (ascii ''version'' # args) w = None"
proof -
  have r: "resolve root_cmds [ascii ''version''] = Some version_cmd" by (simp add: table_defs)
  have v: "runnable version_cmd" "cmd_subs version_cmd = []" "\<not> takes version_cmd (length args + 1)"
    using assms(3) by (simp_all add: version_cmd_def)
  from command_line_calls [where H = H and w = w and board = board and version = version, OF assms(1) r v(1), of args] v assms
  show ?thesis by (simp add: plain_words find_cmd_def)
qed

lemma dict_numbers: "k < 4 \<Longrightarrow> answers look board version H scr [ascii ''demo'', ascii ''dictionary'', ascii ''value_'' @ dec k]
    [Line (ascii ''(syntax, value) : (value_'' @ dec k @ ascii '', '' @ dec k @ ascii '')'')] w"
  if scr: "shell_contract H scr" and look: "look_contract look argc_max" and n: "3 \<le> argc_max"
proof -
  let ?s = "ascii ''value_'' @ dec k"
  assume "k < 4"
  then have k: "k = 0 \<or> k = 1 \<or> k = 2 \<or> k = 3" by linarith
  have d: "dec 0 = [48]" "dec 1 = [49]" "dec 2 = [50]" "dec 3 = [51]"
    by (subst dec.simps, simp)+
  have "\<exists>h. resolve root_cmds [ascii ''demo'', ascii ''dictionary'', ?s] = Some (Dict_cmd ?s (int k) h)"
    using k by (elim disjE) (simp_all only: d, simp_all add: table_defs)
  then obtain h where r: "resolve root_cmds [ascii ''demo'', ascii ''dictionary'', ?s] = Some (Dict_cmd ?s (int k) h)" ..
  have "plain_word ?s" and "NUL \<notin> set ?s"
    using k by (elim disjE; simp only: d; simp add: plain_word_def ascii_def)+
  from dict_answers [OF scr look n r this, of board version w] \<open>k < 4\<close> show ?thesis
    by (simp add: fmt_d_def ascii_def)
qed

section \<open>Properties\<close>

text \<open>
  C26. Every command of the shell's tables answers: under the words that lead to it its handler runs,
  answers 0 and shows what it is for: the fixed answers, the four values of the dictionary, and for
  the two commands that show their arguments all of them, with the command's own name first, in
  order and complete. The command that takes no argument is not run with one.
\<close>

theorem shell_commands_answer:
  assumes "shell_contract H scr" and "look_contract look argc_max" and "3 \<le> argc_max"
    and "list_all plain_word args" and "args_ok args" and "length args + 2 \<le> argc_max" and "k < 4"
  shows "answers look board version H scr [ascii ''demo'', ascii ''ping''] [Line (ascii ''pong'')] w \<and>
     answers look board version H scr [ascii ''demo'', ascii ''board''] [Line board] w \<and>
     answers look board version H scr [ascii ''version''] [Line (ascii ''Zephyr version '' @ version)] w \<and>
     answers look board version H scr [ascii ''section_cmd'', ascii ''cmd1''] [Line (ascii ''cmd1 executed'')] w \<and>
     answers look board version H scr [ascii ''demo'', ascii ''dictionary'', ascii ''value_'' @ dec k]
      [Line (ascii ''(syntax, value) : (value_'' @ dec k @ ascii '', '' @ dec k @ ascii '')'')] w \<and>
     answers look board version H scr (ascii ''demo'' # ascii ''params'' # args)
      (Line (ascii ''argc = '' @ dec (length args + 1)) #
         concat (map (param_line (ascii ''params'' # args)) [0 ..< length args + 1])) w \<and>
     answers look board version H scr (ascii ''demo'' # ascii ''hexdump'' # args)
      (Line (ascii ''argc = '' @ dec (length args + 1)) #
         concat (map (dump_lines (ascii ''hexdump'' # args)) [0 ..< length args + 1])) w \<and>
     (args \<noteq> [] \<longrightarrow> command_line look board version H (ascii ''version'' # args) w = None)"
proof (intro conjI impI)
  assume "args \<noteq> []"
  then show "command_line look board version H (ascii ''version'' # args) w = None"
    using version_refuses_args [OF assms(2,4)] assms(6) by simp
qed (rule plain_answers [OF assms(1-3)] dict_numbers [OF assms(1-3,7)] args_answers [OF assms(1,2,4-6)])+

section \<open>Runs of the properties\<close>

definition screen :: "shown list shell_api" where
  "screen = \<lparr>shell_print = (\<lambda>bs w. w @ [Line bs]), shell_hexdump = (\<lambda>bs w. w @ [Dump bs])\<rparr>"

text \<open>A look-up that follows the tables as far as it can.\<close>

fun walk :: "shell_cmd list \<Rightarrow> u8 list list \<Rightarrow> (shell_cmd \<times> u8 list list) option" where
  "walk cmds [] = None"
| "walk cmds (s # ss) =
     (case find_cmd cmds s of
        None \<Rightarrow> None
      | Some c \<Rightarrow>
          if ss = [] \<or> find_cmd (cmd_subs c) (hd ss) = None
          then if runnable c \<and> takes c (length ss + 1) then Some (c, s # ss) else None
          else walk (cmd_subs c) ss)"

lemma walk_contract: "look_contract walk n"
  unfolding look_contract_def
proof (intro allI impI, elim conjE)
  fix cmds path rest cmd
  assume "resolve cmds path = Some cmd" and "runnable cmd" and "rest = [] \<or> find_cmd (cmd_subs cmd) (hd rest) = None"
  then show "walk cmds (path @ rest) = (if takes cmd (length rest + 1) then Some (cmd, last path # rest) else None)"
  proof (induction cmds path rule: resolve.induct)
    case (3 cmds s t ss)
    then obtain c where c: "find_cmd cmds s = Some c" "resolve (cmd_subs c) (t # ss) = Some cmd"
      by (auto split: option.splits)
    then have "find_cmd (cmd_subs c) t \<noteq> None" by (cases ss) (auto split: option.splits)
    with c(1) have "walk cmds ((s # t # ss) @ rest) = walk (cmd_subs c) ((t # ss) @ rest)" by auto
    with 3 c show ?case by (simp del: walk.simps)
  qed auto
qed

theorem shell_commands_answer_witness:
  "answers walk (ascii ''board'') (ascii ''3.2'') screen id (ascii ''demo'' # ascii ''params'' # [ascii ''hi''])
     [Line (ascii ''argc = '' @ dec 2), Line (ascii ''  argv['' @ dec 0 @ ascii ''] = params''),
      Line (ascii ''  argv['' @ dec 1 @ ascii ''] = hi'')] [] \<and>
   answers walk (ascii ''board'') (ascii ''3.2'') screen id [ascii ''demo'', ascii ''dictionary'', ascii ''value_'' @ dec 2]
     [Line (ascii ''(syntax, value) : (value_'' @ dec 2 @ ascii '', '' @ dec 2 @ ascii '')'')] [] \<and>
   command_line walk (ascii ''board'') (ascii ''3.2'') screen [ascii ''version'', ascii ''hi''] [] = None"
proof -
  have s: "shell_contract screen id" by (simp add: shell_contract_def screen_def)
  have a: "list_all plain_word [ascii ''hi'']" "args_ok [ascii ''hi'']"
    by (simp_all add: plain_word_def args_ok_def ascii_def)
  have "[0 ..< length [ascii ''hi''] + 1] = [0, 1]" by (simp add: upt_rec)
  with shell_commands_answer [OF s walk_contract [of 20] _ a, of 2 "ascii ''board''" "ascii ''3.2''" "[]"] show ?thesis
    by (simp add: param_line_def numeral_2_eq_2) (simp add: ascii_def)
qed

end
