(* ===== verification/Main_Dhcpv4_Client.thy ===== *)
theory Main_Dhcpv4_Client
  imports Zephyr
begin

text \<open>
  The DHCP client, \<^verbatim>\<open>src/main_dhcpv4_client.c\<close>: start it on the default interface and report
  every address it brings. The stack is the system's; here the log is the only output, so it is
  a service.
\<close>

section \<open>State and operations\<close>

text \<open>What the handler reads of an interface; \<open>'a\<close> are addresses.\<close>

datatype addr_type = NET_ADDR_ANY | NET_ADDR_AUTOCONF | NET_ADDR_DHCP | NET_ADDR_MANUAL | NET_ADDR_OVERRIDABLE

datatype mgmt_event = NET_EVENT_IPV4_ADDR_ADD | NET_EVENT_OTHER nat

record 'a net_if =
  unicast :: "(addr_type \<times> 'a) list"
  lease_time :: u32
  netmask :: 'a
  gw :: 'a

record ('a, 'i, 'w) net_api =
  log_inf :: "u8 list \<Rightarrow> 'w \<Rightarrow> 'w"
  net_addr_ntop :: "'a \<Rightarrow> nat \<Rightarrow> u8 list"
  net_mgmt_init_event_callback :: "fn \<Rightarrow> mgmt_event \<Rightarrow> 'w \<Rightarrow> 'w"
  net_mgmt_add_event_callback :: "'w \<Rightarrow> 'w"
  net_if_get_default :: "'w \<Rightarrow> 'i"
  net_dhcpv4_start :: "'i \<Rightarrow> 'w \<Rightarrow> 'w"

definition NET_IPV4_ADDR_LEN :: nat where "NET_IPV4_ADDR_LEN = 16"

text \<open>One pass of the loop. The element read is the \<open>i\<close>-th of an array of \<open>NET_IF_MAX_IPV4_ADDR\<close>.\<close>

definition report_addr :: "('a, 'i, 'w) net_api \<Rightarrow> 'a net_if \<Rightarrow> nat \<Rightarrow> 'w \<Rightarrow> 'w checked" where
  "report_addr N iface i w =
     (if length (unicast iface) \<le> i then Inl OOB_read
      else case unicast iface ! i of (addr_type, in_addr) \<Rightarrow>
        if addr_type \<noteq> NET_ADDR_DHCP then Inr w
        else
          let w1 = log_inf N (ascii ''Your address: '' @ net_addr_ntop N in_addr NET_IPV4_ADDR_LEN) w;
              w2 = log_inf N (ascii ''Lease time: '' @ dec (unat (lease_time iface)) @ ascii '' seconds'') w1;
              w3 = log_inf N (ascii ''Subnet: '' @ net_addr_ntop N (netmask iface) NET_IPV4_ADDR_LEN) w2
          in Inr (log_inf N (ascii ''Router: '' @ net_addr_ntop N (gw iface) NET_IPV4_ADDR_LEN) w3))"

text \<open>The loop, from \<open>i\<close> on with so many passes to go.\<close>

fun report_loop :: "('a, 'i, 'w) net_api \<Rightarrow> 'a net_if \<Rightarrow> nat \<Rightarrow> nat \<Rightarrow> 'w \<Rightarrow> 'w checked" where
  "report_loop N iface 0 i w = Inr w"
| "report_loop N iface (Suc k) i w = sbind (report_addr N iface i w) (report_loop N iface k (i + 1))"

definition dhcp_handler :: "('a, 'i, 'w) net_api \<Rightarrow> nat \<Rightarrow> mgmt_event \<Rightarrow> 'a net_if \<Rightarrow> 'w \<Rightarrow> 'w checked" where
  "dhcp_handler N max_addr mgmt_event iface w =
     (if mgmt_event \<noteq> NET_EVENT_IPV4_ADDR_ADD then Inr w else report_loop N iface max_addr 0 w)"

definition main_dhcpv4_client :: "('a, 'i, 'w) net_api \<Rightarrow> 'w \<Rightarrow> 'w" where
  "main_dhcpv4_client N w =
     (let w1 = log_inf N (ascii ''Run dhcpv4 client'') w;
          w2 = net_mgmt_init_event_callback N Dhcpv4_handler NET_EVENT_IPV4_ADDR_ADD w1;
          w3 = net_mgmt_add_event_callback N w2;
          iface = net_if_get_default N w3
      in net_dhcpv4_start N iface w3)"

section \<open>Lemmas\<close>

text \<open>What one address of the array is worth in the log.\<close>

definition addr_report :: "('a, 'i, 'w) net_api \<Rightarrow> 'a net_if \<Rightarrow> addr_type \<times> 'a \<Rightarrow> u8 list list" where
  "addr_report N iface a =
     (if fst a = NET_ADDR_DHCP then
        [ascii ''Your address: '' @ net_addr_ntop N (snd a) NET_IPV4_ADDR_LEN,
         ascii ''Lease time: '' @ dec (unat (lease_time iface)) @ ascii '' seconds'',
         ascii ''Subnet: '' @ net_addr_ntop N (netmask iface) NET_IPV4_ADDR_LEN,
         ascii ''Router: '' @ net_addr_ntop N (gw iface) NET_IPV4_ADDR_LEN]
      else [])"

definition log_contract :: "('a, 'i, 'w) net_api \<Rightarrow> ('w \<Rightarrow> u8 list list) \<Rightarrow> bool" where
  [contract_defs]: "log_contract N lines \<longleftrightarrow> (\<forall>bs w. lines (log_inf N bs w) = lines w @ [bs])"

lemma report_addr_run:
  assumes "log_contract N lines" and "i < length (unicast iface)"
  shows "\<exists>w'. report_addr N iface i w = Inr w' \<and> lines w' = lines w @ addr_report N iface (unicast iface ! i)"
  using assms by (cases "unicast iface ! i") (auto simp: report_addr_def addr_report_def log_contract_def Let_def)

lemma report_loop_run:
  assumes "log_contract N lines"
  shows "i + k \<le> length (unicast iface) \<Longrightarrow> \<exists>w'. report_loop N iface k i w = Inr w' \<and>
    lines w' = lines w @ concat (map (addr_report N iface) (take k (drop i (unicast iface))))"
proof (induction k arbitrary: i w)
  case 0
  then show ?case by simp
next
  case (Suc k)
  then have i: "i < length (unicast iface)" by simp
  from report_addr_run [OF assms i] obtain w1 where
    1: "report_addr N iface i w = Inr w1" "lines w1 = lines w @ addr_report N iface (unicast iface ! i)" by blast
  have d: "drop i (unicast iface) = unicast iface ! i # drop (i + 1) (unicast iface)"
    using i by (simp add: Cons_nth_drop_Suc)
  from Suc.IH [of "i + 1" w1] Suc.prems 1 show ?case by (auto simp: d)
qed

section \<open>Properties\<close>

text \<open>
  C39. The handler of an added address reports, for each address of the interface that DHCP has
  brought and in the order of the table, the address with lease, subnet and router, and for the
  others nothing; it reads no further than the table, and other events are ignored.
\<close>

theorem dhcp_handler_reports:
  assumes "log_contract N lines" and "length (unicast iface) = max_addr"
  shows "\<exists>w'. dhcp_handler N max_addr ev iface w = Inr w' \<and>
     lines w' = lines w @
       (if ev = NET_EVENT_IPV4_ADDR_ADD
        then concat (map (addr_report N iface) (filter (\<lambda>a. fst a = NET_ADDR_DHCP) (unicast iface))) else [])"
proof -
  have "concat (map (addr_report N iface) as) =
      concat (map (addr_report N iface) (filter (\<lambda>a. fst a = NET_ADDR_DHCP) as))" for as
    by (induction as) (auto simp: addr_report_def)
  with report_loop_run [OF assms(1), of 0 max_addr iface w] assms(2) show ?thesis
    by (auto simp: dhcp_handler_def)
qed

section \<open>Runs of the properties\<close>

definition line_log :: "(nat, unit, u8 list list) net_api" where
  "line_log = \<lparr>log_inf = (\<lambda>bs w. w @ [bs]), net_addr_ntop = (\<lambda>a n. dec a),
     net_mgmt_init_event_callback = (\<lambda>f e w. w), net_mgmt_add_event_callback = (\<lambda>w. w),
     net_if_get_default = (\<lambda>w. ()), net_dhcpv4_start = (\<lambda>i w. w)\<rparr>"

theorem dhcp_handler_reports_witness:
  "\<exists>w'. dhcp_handler line_log 2 NET_EVENT_IPV4_ADDR_ADD
       \<lparr>unicast = [(NET_ADDR_MANUAL, 5), (NET_ADDR_DHCP, 6)], lease_time = 60, netmask = 7, gw = 8\<rparr> [] = Inr w' \<and>
     length w' = 4 \<and> hd w' = ascii ''Your address: '' @ dec 6"
proof -
  have "log_contract line_log id" by (simp add: log_contract_def line_log_def)
  moreover have "net_addr_ntop line_log a n = dec a" for a n by (simp add: line_log_def)
  ultimately show ?thesis
    using dhcp_handler_reports [of line_log id
      "\<lparr>unicast = [(NET_ADDR_MANUAL, 5), (NET_ADDR_DHCP, 6)], lease_time = 60, netmask = 7, gw = 8\<rparr>" 2 NET_EVENT_IPV4_ADDR_ADD "[]"]
    by (auto simp: addr_report_def)
qed

end
