(* ===== verification/Main_Program.thy ===== *)
theory Main_Program
  imports Main_My_Uart_Peripheral Main_My_Uart_Peripheral_B Cdc_Acm Main_Mcp9808 Main_App Http_Get
    Main_Shell_Module Main_Dhcpv4_Client
begin

text \<open>
  The program's entry point, \<^verbatim>\<open>src/main.c\<close>: it starts the components one after the other and
  gives three items of work to a queue of its own.
\<close>

section \<open>State and operations\<close>

definition MY_STACK_SIZE :: nat where "MY_STACK_SIZE = 512"
definition MY_PRIORITY :: nat where "MY_PRIORITY = 5"

text \<open>The objects the components' start-up functions write.\<close>

record ('rb, 'rbi) program =
  cdc_rb :: 'rb
  uart_a :: "(client_fn, client_obj) my_uart_data"
  uart_b :: "(b_client_fn, 'rbi) my_uart_b_data"

text \<open>The system they run on: the services, the configurations and the two devices.\<close>

record ('rb, 'rbi, 'a, 'i, 'w) platform =
  kernel :: "'w kernel_api"
  ring :: "'rb ring_api"
  item_ring :: "'rbi ring_item_api"
  uart :: "'w uart_api"
  net :: "('a, 'i, 'w) net_api"
  config_a :: my_uart_kconfig
  config_b :: my_uart_b_kconfig
  cdc_acm_uart1 :: dev
  my_device_b :: dev

definition work_handler :: "'w kernel_api \<Rightarrow> 'w \<Rightarrow> 'w" where
  "work_handler Z w = k_sleep Z 4000 (printk Z (ascii ''work_handler'') w)"

text \<open>The queue and its three items.\<close>

definition start_work_queue :: "'w kernel_api \<Rightarrow> 'w \<Rightarrow> 'w" where
  "start_work_queue Z w =
     (let w1 = k_work_queue_start Z MY_STACK_SIZE MY_PRIORITY (k_work_queue_init Z w);
          w2 = k_work_init Z (My_work_item 0) Work_handler w1;
          w3 = k_work_init Z (My_work_item 1) Work_handler w2;
          w4 = k_work_init Z (My_work_item 2) Work_handler w3;
          w5 = k_work_submit_to_queue Z (My_work_item 0) w4;
          w6 = k_work_submit_to_queue Z (My_work_item 1) w5
      in k_work_submit_to_queue Z (My_work_item 2) w6)"

definition main_program ::
    "('rb, 'rbi, 'a, 'i, 'w) platform \<Rightarrow> ('rb, 'rbi) program \<times> 'w \<Rightarrow> ('rb, 'rbi) program \<times> 'w" where
  "main_program X st =
     (case st of (p, w) \<Rightarrow>
      let Z = kernel X;
          (rb, w1) = main_cdc_acm Z (ring X) (cdc_acm_uart1 X) (cdc_rb p, w);
          w2 = main_shell_module Z w1;
          (a, w3) = main_my_uart_peripheral (config_a X) Z (uart_a p, w2);
          (b, w4) = main_my_uart_peripheral_b (config_b X) Z (item_ring X) (uart X) (my_device_b X) (uart_b p, w3);
          w5 = main_mcp9808 Z w4;
          w6 = main_app Z w5;
          w7 = main_dhcpv4_client (net X) w6;
          w8 = main_http_get Z w7
      in (\<lparr>cdc_rb = rb, uart_a = a, uart_b = b\<rparr>, start_work_queue Z w8))"

text \<open>The calls it makes, one by one; they are what an interrupt can come between.\<close>

definition main_calls ::
    "('rb, 'rbi, 'a, 'i, 'w) platform \<Rightarrow> (('rb, 'rbi) program \<times> 'w \<Rightarrow> ('rb, 'rbi) program \<times> 'w) list" where
  "main_calls X =
     [\<lambda>(p, w). case main_cdc_acm (kernel X) (ring X) (cdc_acm_uart1 X) (cdc_rb p, w) of (rb, w1) \<Rightarrow> (p\<lparr>cdc_rb := rb\<rparr>, w1),
      \<lambda>(p, w). (p, main_shell_module (kernel X) w),
      \<lambda>(p, w). case main_my_uart_peripheral (config_a X) (kernel X) (uart_a p, w) of (a, w1) \<Rightarrow> (p\<lparr>uart_a := a\<rparr>, w1),
      \<lambda>(p, w). case main_my_uart_peripheral_b (config_b X) (kernel X) (item_ring X) (uart X) (my_device_b X) (uart_b p, w) of
         (b, w1) \<Rightarrow> (p\<lparr>uart_b := b\<rparr>, w1),
      \<lambda>(p, w). (p, main_mcp9808 (kernel X) w), \<lambda>(p, w). (p, main_app (kernel X) w),
      \<lambda>(p, w). (p, main_dhcpv4_client (net X) w), \<lambda>(p, w). (p, main_http_get (kernel X) w),
      \<lambda>(p, w). (p, start_work_queue (kernel X) w)]"

lemma main_program_calls: "main_program X st = in_turn (main_calls X) st"
  by (cases st) (simp add: main_program_def main_calls_def Let_def split: prod.splits)

section \<open>Starting up\<close>

text \<open>
  \<open>calls w\<close> is the list of the calls that set something going, in order; the messages and the
  network's calls are not among them.
\<close>

definition kernel_log_contract :: "'w kernel_api \<Rightarrow> ('w \<Rightarrow> kcall list) \<Rightarrow> bool" where
  [contract_defs]: "kernel_log_contract Z calls \<longleftrightarrow>
     (\<forall>w. calls (snd (usb_enable Z w)) = calls w @ [Usb_enable]) \<and>
     (\<forall>t f w. calls (k_timer_init Z t f w) = calls w @ [Timer_init t f]) \<and>
     (\<forall>t d p w. calls (k_timer_start Z t d p w) = calls w @ [Timer_start t d p]) \<and>
     (\<forall>k f w. calls (k_work_init Z k f w) = calls w @ [Work_init k f]) \<and>
     (\<forall>t f s p w. calls (k_thread_create Z t f s p w) = calls w @ [Thread_create t f s p]) \<and>
     (\<forall>t w. calls (k_thread_start Z t w) = calls w @ [Thread_start t]) \<and>
     (\<forall>w. calls (k_work_queue_init Z w) = calls w @ [Queue_init]) \<and>
     (\<forall>s p w. calls (k_work_queue_start Z s p w) = calls w @ [Queue_start s p]) \<and>
     (\<forall>k w. calls (k_work_submit_to_queue Z k w) = calls w @ [Submit_to_queue k]) \<and>
     (\<forall>bs. keeps (printk Z bs) calls)"

definition net_log_contract :: "('a, 'i, 'w) net_api \<Rightarrow> ('w \<Rightarrow> 'b) \<Rightarrow> bool" where
  [contract_defs]: "net_log_contract N \<alpha> \<longleftrightarrow>
     (\<forall>bs. keeps (log_inf N bs) \<alpha>) \<and> (\<forall>f e. keeps (net_mgmt_init_event_callback N f e) \<alpha>) \<and>
     keeps (net_mgmt_add_event_callback N) \<alpha> \<and> (\<forall>i. keeps (net_dhcpv4_start N i) \<alpha>)"

text \<open>The calls of each part.\<close>

definition cdc_calls :: "bool \<Rightarrow> int \<Rightarrow> kcall list" where
  "cdc_calls rdy usb =
     (if \<not> rdy then []
      else Usb_enable # (if usb \<noteq> 0 then []
        else [Timer_init My_timer My_timer_handler, Work_init My_work My_work_handler, Timer_start My_timer 100 0]))"

definition thread_calls :: "thread \<Rightarrow> fn \<Rightarrow> nat \<Rightarrow> kcall list" where
  "thread_calls t f stack = [Thread_create t f stack 7, Thread_start t]"

definition queue_calls :: "kcall list" where
  "queue_calls = [Queue_init, Queue_start 512 5] @ map (\<lambda>i. Work_init (My_work_item i) Work_handler) [0, 1, 2] @
     map (\<lambda>i. Submit_to_queue (My_work_item i)) [0, 1, 2]"

lemma main_cdc_acm_calls:
  assumes "kernel_log_contract Z calls" and "device_is_ready Z d w = rdy" and "fst (usb_enable Z w) = usb"
  shows "calls (snd (main_cdc_acm Z R d (rb, w))) = calls w @ cdc_calls rdy usb \<and>
    fst (main_cdc_acm Z R d (rb, w)) = (if rdy \<and> usb = 0 then ring_buf_init R CDC_RING_BUF_SIZE else rb)"
proof -
  obtain r w1 where u: "usb_enable Z w = (r, w1)" by (cases "usb_enable Z w")
  from assms(1) u have "calls w1 = calls w @ [Usb_enable]" unfolding kernel_log_contract_def by (metis snd_conv)
  with assms u show ?thesis by (simp add: main_cdc_acm_def cdc_calls_def kernel_log_contract_def Let_def)
qed

lemma thread_start_calls:
  assumes "kernel_log_contract Z calls"
  shows "calls (main_shell_module Z w) = calls w @ thread_calls Thread_shell_module_data Thread_shell_module 1024"
    and "calls (main_mcp9808 Z w) = calls w @ thread_calls Thread_mcp9808_data Thread_mcp9808 1024"
    and "calls (main_app Z w) = calls w @ thread_calls Thread_app_data Thread_app 1024"
    and "calls (main_http_get Z w) = calls w @ thread_calls Thread_http_get_data Thread_http_get 4096"
  using assms by (simp_all add: kernel_log_contract_def thread_calls_def main_shell_module_def main_mcp9808_def
      main_app_def main_http_get_def)

lemma main_clients_calls:
  assumes "kernel_log_contract Z calls"
  shows "calls (snd (main_my_uart_peripheral K Z (a, w))) = calls w"
    and "calls (snd (main_my_uart_peripheral_b KB Z RI U d (b, w))) = calls w"
  using assms by (auto simp: kernel_log_contract_def keeps_def main_my_uart_peripheral_def main_my_uart_peripheral_b_def Let_def)

lemma main_dhcp_calls: "net_log_contract N \<alpha> \<Longrightarrow> \<alpha> (main_dhcpv4_client N w) = \<alpha> w"
  by (simp add: net_log_contract_def keeps_def main_dhcpv4_client_def Let_def)

lemma start_work_queue_calls:
  assumes "kernel_log_contract Z calls"
  shows "calls (start_work_queue Z w) = calls w @ queue_calls"
  using assms by (simp add: kernel_log_contract_def start_work_queue_def queue_calls_def Let_def
      MY_STACK_SIZE_def MY_PRIORITY_def)

section \<open>Properties\<close>

text \<open>
  C22. The program starts: its entry point sets going, in this order and each once, the CDC ACM
  port's timer, the threads of the shell, the sensor, the application and the HTTP client, and
  the work queue with three items; the two UART clients have their callbacks registered. A
  component that is not ready is left out, and does not keep the others from starting.
\<close>

theorem main_starts_components:
  assumes "kernel_log_contract (kernel X) calls" and "net_log_contract (net X) calls"
    and "\<And>w. device_is_ready (kernel X) (cdc_acm_uart1 X) w = cdc_ready" and "\<And>w. fst (usb_enable (kernel X) w) = usb"
    and "\<And>w. device_get_binding (kernel X) (ascii ''my_uart_peripheral0'') w = Some dev2"
    and "\<And>w. device_is_ready (kernel X) dev2 w = a_ready" and "\<And>w. device_is_ready (kernel X) (my_device_b X) w = b_ready"
  shows "\<exists>p' w'. main_program X (p, w) = (p', w') \<and>
     calls w' = calls w @ cdc_calls cdc_ready usb @
       thread_calls Thread_shell_module_data Thread_shell_module 1024 @
       thread_calls Thread_mcp9808_data Thread_mcp9808 1024 @
       thread_calls Thread_app_data Thread_app 1024 @
       thread_calls Thread_http_get_data Thread_http_get 4096 @ queue_calls \<and>
     cdc_rb p' = (if cdc_ready \<and> usb = 0 then ring_buf_init (ring X) 256 else cdc_rb p) \<and>
     uart_a p' = (if a_ready then user_set_string_callback (Some Peripheral_callback) (Some Tracker) (uart_a p) else uart_a p) \<and>
     callback (uart_b p') = (if b_ready then Some App_callback else callback (uart_b p))"
proof -
  let ?Z = "kernel X"
  obtain rb w1 where 1: "main_cdc_acm ?Z (ring X) (cdc_acm_uart1 X) (cdc_rb p, w) = (rb, w1)"
    by (cases "main_cdc_acm ?Z (ring X) (cdc_acm_uart1 X) (cdc_rb p, w)")
  let ?w2 = "main_shell_module ?Z w1"
  obtain a w3 where 3: "main_my_uart_peripheral (config_a X) ?Z (uart_a p, ?w2) = (a, w3)"
    by (cases "main_my_uart_peripheral (config_a X) ?Z (uart_a p, ?w2)")
  obtain b w4 where 4: "main_my_uart_peripheral_b (config_b X) ?Z (item_ring X) (uart X) (my_device_b X) (uart_b p, w3) = (b, w4)"
    by (cases "main_my_uart_peripheral_b (config_b X) ?Z (item_ring X) (uart X) (my_device_b X) (uart_b p, w3)")
  let ?w' = "start_work_queue ?Z (main_http_get ?Z (main_dhcpv4_client (net X) (main_app ?Z (main_mcp9808 ?Z w4))))"
  have "main_program X (p, w) = (\<lparr>cdc_rb = rb, uart_a = a, uart_b = b\<rparr>, ?w')"
    by (simp add: main_program_def Let_def 1 3 4)
  moreover have "calls w1 = calls w @ cdc_calls cdc_ready usb"
    and rb: "rb = (if cdc_ready \<and> usb = 0 then ring_buf_init (ring X) CDC_RING_BUF_SIZE else cdc_rb p)"
    using main_cdc_acm_calls [where R = "ring X" and rb = "cdc_rb p" and w = w, OF assms(1,3,4)] 1 by simp_all
  moreover have "calls w3 = calls ?w2" and "calls w4 = calls w3"
    using main_clients_calls [OF assms(1)] 3 4 by (metis snd_conv)+
  moreover have "a = (if a_ready then user_set_string_callback (Some Peripheral_callback) (Some Tracker) (uart_a p) else uart_a p)"
    using 3 assms(5,6) by (simp add: main_my_uart_peripheral_def my_uart_set_callback_def api_def split: if_splits)
  moreover have "callback b = (if b_ready then Some App_callback else callback (uart_b p))"
    using 4 assms(7) by (auto simp: main_my_uart_peripheral_b_def my_uart_b_set_callback_def api_b_def user_set_callback_def
        split: if_splits)
  ultimately show ?thesis
    using thread_start_calls [OF assms(1)] start_work_queue_calls [OF assms(1)] main_dhcp_calls [OF assms(2)]
    by (simp add: CDC_RING_BUF_SIZE_def)
qed

section \<open>Runs of the properties\<close>

definition board_net :: "(nat, unit, board) net_api" where
  "board_net = \<lparr>log_inf = (\<lambda>bs w. w), net_addr_ntop = (\<lambda>a n. dec a),
     net_mgmt_init_event_callback = (\<lambda>f e w. w), net_mgmt_add_event_callback = (\<lambda>w. w),
     net_if_get_default = (\<lambda>w. ()), net_dhcpv4_start = (\<lambda>i w. w)\<rparr>"

definition board_platform :: "(u8 list, board_items, nat, unit, board) platform" where
  "board_platform = \<lparr>kernel = board_kernel, ring = board_ring 256, item_ring = board_ring_items, uart = board_uart,
     net = board_net, config_a = \<lparr>MAX_STR_LEN = 256, RX_BUF_SIZE = 256, ASSERT = False\<rparr>, config_b = K16,
     cdc_acm_uart1 = 3, my_device_b = 2\<rparr>"

text \<open>With every device there but driver B's.\<close>

definition bare_kernel :: "board kernel_api" where
  "bare_kernel = board_kernel\<lparr>device_is_ready := (\<lambda>d w. d \<noteq> 2)\<rparr>"

definition bare_program :: "(u8 list, board_items) program" where
  "bare_program = \<lparr>cdc_rb = [], uart_a = my_uart_data_init (config_a board_platform) [],
     uart_b = my_uart_b_data_init K16 (ring_buf_item_init board_ring_items 128)\<rparr>"

lemma bare_log: "kernel_log_contract bare_kernel kcalls"
  by (simp add: kernel_log_contract_def keeps_def bare_kernel_def board_kernel_def log_def)

theorem main_starts_components_witness:
  "\<exists>p' w'. main_program (board_platform\<lparr>kernel := bare_kernel\<rparr>) (bare_program, board0) = (p', w') \<and>
     take 4 (kcalls w') = cdc_calls True 0 \<and> length (kcalls w') = 20 \<and> callback (uart_b p') = None"
proof -
  let ?X = "board_platform\<lparr>kernel := bare_kernel\<rparr>"
  have "kernel_log_contract (kernel ?X) kcalls" and "net_log_contract (net ?X) kcalls"
    using bare_log by (simp_all add: board_platform_def net_log_contract_def keeps_def board_net_def)
  moreover have "fst (usb_enable (kernel ?X) w) = 0" and "device_get_binding (kernel ?X) (ascii ''my_uart_peripheral0'') w = Some 1"
    and "device_is_ready (kernel ?X) (cdc_acm_uart1 ?X) w = True" and "device_is_ready (kernel ?X) 1 w = True"
    and "device_is_ready (kernel ?X) (my_device_b ?X) w = False" for w
    by (simp_all add: board_platform_def bare_kernel_def board_kernel_def)
  ultimately obtain p' w' where "main_program ?X (bare_program, board0) = (p', w')"
    and "kcalls w' = kcalls board0 @ cdc_calls True 0 @ thread_calls Thread_shell_module_data Thread_shell_module 1024 @
       thread_calls Thread_mcp9808_data Thread_mcp9808 1024 @ thread_calls Thread_app_data Thread_app 1024 @
       thread_calls Thread_http_get_data Thread_http_get 4096 @ queue_calls"
    and "callback (uart_b p') = callback (uart_b bare_program)"
    using main_starts_components [of ?X kcalls True 0 1 True False bare_program board0] by auto
  then show ?thesis
    by (simp add: board0_def cdc_calls_def thread_calls_def queue_calls_def bare_program_def my_uart_b_data_init_def)
qed

end
