(* ===== verification/Program_System.thy ===== *)
theory Program_System
  imports Main_Program
begin

text \<open>
  The program that \<^verbatim>\<open>src/main.c\<close> starts as one system: the devices are initialised, and then its
  entry point, its interrupt handlers, its timers and its work items run in any order on one
  state. What holds of every such sequence.
\<close>

section \<open>The machine\<close>

text \<open>
  Beside the services and configurations of \<open>platform\<close>: the buses the drivers need, what the
  device tree says of their instances, and the network stack's table size.
\<close>

record ('rb, 'rbi, 'a, 'i, 'w) machine =
  plat :: "('rb, 'rbi, 'a, 'i, 'w) platform"
  gpio_bus :: "'w gpio_api"
  i2c_bus :: "'w i2c_api"
  node_a :: my_uart_node
  node_b :: my_uart_b_node
  node_sensor :: my_i2c_mcp9808_node
  my_device :: dev
  sensor_priority :: nat
  max_addr :: nat

abbreviation conf_of_a :: "('rb, 'rbi, 'a, 'i, 'w) machine \<Rightarrow> my_uart_conf" where
  "conf_of_a X \<equiv> my_uart_conf_init (node_a X)"

abbreviation conf_of_b :: "('rb, 'rbi, 'a, 'i, 'w) machine \<Rightarrow> my_uart_b_conf" where
  "conf_of_b X \<equiv> my_uart_b_conf_init (node_b X)"

section \<open>Initialisation of the devices\<close>

text \<open>The static objects before anything has run.\<close>

definition statics :: "('rb, 'rbi, 'a, 'i, 'w) machine \<Rightarrow> 'rb \<Rightarrow> 'rbi \<Rightarrow> ('rb, 'rbi) program" where
  "statics X rb zeroed =
     \<lparr>cdc_rb = rb, uart_a = fst (INIT_MY_UART_PERIPHERAL (config_a (plat X)) (node_a X)),
      uart_b = fst (INIT_MY_UART_PERIPHERAL_B (config_b (plat X)) zeroed (node_b X))\<rparr>"

text \<open>What \<^verbatim>\<open>DEVICE_DT_INST_DEFINE\<close> makes the kernel run for each of the instances.\<close>

type_synonym ('rb, 'rbi, 'w) init_result = "(int \<times> ('rb, 'rbi) program \<times> 'w) checked"

definition device_a :: "('rb, 'rbi, 'a, 'i, 'w) machine \<Rightarrow> ('rb, 'rbi) program \<times> 'w \<Rightarrow> ('rb, 'rbi, 'w) init_result" where
  "device_a X st =
     (case st of (p, w) \<Rightarrow>
      sbind (init_my_uart_peripheral (config_a (plat X)) (kernel (plat X)) (uart (plat X)) (gpio_bus X)
               (conf_of_a X) (my_device X) w)
        (\<lambda>(ret, w1). Inr (ret, p, w1)))"

definition device_b :: "('rb, 'rbi, 'a, 'i, 'w) machine \<Rightarrow> ('rb, 'rbi) program \<times> 'w \<Rightarrow> ('rb, 'rbi, 'w) init_result" where
  "device_b X st =
     (case st of (p, w) \<Rightarrow>
      sbind (init_my_uart_peripheral_b (config_b (plat X)) (kernel (plat X)) (item_ring (plat X)) (uart (plat X))
               (gpio_bus X) (conf_of_b X) (my_device_b (plat X)) (uart_b p, w))
        (\<lambda>(ret, b, w1). Inr (ret, p\<lparr>uart_b := b\<rparr>, w1)))"

definition device_sensor :: "('rb, 'rbi, 'a, 'i, 'w) machine \<Rightarrow> ('rb, 'rbi) program \<times> 'w \<Rightarrow> ('rb, 'rbi, 'w) init_result" where
  "device_sensor X st =
     (case st of (p, w) \<Rightarrow>
      case my_i2c_mcp9808_init (kernel (plat X)) (i2c_bus X) (snd (MY_I2C_MCP9808_DEFINE (node_sensor X))) w of (rc, w1) \<Rightarrow>
        Inr (rc, p, w1))"

datatype device = Driver_a | Driver_b | Sensor

definition init_priority :: "('rb, 'rbi, 'a, 'i, 'w) machine \<Rightarrow> device \<Rightarrow> nat" where
  "init_priority X d = (case d of Driver_a \<Rightarrow> MY_UART_PERIPHERAL_INIT_PRIORITY
     | Driver_b \<Rightarrow> MY_UART_PERIPHERAL_B_INIT_PRIORITY | Sensor \<Rightarrow> sensor_priority X)"

definition init_device :: "('rb, 'rbi, 'a, 'i, 'w) machine \<Rightarrow> device \<Rightarrow> ('rb, 'rbi) program \<times> 'w \<Rightarrow> ('rb, 'rbi, 'w) init_result" where
  "init_device X d = (case d of Driver_a \<Rightarrow> device_a X | Driver_b \<Rightarrow> device_b X | Sensor \<Rightarrow> device_sensor X)"

text \<open>
  The kernel initialises devices by priority, those of one priority in the order of the link;
  it keeps what each answers and goes on.
\<close>

fun init_all ::
    "('rb, 'rbi, 'a, 'i, 'w) machine \<Rightarrow> device list \<Rightarrow> ('rb, 'rbi) program \<times> 'w \<Rightarrow>
     ((device \<times> int) list \<times> ('rb, 'rbi) program \<times> 'w) checked" where
  "init_all X [] st = Inr ([], st)"
| "init_all X (d # ds) st =
     sbind (init_device X d st) (\<lambda>(ret, st1). sbind (init_all X ds st1) (\<lambda>(rets, st2). Inr ((d, ret) # rets, st2)))"

definition boot ::
    "('rb, 'rbi, 'a, 'i, 'w) machine \<Rightarrow> device list \<Rightarrow> ('rb, 'rbi) program \<times> 'w \<Rightarrow>
     ((device \<times> int) list \<times> ('rb, 'rbi) program \<times> 'w) checked" where
  "boot X order st = init_all X (sort_key (init_priority X) order) st"

section \<open>Events\<close>

text \<open>
  \<open>Entry\<close> is the entry point as a whole, \<open>Entry_call i\<close> the call it makes as its \<open>i\<close>-th, for the events
  that come between them; \<open>Uart_b_irq\<close> carries what the stack of the send path happens to
  hold, \<open>Net_event\<close> the event and the interface of the network stack; \<open>Elsewhere\<close> is anything
  the hardware, the kernel or a thread does to the world.
\<close>

datatype ('a, 'w) event =
    Entry | Entry_call nat | Uart_a_irq | Button | Uart_b_irq "u8 list" | Guard_expiry | Cdc_irq | Cdc_timer | Cdc_work
  | Queue_item | Net_event mgmt_event "'a net_if" | Elsewhere "'w \<Rightarrow> 'w"

type_synonym ('rb, 'rbi, 'w) sys = "('rb, 'rbi) program \<times> counter \<times> 'w"

fun handle ::
    "('rb, 'rbi, 'a, 'i, 'w) machine \<Rightarrow> ('a, 'w) event \<Rightarrow> ('rb, 'rbi, 'w) sys \<Rightarrow> ('rb, 'rbi, 'w) sys outcome" where
  "handle X Entry (p, c, w) = (case main_program (plat X) (p, w) of (p1, w1) \<Rightarrow> Some (Inr (p1, c, w1)))"
| "handle X (Entry_call i) (p, c, w) =
     (case (if i < length (main_calls (plat X)) then (main_calls (plat X) ! i) (p, w) else (p, w)) of
        (p1, w1) \<Rightarrow> Some (Inr (p1, c, w1)))"
| "handle X Uart_a_irq (p, c, w) =
     obind (uart_int_handler (config_a (plat X)) (uart (plat X)) (client_call (kernel (plat X)))
              (uart_dev (conf_of_a X)) (my_device X) (uart_a p, c, w))
       (\<lambda>(a, c1, w1). Some (Inr (p\<lparr>uart_a := a\<rparr>, c1, w1)))"
| "handle X Button (p, c, w) =
     Some (sbind (transmit_string (uart (plat X)) (conf_of_a X) (uart_a p) w) (\<lambda>w1. Inr (p, c, w1)))"
| "handle X (Uart_b_irq junk) (p, c, w) =
     obind (uart_b_int_handler (config_b (plat X)) (kernel (plat X)) (item_ring (plat X)) (uart (plat X))
              (app_call (config_b (plat X)) (kernel (plat X)) (item_ring (plat X)) (uart (plat X)) (conf_of_b X) junk)
              (conf_of_b X) (b_uart_dev (conf_of_b X)) (my_device_b (plat X)) (uart_b p, (), w))
       (\<lambda>(b, u, w1). Some (Inr (p\<lparr>uart_b := b\<rparr>, c, w1)))"
| "handle X Guard_expiry (p, c, w) =
     (case sending_guard_timer_expired_function (uart (plat X)) (conf_of_b X) (uart_b p, w) of (b, w1) \<Rightarrow>
        Some (Inr (p\<lparr>uart_b := b\<rparr>, c, w1)))"
| "handle X Cdc_irq (p, c, w) =
     obind (cdc_interrupt_handler (ring (plat X)) (uart (plat X)) (cdc_acm_uart1 (plat X)) (cdc_rb p, w))
       (\<lambda>(rb, w1). Some (Inr (p\<lparr>cdc_rb := rb\<rparr>, c, w1)))"
| "handle X Cdc_timer (p, c, w) = Some (Inr (p, c, my_timer_handler (kernel (plat X)) w))"
| "handle X Cdc_work (p, c, w) =
     Some (Inr (p, c, my_work_handler (kernel (plat X)) (uart (plat X)) (cdc_acm_uart1 (plat X)) w))"
| "handle X Queue_item (p, c, w) = Some (Inr (p, c, work_handler (kernel (plat X)) w))"
| "handle X (Net_event ev iface) (p, c, w) =
     Some (sbind (dhcp_handler (net (plat X)) (max_addr X) ev iface w) (\<lambda>w1. Inr (p, c, w1)))"
| "handle X (Elsewhere f) (p, c, w) = Some (Inr (p, c, f w))"

fun handle_all ::
    "('rb, 'rbi, 'a, 'i, 'w) machine \<Rightarrow> ('a, 'w) event list \<Rightarrow> ('rb, 'rbi, 'w) sys \<Rightarrow> ('rb, 'rbi, 'w) sys outcome" where
  "handle_all X [] s = Some (Inr s)"
| "handle_all X (e # es) s = obind (handle X e s) (handle_all X es)"

section \<open>Well-typed states\<close>

text \<open>The projections of the world and of the ring buffers that the contracts speak of.\<close>

record ('rb, 'rbi, 'w) views =
  rx_a :: "'w \<Rightarrow> u8 list"
  rx_b :: "'w \<Rightarrow> u8 list"
  txr_b :: "'w \<Rightarrow> bool"
  sent_b :: "'w \<Rightarrow> u8 list list"
  rx_c :: "'w \<Rightarrow> u8 list"
  txr_c :: "'w \<Rightarrow> bool"
  tx_c :: "'w \<Rightarrow> u8 list"
  content :: "'rb \<Rightarrow> u8 list"
  ring_items :: "'rbi \<Rightarrow> ring_item list"

definition machine_contract ::
    "('rb, 'rbi, 'a, 'i, 'w) machine \<Rightarrow> bool \<Rightarrow> ('rb, 'rbi, 'w) views \<Rightarrow> bool" where
  [contract_defs]: "machine_contract X lossless V \<longleftrightarrow>
     poll_uart_contract (uart (plat X)) (uart_dev (conf_of_a X)) (rx_a V) (\<lambda>w. ()) \<and>
     printk_contract (kernel (plat X)) (rx_a V) \<and>
     b_uart_contract (uart (plat X)) (b_uart_dev (conf_of_b X)) (rx_b V) (txr_b V) (sent_b V) \<and>
     b_kernel_contract (kernel (plat X)) (rx_b V) (sent_b V) \<and>
     item_get_contract (item_ring (plat X)) (ring_items V) \<and> item_put_contract (item_ring (plat X)) (ring_items V) \<and>
     (\<forall>n. ring_items V (ring_buf_item_init (item_ring (plat X)) n) = []) \<and>
     relay_contract (uart (plat X)) (cdc_acm_uart1 (plat X)) lossless (rx_c V) (txr_c V) (tx_c V) \<and>
     ring_contract (ring (plat X)) (content V) CDC_RING_BUF_SIZE \<and>
     content V (ring_buf_init (ring (plat X)) CDC_RING_BUF_SIZE) = []"

text \<open>
  The sizes of the configuration: neither receive buffer is empty (the ranges of the Kconfig files
  start at 0) nor as long as 2^32 bytes, driver B's send buffer has fewer than 256 words (its
  Kconfig file allows 511), and a line that fits driver B's receive buffer fits its send buffer
  behind \<^verbatim>\<open>SEND:\<close>, which the Kconfig defaults miss.
\<close>

definition sizes_ok :: "('rb, 'rbi, 'a, 'i, 'w) machine \<Rightarrow> bool" where
  "sizes_ok X \<longleftrightarrow>
     0 < RX_BUF_SIZE (config_a (plat X)) \<and> RX_BUF_SIZE (config_a (plat X)) < 2 ^ 32 \<and>
     0 < B_RX_BUF_SIZE (config_b (plat X)) \<and> B_RX_BUF_SIZE (config_b (plat X)) < 2 ^ 32 \<and>
     B_RX_BUF_SIZE (config_b (plat X)) + 6 \<le> 4 * TX_BUF_WORDS (config_b (plat X)) \<and>
     TX_BUF_WORDS (config_b (plat X)) < 256"

definition client_ok :: "(client_fn, client_obj) my_uart_data \<Rightarrow> bool" where
  "client_ok a \<longleftrightarrow> string_callback a = None \<or> string_callback a = Some Peripheral_callback \<and> user_data a = Some Tracker"

definition program_ok ::
    "('rb, 'rbi, 'a, 'i, 'w) machine \<Rightarrow> ('rb, 'rbi, 'w) views \<Rightarrow> ('rb, 'rbi) program \<Rightarrow> bool" where
  "program_ok X V p \<longleftrightarrow>
     wf_rx (config_a (plat X)) (uart_a p) \<and> wf_str (config_a (plat X)) (uart_a p) \<and> client_ok (uart_a p) \<and>
     b_ok (config_b (plat X)) (ring_items V) (uart_b p) \<and> length (content V (cdc_rb p)) \<le> CDC_RING_BUF_SIZE"

fun event_ok :: "('rb, 'rbi, 'a, 'i, 'w) machine \<Rightarrow> ('a, 'w) event \<Rightarrow> bool" where
  "event_ok X (Uart_b_irq junk) = (length junk = 4 * TX_BUF_WORDS (config_b (plat X)))"
| "event_ok X (Net_event ev iface) = (length (unicast iface) = max_addr X)"
| "event_ok X e = True"

section \<open>One event\<close>

lemma line_frames_short:
  "line_acc_ok n acc \<Longrightarrow> list_all (\<lambda>l. length l \<le> n) (frames (line_step n) cs acc)"
proof (induction cs arbitrary: acc)
  case Nil
  then show ?case by simp
next
  case (Cons c cs)
  have "list_all (\<lambda>l. length l \<le> n) (snd (line_step n c acc))"
    using Cons.prems by (simp add: line_step_def line_acc_ok_def)
  with Cons.IH [OF line_framer.ok_step [OF Cons.prems]] show ?case by simp
qed

text \<open>What the entry point does to the program's objects.\<close>

definition objects_kept ::
    "('rb, 'rbi, 'a, 'i, 'w) platform \<Rightarrow> ('rb, 'rbi) program \<Rightarrow> ('rb, 'rbi) program \<Rightarrow> bool" where
  "objects_kept X p p' \<longleftrightarrow>
     (cdc_rb p' = cdc_rb p \<or> cdc_rb p' = ring_buf_init (ring X) CDC_RING_BUF_SIZE) \<and>
     (uart_a p' = uart_a p \<or> uart_a p' = user_set_string_callback (Some Peripheral_callback) (Some Tracker) (uart_a p)) \<and>
     (uart_b p' = uart_b p \<or> uart_b p' = (uart_b p)\<lparr>callback := Some App_callback\<rparr>)"

lemma main_call_objects:
  assumes "f \<in> set (main_calls X)" and "f (p, w) = (p', w')"
  shows "objects_kept X p p'"
  using assms
  by (auto simp: objects_kept_def main_calls_def main_cdc_acm_def main_my_uart_peripheral_def my_uart_set_callback_def api_def
      main_my_uart_peripheral_b_def my_uart_b_set_callback_def api_b_def user_set_callback_def Let_def
      split: prod.splits if_splits)

lemma main_program_objects:
  assumes "main_program X (p, w) = (p', w')"
  shows "objects_kept X p p'"
  using assms
  by (auto simp: objects_kept_def main_program_def main_cdc_acm_def main_my_uart_peripheral_def my_uart_set_callback_def api_def
      main_my_uart_peripheral_b_def my_uart_b_set_callback_def api_b_def user_set_callback_def Let_def
      split: prod.splits if_splits)

lemma client_callback_contract:
  assumes P: "printk_contract Z rx" and ok: "client_ok a"
  shows "callback_contract (client_call Z) dev (string_callback a) (user_data a) rx fst
     (if string_callback a = None then (\<lambda>e c. c) else (\<lambda>e. count_frame (snd e)))"
  using ok peripheral_callback_contract [OF P, of dev]
  by (auto simp: client_ok_def callback_contract_def)

lemma handle_a:
  assumes M: "machine_contract X lossless V" and ok: "program_ok X V p"
  shows "\<exists>a c' w'. handle X Uart_a_irq (p, c, w) = Some (Inr (p\<lparr>uart_a := a\<rparr>, c', w')) \<and>
     program_ok X V (p\<lparr>uart_a := a\<rparr>) \<and> fixed_fields a = fixed_fields (uart_a p) \<and>
     pending a = residue (string_step (RX_BUF_SIZE (config_a (plat X)))) (rx_a V w) (pending (uart_a p)) \<and>
     c' = (if string_callback (uart_a p) = None then c
           else fold (\<lambda>e. count_frame (snd e)) (frames (string_step (RX_BUF_SIZE (config_a (plat X)))) (rx_a V w) (pending (uart_a p))) c)"
proof -
  let ?K = "config_a (plat X)" and ?U = "uart (plat X)" and ?d = "uart_dev (conf_of_a X)"
  from M have "poll_uart_contract ?U ?d (rx_a V) (\<lambda>w. ())" and P: "printk_contract (kernel (plat X)) (rx_a V)"
    by (simp_all add: machine_contract_def)
  then have U: "poll_uart_contract ?U ?d (rx_a V) (\<lambda>w (c :: counter). fst (c, w))"
    using poll_uart_contract_image [where f = "\<lambda>_ c. c"] by fastforce
  from ok have a: "client_ok (uart_a p)" "wf_rx ?K (uart_a p)" by (simp_all add: program_ok_def)
  from uart_int_handler_run [OF U client_callback_contract [OF P a(1), of "my_device X"] a(2), of c w] obtain a' c' w' where
    r: "uart_int_handler ?K ?U (client_call (kernel (plat X))) ?d (my_device X) (uart_a p, c, w) = Some (Inr (a', c', w'))"
      "wf_rx ?K a'" "fixed_fields a' = fixed_fields (uart_a p)"
      "pending a' = residue (string_step (RX_BUF_SIZE ?K)) (rx_a V w) (pending (uart_a p))"
      "c' = fold (if string_callback (uart_a p) = None then (\<lambda>e c. c) else (\<lambda>e. count_frame (snd e)))
        (frames (string_step (RX_BUF_SIZE ?K)) (rx_a V w) (pending (uart_a p))) c" by auto
  with r ok show ?thesis
    by (intro exI [of _ a'] exI [of _ c'] exI [of _ w'])
      (auto simp: program_ok_def fixed_fields_def wf_str_def client_ok_def)
qed

lemma handle_b:
  assumes M: "machine_contract X lossless V" and S: "sizes_ok X" and ok: "program_ok X V p"
    and junk: "length junk = 4 * TX_BUF_WORDS (config_b (plat X))"
  shows "\<exists>b w'. handle X (Uart_b_irq junk) (p, c, w) = Some (Inr (p\<lparr>uart_b := b\<rparr>, c, w')) \<and> program_ok X V (p\<lparr>uart_b := b\<rparr>)"
proof -
  let ?K = "config_b (plat X)" and ?Z = "kernel (plat X)" and ?R = "item_ring (plat X)" and ?U = "uart (plat X)"
  let ?d = "b_uart_dev (conf_of_b X)" and ?dev = "my_device_b (plat X)"
  let ?call = "app_call ?K ?Z ?R ?U (conf_of_b X) junk"
  let ?lns = "frames (line_step (B_RX_BUF_SIZE ?K)) (rx_b V w) (b_pending (uart_b p))"
  from M have U: "b_uart_contract ?U ?d (rx_b V) (txr_b V) (sent_b V)" and Z: "b_kernel_contract ?Z (rx_b V) (sent_b V)"
    and R: "item_get_contract ?R (ring_items V)" "item_put_contract ?R (ring_items V)"
    by (simp_all add: machine_contract_def)
  from S have W: "TX_BUF_WORDS ?K < 256" and room: "B_RX_BUF_SIZE ?K + 6 \<le> 4 * TX_BUF_WORDS ?K"
    by (simp_all add: sizes_ok_def)
  from ok have b: "b_ok ?K (ring_items V) (uart_b p)" by (simp add: program_ok_def)
  then have short: "list_all (\<lambda>l. length l \<le> B_RX_BUF_SIZE ?K) ?lns"
    by (intro line_frames_short wf_b_acc_ok) (simp add: b_ok_def)
  have cbc: "b_callback_contract ?call ?dev (callback (uart_b p)) (rx_b V) (sent_b V) (ring_items V) (TX_BUF_WORDS ?K)
      (B_RX_BUF_SIZE ?K) (\<lambda>l g. g) reply"
  proof (cases "callback (uart_b p)")
    case None
    then show ?thesis by (auto simp: b_callback_contract_def)
  next
    case (Some f)
    then show ?thesis using app_callback_contract [OF U Z R(2) W junk room] by (cases f) simp
  qed
  from uart_b_int_handler_sw [OF U Z R(1) W cbc refl b refl short, of "()"] obtain b' w' where
    "uart_b_int_handler ?K ?Z ?R ?U ?call (conf_of_b X) ?d ?dev (uart_b p, (), w) = Some (Inr (b', (), w'))"
    "b_ok ?K (ring_items V) b'" by auto
  with ok show ?thesis by (intro exI [of _ b'] exI [of _ w']) (simp add: program_ok_def)
qed

lemma handle_cdc:
  assumes M: "machine_contract X lossless V" and ok: "program_ok X V p"
  shows "\<exists>rb w'. handle X Cdc_irq (p, c, w) = Some (Inr (p\<lparr>cdc_rb := rb\<rparr>, c, w')) \<and> program_ok X V (p\<lparr>cdc_rb := rb\<rparr>)"
proof -
  from M ok have "relay_contract (uart (plat X)) (cdc_acm_uart1 (plat X)) lossless (rx_c V) (txr_c V) (tx_c V)"
    "ring_contract (ring (plat X)) (content V) CDC_RING_BUF_SIZE" "length (content V (cdc_rb p)) \<le> CDC_RING_BUF_SIZE"
    by (simp_all add: machine_contract_def program_ok_def)
  from cdc_interrupt_handler_run [OF this, of w] obtain rb w' where
    "cdc_interrupt_handler (ring (plat X)) (uart (plat X)) (cdc_acm_uart1 (plat X)) (cdc_rb p, w) = Some (Inr (rb, w'))"
    "length (content V rb) \<le> CDC_RING_BUF_SIZE" by blast
  with ok show ?thesis by (intro exI [of _ rb] exI [of _ w']) (simp add: program_ok_def)
qed

lemma report_loop_returns: "i + k \<le> length (unicast iface) \<Longrightarrow> \<exists>w'. report_loop N iface k i w = Inr w'"
proof (induction k arbitrary: i w)
  case 0
  then show ?case by simp
next
  case (Suc k)
  have "\<exists>w1. report_addr N iface i w = Inr w1"
    using Suc.prems by (cases "unicast iface ! i") (simp add: report_addr_def Let_def)
  with Suc show ?case by auto
qed

lemma objects_kept_ok:
  assumes M: "machine_contract X lossless V" and ok: "program_ok X V p" and k: "objects_kept (plat X) p p'"
  shows "program_ok X V p' \<and> pending (uart_a p') = pending (uart_a p) \<and>
     (string_callback (uart_a p) \<noteq> None \<longrightarrow> string_callback (uart_a p') \<noteq> None)"
proof -
  have "content V (ring_buf_init (ring (plat X)) CDC_RING_BUF_SIZE) = []" using M by (simp add: machine_contract_def)
  with ok k have "length (content V (cdc_rb p')) \<le> CDC_RING_BUF_SIZE"
    by (auto simp: program_ok_def objects_kept_def)
  moreover have "b_ok (config_b (plat X)) (ring_items V) (uart_b p')"
    using ok k by (auto simp: program_ok_def objects_kept_def b_ok_def wf_b_def b_pending_def)
  moreover have "wf_rx (config_a (plat X)) (uart_a p') \<and> wf_str (config_a (plat X)) (uart_a p') \<and> client_ok (uart_a p') \<and>
      pending (uart_a p') = pending (uart_a p) \<and> (string_callback (uart_a p) \<noteq> None \<longrightarrow> string_callback (uart_a p') \<noteq> None)"
    using ok k by (auto simp: program_ok_def objects_kept_def client_ok_def callback_keeps)
  ultimately show ?thesis by (simp add: program_ok_def)
qed

lemma handle_entry:
  assumes M: "machine_contract X lossless V" and ok: "program_ok X V p" and e: "e = Entry \<or> (\<exists>i. e = Entry_call i)"
  shows "\<exists>p' w'. handle X e (p, c, w) = Some (Inr (p', c, w')) \<and> program_ok X V p' \<and> pending (uart_a p') = pending (uart_a p) \<and>
     (string_callback (uart_a p) \<noteq> None \<longrightarrow> string_callback (uart_a p') \<noteq> None)"
  using e
proof (elim disjE exE)
  assume "e = Entry"
  moreover obtain p' w' where "main_program (plat X) (p, w) = (p', w')" by (cases "main_program (plat X) (p, w)")
  ultimately show ?thesis using objects_kept_ok [OF M ok main_program_objects] by simp
next
  fix i
  assume i: "e = Entry_call i"
  obtain p' w' where f: "(main_calls (plat X) ! i) (p, w) = (p', w')" by (cases "(main_calls (plat X) ! i) (p, w)")
  show ?thesis
  proof (cases "i < length (main_calls (plat X))")
    case True
    with i f objects_kept_ok [OF M ok main_call_objects, OF nth_mem [OF True] f] show ?thesis by simp
  next
    case False
    with i ok show ?thesis by simp
  qed
qed

text \<open>The calls one after the other are the entry point.\<close>

lemma entry_calls:
  "handle_all X (map Entry_call [i..<length (main_calls (plat X))]) (p, c, w) =
     (case in_turn (drop i (main_calls (plat X))) (p, w) of (p1, w1) \<Rightarrow> Some (Inr (p1, c, w1)))"
proof (induction "length (main_calls (plat X)) - i" arbitrary: i p w)
  case 0
  then show ?case by simp
next
  case (Suc n)
  then have i: "i < length (main_calls (plat X))" by simp
  obtain p1 w1 where f: "(main_calls (plat X) ! i) (p, w) = (p1, w1)" by (cases "(main_calls (plat X) ! i) (p, w)")
  from Suc.hyps(1) [of "Suc i" p1 w1] Suc.hyps(2) show ?case
    by (simp add: upt_conv_Cons i f Cons_nth_drop_Suc [OF i, symmetric])
qed

lemma entry_is_its_calls:
  "handle X Entry (p, c, w) = handle_all X (map Entry_call [0..<length (main_calls (plat X))]) (p, c, w)"
  by (simp add: entry_calls main_program_calls)

lemma handle_rest:
  assumes ok: "program_ok X V p" and e: "e \<in> {Button, Guard_expiry, Cdc_timer, Cdc_work, Queue_item} \<or>
     (\<exists>ev iface. e = Net_event ev iface) \<or> (\<exists>f. e = Elsewhere f)" and "event_ok X e"
  shows "\<exists>p' w'. handle X e (p, c, w) = Some (Inr (p', c, w')) \<and> program_ok X V p' \<and> uart_a p' = uart_a p"
proof -
  have b: "b_ok (config_b (plat X)) (ring_items V) ((uart_b p)\<lparr>sending_guard := False\<rparr>)"
    using ok by (simp add: program_ok_def b_ok_def wf_b_def b_pending_def)
  have "\<exists>s. cstr (str (uart_a p)) = Inr s" using ok by (simp add: program_ok_def wf_str_def cstr_def)
  then have t: "\<exists>w'. transmit_string (uart (plat X)) (conf_of_a X) (uart_a p) w = Inr w'"
    by (auto simp: transmit_string_def Let_def)
  have r: "\<exists>w'. dhcp_handler (net (plat X)) (max_addr X) ev iface w = Inr w'" if "length (unicast iface) = max_addr X" for ev iface
    using report_loop_returns [of 0 "max_addr X" iface "net (plat X)" w] that by (simp add: dhcp_handler_def)
  from e show ?thesis
  proof (elim disjE exE)
    assume "e \<in> {Button, Guard_expiry, Cdc_timer, Cdc_work, Queue_item}"
    with ok t b show ?thesis by (auto simp: sending_guard_timer_expired_function_def program_ok_def)
  next
    fix ev iface assume e: "e = Net_event ev iface"
    with assms(3) r [of iface ev] ok show ?thesis by auto
  qed (use ok in simp)
qed

text \<open>The bytes the UART of driver A hands over in an event, and in a sequence of events.\<close>

fun a_bytes :: "('rb, 'rbi, 'w) views \<Rightarrow> ('a, 'w) event \<Rightarrow> ('rb, 'rbi, 'w) sys \<Rightarrow> u8 list" where
  "a_bytes V Uart_a_irq (p, c, w) = rx_a V w"
| "a_bytes V e s = []"

fun a_input ::
    "('rb, 'rbi, 'a, 'i, 'w) machine \<Rightarrow> ('rb, 'rbi, 'w) views \<Rightarrow> ('a, 'w) event list \<Rightarrow> ('rb, 'rbi, 'w) sys \<Rightarrow> u8 list" where
  "a_input X V [] s = []"
| "a_input X V (e # es) s =
     a_bytes V e s @ (case handle X e s of Some (Inr s1) \<Rightarrow> a_input X V es s1 | _ \<Rightarrow> [])"

text \<open>What the client of driver A has seen: the driver's framing of the bytes, every frame counted.\<close>

definition tracks ::
    "nat \<Rightarrow> u8 list \<Rightarrow> ('rb, 'rbi, 'w) sys \<Rightarrow> ('rb, 'rbi, 'w) sys \<Rightarrow> bool" where
  "tracks n bs s s' \<longleftrightarrow>
     (case (s, s') of ((p, c, w), (p', c', w')) \<Rightarrow>
        pending (uart_a p') = residue (string_step n) bs (pending (uart_a p)) \<and>
        (string_callback (uart_a p) \<noteq> None \<longrightarrow> string_callback (uart_a p') \<noteq> None \<and>
           c' = fold (\<lambda>e. count_frame (snd e)) (frames (string_step n) bs (pending (uart_a p))) c))"

lemma tracks_append: "tracks n as s t \<Longrightarrow> tracks n bs t u \<Longrightarrow> tracks n (as @ bs) s u"
  by (auto simp: tracks_def frames_append split: prod.splits)

text \<open>Preservation and progress: one event on a well-typed state.\<close>

lemma handle_sound:
  assumes M: "machine_contract X lossless V" and S: "sizes_ok X" and ok: "program_ok X V p" and e: "event_ok X e"
  shows "\<exists>p' c' w'. handle X e (p, c, w) = Some (Inr (p', c', w')) \<and> program_ok X V p' \<and>
     tracks (RX_BUF_SIZE (config_a (plat X))) (a_bytes V e (p, c, w)) (p, c, w) (p', c', w')"
proof (cases e)
  case Entry
  with handle_entry [OF M ok, of e c w] show ?thesis by (auto simp: tracks_def)
next
  case (Entry_call i)
  with handle_entry [OF M ok, of e c w] show ?thesis by (auto simp: tracks_def)
next
  case Uart_a_irq
  with handle_a [OF M ok, of c w] show ?thesis by (fastforce simp: tracks_def fixed_fields_def)
next
  case (Uart_b_irq junk)
  with handle_b [OF M S ok, of junk c w] e show ?thesis by (auto simp: tracks_def)
next
  case Cdc_irq
  with handle_cdc [OF M ok, of c w] show ?thesis by (auto simp: tracks_def)
qed (use handle_rest [OF ok _ e, of c w] in \<open>auto simp: tracks_def\<close>)

lemma handle_all_sound:
  assumes M: "machine_contract X lossless V" and S: "sizes_ok X"
  shows "program_ok X V p \<Longrightarrow> list_all (event_ok X) es \<Longrightarrow>
     \<exists>p' c' w'. handle_all X es (p, c, w) = Some (Inr (p', c', w')) \<and> program_ok X V p' \<and>
       tracks (RX_BUF_SIZE (config_a (plat X))) (a_input X V es (p, c, w)) (p, c, w) (p', c', w')"
proof (induction es arbitrary: p c w)
  case Nil
  then show ?case by (simp add: tracks_def)
next
  case (Cons e es)
  then have e: "event_ok X e" and es: "list_all (event_ok X) es" by simp_all
  from handle_sound [OF M S Cons.prems(1) e, of c w] obtain p1 c1 w1 where
    1: "handle X e (p, c, w) = Some (Inr (p1, c1, w1))" "program_ok X V p1"
      "tracks (RX_BUF_SIZE (config_a (plat X))) (a_bytes V e (p, c, w)) (p, c, w) (p1, c1, w1)" by blast
  from Cons.IH [OF 1(2) es, of c1 w1] obtain p' c' w' where
    2: "handle_all X es (p1, c1, w1) = Some (Inr (p', c', w'))" "program_ok X V p'"
      "tracks (RX_BUF_SIZE (config_a (plat X))) (a_input X V es (p1, c1, w1)) (p1, c1, w1) (p', c', w')" by blast
  from tracks_append [OF 1(3) 2(3)] 1 2 show ?case by (intro exI [of _ p'] exI [of _ c'] exI [of _ w']) simp
qed

section \<open>From the initialisation on\<close>

lemma init_device_objects:
  assumes "init_device X d (p, w) = Inr (ret, p', w')"
  shows "p' = p \<and> \<not> (d = Driver_b \<and> ret = 0) \<or>
     (\<exists>n. p' = p\<lparr>uart_b := (uart_b p)\<lparr>tx_rb := ring_buf_item_init (item_ring (plat X)) n\<rparr>\<rparr>)"
  using assms
  by (cases d)
    (auto simp: init_device_def device_a_def device_b_def device_sensor_def init_my_uart_peripheral_b_def
      ENODEV_def Let_def sbind_eq_Inr split: if_splits prod.splits)

lemma init_all_objects:
  assumes I: "\<And>n. ring_items V (ring_buf_item_init (item_ring (plat X)) n) = []"
  shows "init_all X ds (p, w) = Inr (rets, p', w') \<Longrightarrow> uart_a p' = uart_a p \<and> cdc_rb p' = cdc_rb p \<and>
     (\<exists>rb. uart_b p' = (uart_b p)\<lparr>tx_rb := rb\<rparr> \<and>
        (ring_items V (tx_rb (uart_b p)) = [] \<or> (Driver_b, 0) \<in> set rets \<longrightarrow> ring_items V rb = []))"
proof (induction ds arbitrary: p w rets)
  case Nil
  then show ?case by (intro conjI exI [of _ "tx_rb (uart_b p)"]) simp_all
next
  case (Cons d ds)
  then obtain ret p1 w1 rets1 where d: "init_device X d (p, w) = Inr (ret, p1, w1)"
    and ds: "init_all X ds (p1, w1) = Inr (rets1, p', w')" and r: "rets = (d, ret) # rets1"
    by (auto simp: sbind_eq_Inr split: prod.splits)
  from Cons.IH [OF ds] obtain rb where 1: "uart_a p' = uart_a p1" "cdc_rb p' = cdc_rb p1"
    "uart_b p' = (uart_b p1)\<lparr>tx_rb := rb\<rparr>"
    "ring_items V (tx_rb (uart_b p1)) = [] \<or> (Driver_b, 0) \<in> set rets1 \<longrightarrow> ring_items V rb = []" by blast
  from init_device_objects [OF d] have "p1 = p \<and> \<not> (d = Driver_b \<and> ret = 0) \<or>
      uart_a p1 = uart_a p \<and> cdc_rb p1 = cdc_rb p \<and> ring_items V (tx_rb (uart_b p1)) = [] \<and>
      (\<exists>rb. uart_b p1 = (uart_b p)\<lparr>tx_rb := rb\<rparr>)" using I by auto
  with 1 r show ?case by (intro conjI exI [of _ rb]) auto
qed

text \<open>The string the device tree gives driver A fits its array.\<close>

definition string_fits :: "('rb, 'rbi, 'a, 'i, 'w) machine \<Rightarrow> bool" where
  "string_fits X \<longleftrightarrow>
     (case initial_string (node_a X) of None \<Rightarrow> True | Some s \<Rightarrow> length s \<le> MAX_STR_LEN (config_a (plat X)))"

lemma boot_ok:
  assumes M: "machine_contract X lossless V" and S: "sizes_ok X" and F: "string_fits X" and rb: "content V rb = []"
    and boot: "boot X order (statics X rb zeroed, w0) = Inr (rets, p, w)"
    and b: "(Driver_b, 0) \<in> set rets \<or> ring_items V zeroed = []"
  shows "program_ok X V p \<and> pending (uart_a p) = []"
proof -
  have I: "\<And>n. ring_items V (ring_buf_item_init (item_ring (plat X)) n) = []" using M by (simp add: machine_contract_def)
  let ?p = "statics X rb zeroed" and ?K = "config_a (plat X)" and ?KB = "config_b (plat X)"
  have "tx_rb (uart_b ?p) = zeroed" by (simp add: statics_def INIT_MY_UART_PERIPHERAL_B_def my_uart_b_data_init_def)
  with b have e: "ring_items V (tx_rb (uart_b ?p)) = [] \<or> (Driver_b, 0) \<in> set rets" by auto
  from init_all_objects [where V = V, OF I boot [unfolded boot_def]] obtain rbi where
    p: "uart_a p = uart_a ?p" "cdc_rb p = cdc_rb ?p" "uart_b p = (uart_b ?p)\<lparr>tx_rb := rbi\<rparr>"
    and "ring_items V (tx_rb (uart_b ?p)) = [] \<or> (Driver_b, 0) \<in> set rets \<longrightarrow> ring_items V rbi = []" by blast
  with e have rbi: "ring_items V rbi = []" by blast
  have "wf_rx ?K (uart_a ?p)" using S by (simp add: statics_def INIT_MY_UART_PERIPHERAL_def wf_rx_init sizes_ok_def)
  moreover have "wf_str ?K (uart_a ?p)"
    using F by (auto simp: statics_def INIT_MY_UART_PERIPHERAL_def string_fits_def intro!: wf_str_init split: option.splits)
  moreover have "client_ok (uart_a ?p)" and "pending (uart_a ?p) = []"
    by (simp_all add: statics_def INIT_MY_UART_PERIPHERAL_def my_uart_data_init_def client_ok_def pending_def)
  moreover have "b_ok ?KB (ring_items V) (uart_b p)"
    using S p(3) rbi by (simp add: statics_def INIT_MY_UART_PERIPHERAL_B_def my_uart_b_data_init_def b_ok_def wf_b_def b_pending_def sizes_ok_def)
  moreover have "cdc_rb ?p = rb" by (simp add: statics_def)
  ultimately show ?thesis using p(1,2) rb by (simp add: program_ok_def)
qed

section \<open>Properties\<close>

text \<open>
  C10. The state of the program is well typed for good, if the configuration's sizes allow it:
  neither receive buffer empty nor as long as 2^32 bytes, driver B's send buffer of fewer than 256
  words and at least six bytes longer than its receive buffer, which the Kconfig defaults are not.
  On a well-typed state (both drivers' data well formed, the string terminated, each callback with
  the object it needs, every queued item within its size, the echo port's ring buffer within its)
  each event, be it an interrupt handler, an expiry function, a work item, a button press, a network
  event, the entry point or one call of it, returns without a fault and leaves a well-typed state,
  whatever else happens to the world. (Threads and shell commands are not events.)
\<close>

theorem events_preserve_types:
  assumes "machine_contract X lossless V" and "sizes_ok X" and "program_ok X V p" and "event_ok X e"
  shows "\<exists>p' c' w'. handle X e (p, c, w) = Some (Inr (p', c', w')) \<and> program_ok X V p'"
  using handle_sound [OF assms, of c w] by blast

text \<open>
  C2. The handlers never fault, if the configuration's sizes allow it: neither receive buffer empty
  nor as long as 2^32 bytes, driver B's send buffer of fewer than 256 words and at least six bytes
  longer than its receive buffer, which the Kconfig defaults are not, and driver A's initial string
  no longer than its array. Once the devices have been initialised, in whatever order the linker has
  them, and whichever of them have failed to (driver B only if its ring buffer, a zeroed object then,
  counts as empty), no sequence of interrupts, timer expiries, work items, button presses, network
  events and calls of the entry point, interrupts between any two of those calls among them, makes
  one of these read or write outside an object or hang. What a thread or a shell command does is
  not an event of these sequences, beyond its effect on the world. (What an interrupt inside the
  registration of driver A's callback does is stated in \<open>My_Uart_Races\<close>.)
\<close>

theorem handlers_never_fault:
  assumes "machine_contract X lossless V" and "sizes_ok X" and "string_fits X" and "content V rb = []"
    and "boot X order (statics X rb zeroed, w0) = Inr (rets, p, w)" and "(Driver_b, 0) \<in> set rets \<or> ring_items V zeroed = []"
    and "list_all (event_ok X) es"
  shows "\<exists>s'. handle_all X es (p, tracker0, w) = Some (Inr s')"
  using handle_all_sound [OF assms(1,2) conjunct1 [OF boot_ok [OF assms(1-6)]] assms(7), of tracker0 w] by blast

text \<open>
  C15. Nothing is miscounted, if the configuration's sizes allow it (neither receive buffer empty nor
  as long as 2^32 bytes, driver B's send buffer of fewer than 256 words and at least six bytes longer
  than its receive buffer): on a well-typed state in which its callback is registered, after any
  sequence of the events of the program, the client of driver A has counted one string per NUL
  received and one overflow per full buffer, modulo 2^32 and hence exactly as long as the \<open>int\<close> holds
  the count, and what has come since the last frame is what the driver holds.
\<close>

theorem strings_counted:
  assumes "machine_contract X lossless V" and "sizes_ok X" and "program_ok X V p"
    and "string_callback (uart_a p) = Some Peripheral_callback" and "list_all (event_ok X) es"
    and "bs = a_input X V es (p, c, w)" and "n = RX_BUF_SIZE (config_a (plat X))"
  shows "\<exists>p' c' w'. handle_all X es (p, c, w) = Some (Inr (p', c', w')) \<and>
     counts_up (strings c) (count_list bs 0) (strings c') \<and>
     counts_up (overflows c) (length (filter (\<lambda>e. \<not> snd e) (frames (string_step n) bs (pending (uart_a p))))) (overflows c') \<and>
     pending (uart_a p') = residue (string_step n) bs (pending (uart_a p))"
proof -
  from handle_all_sound [OF assms(1-3,5), of c w] assms(6,7) obtain p' c' w' where
    "handle_all X es (p, c, w) = Some (Inr (p', c', w'))" "tracks n bs (p, c, w) (p', c', w')" by blast
  with assms(4) show ?thesis
    by (intro exI [of _ p'] exI [of _ c'] exI [of _ w'])
      (simp add: tracks_def count_frames_fold count_string_frames counts_up_add)
qed

section \<open>Runs of the properties\<close>

text \<open>
  The boards' devices: driver A on UART 5, driver B (device 2) on UART 2, the echo port on 3.
\<close>

definition board_i2c :: "board i2c_api" where
  "board_i2c = \<lparr>i2c_write_read_dt = (\<lambda>s bs rs w. (0, rs, w)), i2c_write_dt = (\<lambda>s bs w. (0, w))\<rparr>"

definition board_machine :: "(u8 list, board_items, nat, unit, board) machine" where
  "board_machine = \<lparr>plat = board_platform\<lparr>config_b := K16\<lparr>B_RX_BUF_SIZE := 32\<rparr>\<rparr>, gpio_bus = board_gpio,
     i2c_bus = board_i2c, node_a = \<lparr>node_bus = 5, button_gpios = \<lparr>port = 0, pin = 23\<rparr>, initial_string = Some (ascii ''Hello'')\<rparr>,
     node_b = \<lparr>b_node_bus = 2, ctrl_gpios = \<lparr>port = 0, pin = 12\<rparr>\<rparr>,
     node_sensor = \<lparr>node_i2c = \<lparr>bus = 4, addr = 24\<rparr>, node_resolution = 3\<rparr>, my_device = 1, sensor_priority = 90, max_addr = 1\<rparr>"

definition board_views :: "(u8 list, board_items, board) views" where
  "board_views = \<lparr>rx_a = (\<lambda>w. rxq w 5), rx_b = (\<lambda>w. rxq w 2), txr_b = (\<lambda>w. tx_on w 2), sent_b = (\<lambda>w. fills w 2),
     rx_c = (\<lambda>w. rxq w 3), txr_c = (\<lambda>w. tx_on w 3), tx_c = (\<lambda>w. txq w 3), content = id, ring_items = snd\<rparr>"

lemma board_machine_sel:
  "kernel (plat board_machine) = board_kernel" "uart (plat board_machine) = board_uart"
  "ring (plat board_machine) = board_ring 256" "item_ring (plat board_machine) = board_ring_items"
  "cdc_acm_uart1 (plat board_machine) = 3" "uart_dev (conf_of_a board_machine) = 5" "b_uart_dev (conf_of_b board_machine) = 2"
  "config_a (plat board_machine) = \<lparr>MAX_STR_LEN = 256, RX_BUF_SIZE = 256, ASSERT = False\<rparr>"
  "config_b (plat board_machine) = K16\<lparr>B_RX_BUF_SIZE := 32\<rparr>"
  by (simp_all add: board_machine_def board_platform_def my_uart_conf_init_def my_uart_b_conf_init_def)

lemma board_machine_contract: "machine_contract board_machine True board_views"
proof -
  have "poll_uart_contract board_uart 5 (\<lambda>w. rxq w 5) (\<lambda>w. ())" by (rule board_poll_uart) (simp add: rxq_blind_def)
  moreover have "printk_contract board_kernel (\<lambda>w. rxq w 5)" by (rule board_printk) simp
  moreover have "ring_contract (board_ring 256) id CDC_RING_BUF_SIZE"
    using board_ring_contract by (simp add: CDC_RING_BUF_SIZE_def)
  ultimately show ?thesis
    using board_b_uart [of 2] board_b_kernel [of 2] board_get board_put board_relay [of 3]
    by (simp add: machine_contract_def board_machine_sel board_views_def)
      (simp add: board_ring_items_def board_ring_def)
qed

lemma board_machine_sizes: "sizes_ok board_machine" "string_fits board_machine"
  by (simp add: sizes_ok_def board_machine_sel K16_def)
    (simp add: string_fits_def board_machine_def board_platform_def)

text \<open>The three devices, whatever the link order; both drivers come before the sensor.\<close>

lemma board_order: "sort_key (init_priority board_machine) [Sensor, Driver_b, Driver_a] = [Driver_b, Driver_a, Sensor]"
  by (simp add: init_priority_def board_machine_def MY_UART_PERIPHERAL_INIT_PRIORITY_def MY_UART_PERIPHERAL_B_INIT_PRIORITY_def)

lemma board_devices:
  assumes "gpio_ret w = 0" and "ready w = (\<lambda>_. True)"
  shows "\<exists>w'. device_a board_machine (p, w) = Inr (0, p, w')"
    and "\<exists>p' w'. device_b board_machine (p, w) = Inr (0, p', w') \<and> gpio_ret w' = 0 \<and> ready w' = (\<lambda>_. True)"
proof -
  note defs = board_machine_sel board_uart_def board_kernel_def board_gpio_def board_i2c_def log_def Let_def
  have g: "gpio_bus board_machine = board_gpio" "i2c_bus board_machine = board_i2c" by (simp_all add: board_machine_def)
  show "\<exists>w'. device_a board_machine (p, w) = Inr (0, p, w')"
    using assms by (simp add: device_a_def init_my_uart_peripheral_def init_uart_def init_gpio_def g defs)
  show "\<exists>p' w'. device_b board_machine (p, w) = Inr (0, p', w') \<and> gpio_ret w' = 0 \<and> ready w' = (\<lambda>_. True)"
    using assms by (simp add: device_b_def init_my_uart_peripheral_b_def b_init_uart_def b_init_gpio_def g defs)
qed

lemma board_boot:
  "\<exists>rets p w. boot board_machine [Sensor, Driver_b, Driver_a] (statics board_machine [] (0, []), board0) = Inr (rets, p, w) \<and>
     (Driver_b, 0) \<in> set rets"
proof -
  have "gpio_ret board0 = 0" "ready board0 = (\<lambda>_. True)" by (simp_all add: board0_def)
  from board_devices(2) [OF this, of "statics board_machine [] (0, [])"] obtain p1 w1 where
    1: "device_b board_machine (statics board_machine [] (0, []), board0) = Inr (0, p1, w1)"
      "gpio_ret w1 = 0" "ready w1 = (\<lambda>_. True)" by blast
  from board_devices(1) [OF 1(2,3), of p1] obtain w2 where 2: "device_a board_machine (p1, w1) = Inr (0, p1, w2)" by blast
  have "\<exists>rc w3. device_sensor board_machine (p1, w2) = Inr (rc, p1, w3)"
    by (simp add: device_sensor_def split_beta)
  then obtain rc w3 where 3: "device_sensor board_machine (p1, w2) = Inr (rc, p1, w3)" by blast
  from 1(1) 2 3 show ?thesis unfolding boot_def board_order by (simp add: init_device_def)
qed

definition board_events :: "(nat, board) event list" where
  "board_events = [Entry_call 0, Entry_call 1, Uart_b_irq (replicate 64 2), Entry_call 2, Uart_a_irq, Entry_call 3, Entry, Elsewhere (\<lambda>w. w\<lparr>rxq := (\<lambda>d. if d = 5 then [72, 0, 65, 0] else [72, 105, LF])\<rparr>),
     Button, Uart_b_irq (replicate 64 0), Uart_a_irq, Guard_expiry, Cdc_timer, Cdc_work, Cdc_irq, Queue_item, Uart_b_irq (replicate 64 1)]"

lemma board_events_ok: "list_all (event_ok board_machine) board_events"
  by (simp add: board_events_def board_machine_sel K16_def)

theorem handlers_never_fault_witness:
  "\<exists>rets p w s'. boot board_machine [Sensor, Driver_b, Driver_a] (statics board_machine [] (0, []), board0) = Inr (rets, p, w) \<and>
     handle_all board_machine board_events (p, tracker0, w) = Some (Inr s')"
proof -
  from board_boot obtain rets p w where
    b: "boot board_machine [Sensor, Driver_b, Driver_a] (statics board_machine [] (0, []), board0) = Inr (rets, p, w)"
      "(Driver_b, 0) \<in> set rets" by blast
  have "content board_views [] = []" by (simp add: board_views_def)
  from handlers_never_fault [OF board_machine_contract board_machine_sizes this b(1) disjI1 [OF b(2)] board_events_ok] b(1)
  show ?thesis by (intro exI [of _ rets] exI [of _ p] exI [of _ w]) simp
qed

text \<open>A well-typed state with both callbacks registered, and driver B's queue and guard in use.\<close>

definition board_program :: "(u8 list, board_items) program" where
  "board_program = (statics board_machine [] (128, [(0, 1, ascii ''SEND:Hi'' @ [0], 2)]))
     \<lparr>uart_a := user_set_string_callback (Some Peripheral_callback) (Some Tracker) (my_uart_data_init (config_a (plat board_machine)) []),
      cdc_rb := [1, 2]\<rparr>"

lemma board_program_ok:
  "program_ok board_machine board_views board_program" "string_callback (uart_a board_program) = Some Peripheral_callback"
proof -
  let ?K = "config_a (plat board_machine)"
  have "wf_rx ?K (my_uart_data_init ?K [])" and "wf_str ?K (my_uart_data_init ?K [])"
    by (simp_all add: wf_rx_init wf_str_init board_machine_sel)
  then show "program_ok board_machine board_views board_program"
    by (simp add: program_ok_def board_program_def callback_keeps client_ok_def board_views_def CDC_RING_BUF_SIZE_def)
      (simp add: statics_def INIT_MY_UART_PERIPHERAL_B_def b_ok_def wf_b_def b_pending_def my_uart_b_data_init_def
        board_machine_sel K16_def)
qed (simp add: board_program_def callback_keeps)

theorem events_preserve_types_witness:
  "\<exists>p' c' w'. handle board_machine (Uart_b_irq (replicate 64 7)) (board_program, tracker0, board_rx 2 (replicate 40 65 @ [LF, 66, LF])) =
       Some (Inr (p', c', w')) \<and> program_ok board_machine board_views p'"
proof (rule events_preserve_types [OF board_machine_contract board_machine_sizes(1) board_program_ok(1)])
  show "event_ok board_machine (Uart_b_irq (replicate 64 7))" by (simp add: board_machine_sel K16_def)
qed

theorem strings_counted_witness:
  "\<exists>p' c' w'. handle_all board_machine [Uart_a_irq, Elsewhere (\<lambda>w. board_rx 5 [66, 0, 67]), Uart_a_irq]
       (board_program, tracker0, board_rx 5 [72, 0, 65, 0]) = Some (Inr (p', c', w')) \<and> sint (strings c') \<ge> 2"
proof -
  let ?es = "[Uart_a_irq, Elsewhere (\<lambda>w. board_rx 5 [66, 0, 67]), Uart_a_irq] :: (nat, board) event list"
  let ?s = "(board_program, tracker0, board_rx 5 [72, 0, 65, 0])"
  let ?n = "count_list (a_input board_machine board_views ?es ?s) 0"
  have "list_all (event_ok board_machine) ?es" by simp
  from strings_counted [OF board_machine_contract board_machine_sizes(1) board_program_ok this refl refl, of tracker0 "board_rx 5 [72, 0, 65, 0]"]
  obtain p' c' w' where h: "handle_all board_machine ?es ?s = Some (Inr (p', c', w'))"
    and c: "counts_up (strings tracker0) ?n (strings c')" by blast
  have n: "2 \<le> ?n" "?n < 2 ^ 31"
    by (auto simp: board_views_def board_rx_def split: option.split sum.split)
  have z: "sint (strings tracker0) = 0" by (simp add: tracker0_def)
  have b: "sint (strings tracker0) + int ?n < 2 ^ 31" unfolding z using n(2) by simp
  from c have "sint (strings c') = sint (strings tracker0) + int ?n" unfolding counts_up_def by (rule conjunct2 [THEN mp]) (rule b)
  with n(1) have "2 \<le> sint (strings c')" unfolding z by linarith
  with h show ?thesis by blast
qed

end
