(* ===== verification/My_Uart_Races.thy ===== *)
theory My_Uart_Races
  imports Main_My_Uart_Peripheral
begin

text \<open>
  Driver A's calls are made by a thread, and its handlers interrupt it: what happens when the
  UART interrupt or the button comes in the middle of setting the callback or the string, the two
  operations that take more than one store.
\<close>

section \<open>Operations as their stores\<close>

text \<open>What \<open>user_set_string_callback\<close> and \<open>user_set_string\<close> store, in the order of the code.\<close>

definition callback_stores ::
    "'cb option \<Rightarrow> 'ud option \<Rightarrow> (('cb, 'ud) my_uart_data \<Rightarrow> ('cb, 'ud) my_uart_data) list" where
  "callback_stores cb ud = [\<lambda>data. data\<lparr>string_callback := cb\<rparr>, \<lambda>data. data\<lparr>user_data := ud\<rparr>]"

definition string_stores :: "u8 list \<Rightarrow> nat \<Rightarrow> (('cb, 'ud) my_uart_data \<Rightarrow> ('cb, 'ud) my_uart_data) list" where
  "string_stores string len =
     map (\<lambda>i data. data\<lparr>str := (str data)[i := string ! i]\<rparr>) [0..<len] @ [\<lambda>data. data\<lparr>str := (str data)[len := 0]\<rparr>]"

lemma callback_stores_all: "in_turn (callback_stores cb ud) data = user_set_string_callback cb ud data"
  by (simp add: callback_stores_def user_set_string_callback_def)

text \<open>\<open>n\<close> of the stores are done when the handler \<open>isr\<close> runs; the others follow when it has returned.\<close>

definition interrupted ::
    "('s \<Rightarrow> 's) list \<Rightarrow> nat \<Rightarrow> ('s \<times> 'g \<times> 'w \<Rightarrow> ('s \<times> 'g \<times> 'w) outcome) \<Rightarrow> 's \<times> 'g \<times> 'w \<Rightarrow> ('s \<times> 'g \<times> 'w) outcome" where
  "interrupted fs n isr st =
     (case st of (s, g, w) \<Rightarrow>
      obind (isr (in_turn (take n fs) s, g, w)) (\<lambda>(s1, g1, w1). Some (Inr (in_turn (drop n fs) s1, g1, w1))))"

section \<open>A callback that faults\<close>

text \<open>Until a frame is complete the callback does not matter.\<close>

lemma rx_char_no_frame:
  assumes "wf_rx K data" and "snd (string_step (RX_BUF_SIZE K) c (pending data)) = []"
  shows "rx_char K call dev cb c (data, g, w) = rx_char K call dev None c (data, g, w)"
proof -
  have "length (pending data) = rx_data_len data" using assms(1) by (simp add: wf_rx_def pending_def)
  with assms show ?thesis
    by (simp add: rx_char_def Let_def string_step_def store_ok wf_rx_def split: if_splits)
qed

lemma rx_char_frame_fault:
  fixes call :: "('cb, 'ud, 'g, 'w) my_uart_call"
  assumes wf: "wf_rx K data" and fr: "snd (string_step (RX_BUF_SIZE K) c (pending data)) \<noteq> []"
    and bad: "\<And>buf len b st. 0 < len \<Longrightarrow> len \<le> length buf \<Longrightarrow> b \<longrightarrow> buf ! (len - 1) = 0 \<Longrightarrow>
      call f dev buf len b (user_data data) st = Inl e"
  shows "rx_char K call dev (Some f) c (data, g, w) = Inl e"
proof -
  let ?n = "rx_data_len data"
  have l: "length (pending data) = ?n" "?n < length (rx_buf data)" "length (rx_buf data) = RX_BUF_SIZE K" "RX_BUF_SIZE K < 2 ^ 32"
    using wf by (simp_all add: wf_rx_def pending_def)
  with fr have "c = 0 \<or> c \<noteq> 0 \<and> ?n + 1 = RX_BUF_SIZE K" by (auto simp: string_step_def split: if_splits)
  with l show ?thesis by (auto simp: rx_char_def store_ok Let_def deliver_def bad)
qed

lemma uart_int_handler_fault:
  fixes call :: "('cb, 'ud, 'g, 'w) my_uart_call" and w :: 'w
  assumes U: "poll_uart_contract U uart rx \<alpha>" and wf: "wf_rx K data" and cb: "string_callback data = Some f"
    and fr: "frames (string_step (RX_BUF_SIZE K)) (rx w) (pending data) \<noteq> []"
    and bad: "\<And>buf len b st. 0 < len \<Longrightarrow> len \<le> length buf \<Longrightarrow> b \<longrightarrow> buf ! (len - 1) = 0 \<Longrightarrow>
      call f dev buf len b (user_data data) st = Inl e"
  shows "uart_int_handler K U call uart dev (data, g, w) = Some (Inl e)"
proof -
  let ?step = "string_step (RX_BUF_SIZE K)"
  from first_frame [OF fr] obtain ys c zs where
    rxw: "rx w = ys @ c # zs" and none: "frames ?step ys (pending data) = []" and one: "snd (?step c (residue ?step ys (pending data))) \<noteq> []"
    by blast
  let ?w1 = "snd (uart_irq_update U uart w)"
  obtain rdy w2 where q: "uart_irq_rx_ready U uart ?w1 = (rdy, w2)" by (cases "uart_irq_rx_ready U uart ?w1")
  from U have upd: "query_contract (uart_irq_update U uart) rx \<alpha>"
    and rr: "rx_ready_contract U uart rx \<alpha>" and pl: "poll_in_contract U uart rx \<alpha>"
    by (simp_all add: poll_uart_contract_def)
  from upd have "rx ?w1 = rx w" by (simp add: query_contract_def)
  with rx_ready_contractD [OF rr q] rxw have rdy: "rdy \<noteq> 0" "rx w2 = ys @ c # zs" by auto
  let ?P = "\<lambda>xs (x :: u8, D :: ('cb, 'ud) my_uart_data, g :: 'g, v :: 'w). wf_rx K D \<and> user_data D = user_data data \<and>
      rx v = xs @ c # zs \<and> frames ?step xs (pending D) = [] \<and> snd (?step c (residue ?step xs (pending D))) \<noteq> []"
  have poll: "\<exists>v1. uart_poll_in U uart v = (0, b, v1) \<and> rx v1 = bs" if "rx v = b # bs" for v b bs
    using pl that by (rule poll_in_contract_byte) blast
  have "rx_loop K U call uart dev (Some f) (0, data, g, w2) = Some (Inl e)"
    unfolding rx_loop_def
  proof (rule whileM_fault_after [where P = ?P and xs = ys])
    show "?P ys (0, data, g, w2)" using wf rdy(2) none one by simp
  next
    fix b xs s
    assume P: "?P (b # xs) s"
    obtain x D g v where s: "s = (x, D, g, v)" by (cases s)
    from P have "rx v = b # xs @ c # zs" by (simp add: s)
    from poll [OF this] obtain v1 where v1: "uart_poll_in U uart v = (0, b, v1)" "rx v1 = xs @ c # zs" by blast
    from P have D: "wf_rx K D" "snd (?step b (pending D)) = []" by (simp_all add: s)
    have none: "callback_contract call dev None (user_data D) rx (\<lambda>_. 0 :: nat) (\<lambda>e a. a)" by (simp add: callback_contract_def)
    from rx_char_frames [OF none D(1), of b g v1] obtain D' g' v' where
      r: "rx_char K call dev None b (D, g, v1) = Inr (D', g', v')" "wf_rx K D'" "fixed_fields D' = fixed_fields D"
        "rx v' = rx v1" "pending D' = fst (?step b (pending D))" by (auto simp: fpush_def)
    have run: "rx_char K call dev (Some f) b (D, g, v1) = Inr (D', g', v')"
      using rx_char_no_frame [OF D, of call dev "Some f" g v1] r(1) by simp
    have inv: "?P xs (b, D', g', v')" using P r(2-5) v1(2) by (simp add: s fixed_fields_def)
    show "\<exists>s1 s2. (case s of (c, data, g, w) \<Rightarrow> case uart_poll_in U uart w of (r, c', w') \<Rightarrow>
           (r = 0, (if r = 0 then c' else c), data, g, w')) = (True, s1) \<and>
         (case s1 of (c, st) \<Rightarrow> Some (sbind (rx_char K call dev (Some f) c st) (\<lambda>st'. Inr (c, st')))) =
           Some (Inr s2) \<and> ?P xs s2"
      by (rule exI [of _ "(b, D, g, v1)"], rule exI [of _ "(b, D', g', v')"]) (use inv in \<open>simp add: s v1(1) run\<close>)
  next
    fix s
    assume P: "?P [] s"
    obtain x D g v where s: "s = (x, D, g, v)" by (cases s)
    from P have "rx v = c # zs" and D: "wf_rx K D" "snd (?step c (pending D)) \<noteq> []" "user_data D = user_data data"
      by (simp_all add: s)
    from poll [OF this(1)] obtain v1 where v1: "uart_poll_in U uart v = (0, c, v1)" by blast
    have "rx_char K call dev (Some f) c (D, g, v1) = Inl e"
      by (rule rx_char_frame_fault [OF D(1,2)]) (simp only: D(3) bad)
    with s v1 show "\<exists>s1. (case s of (c, data, g, w) \<Rightarrow> case uart_poll_in U uart w of (r, c', w') \<Rightarrow>
           (r = 0, (if r = 0 then c' else c), data, g, w')) = (True, s1) \<and>
         (case s1 of (c, st) \<Rightarrow> Some (sbind (rx_char K call dev (Some f) c st) (\<lambda>st'. Inr (c, st')))) = Some (Inl e)"
      by simp
  qed
  with rdy(1) cb show ?thesis by (simp add: uart_int_handler_def Let_def q)
qed

section \<open>The string in pieces\<close>

text \<open>After \<open>n\<close> stores the first \<open>n\<close> bytes are new and the others old.\<close>

lemma stored_bytes:
  "n \<le> len \<Longrightarrow> len \<le> length string \<Longrightarrow> len < length (str data) \<Longrightarrow>
     in_turn (take n (string_stores string len)) data = data\<lparr>str := take n string @ drop n (str data)\<rparr>"
proof (induction n)
  case 0
  then show ?case by simp
next
  case (Suc n)
  have t: "take (Suc n) (string_stores string len) =
      take n (string_stores string len) @ [\<lambda>data. data\<lparr>str := (str data)[n := string ! n]\<rparr>]"
    using Suc.prems(1) by (simp add: string_stores_def take_Suc_conv_app_nth nth_append)
  have "(take n string @ drop n (str data))[n := string ! n] = take (Suc n) string @ drop (Suc n) (str data)"
    using Suc.prems by (simp add: list_update_append take_Suc_conv_app_nth Cons_nth_drop_Suc [symmetric])
  with Suc show ?case by (simp add: t)
qed

lemma string_stores_all:
  assumes "wf_str K data" and "len \<le> length string" and "len \<le> MAX_STR_LEN K"
  shows "user_set_string K string len data = Inr (in_turn (string_stores string len) data)"
proof -
  have l: "length (str data) = MAX_STR_LEN K + 1" using assms(1) by (simp add: wf_str_def)
  have s: "string_stores string len = take len (string_stores string len) @ [\<lambda>data. data\<lparr>str := (str data)[len := 0]\<rparr>]"
    by (simp add: string_stores_def)
  have "drop len (str data) = str data ! len # drop (Suc len) (str data)"
    using l assms(3) by (simp add: Cons_nth_drop_Suc)
  then have "in_turn (string_stores string len) data = data\<lparr>str := take len string @ 0 # drop (len + 1) (str data)\<rparr>"
    using l assms(2,3) by (subst s) (simp add: stored_bytes list_update_append)
  with user_set_string_ok [OF assms] show ?thesis by simp
qed

section \<open>Properties\<close>

text \<open>C6. A race of the registration: of the moments at which the UART interrupt can come while the
  client's callback is being registered, one is fatal: with a frame to deliver, between the two
  stores, the callback is called without its object and follows a null pointer. Before the first
  store the frames are dropped, after the second they are counted.\<close>

theorem set_callback_interrupted:
  fixes rx :: "'w \<Rightarrow> u8 list"
  assumes U: "poll_uart_contract U uart rx (\<lambda>w. ())" and P: "printk_contract Z rx"
    and wf: "wf_rx K data" and fresh: "string_callback data = None" "user_data data = None"
    and fs: "fs = frames (string_step (RX_BUF_SIZE K)) (rx w) (pending data)" "fs \<noteq> []"
    and r: "r = interrupted (callback_stores (Some Peripheral_callback) (Some Tracker)) n
      (uart_int_handler K U (client_call Z) uart dev) (data, c, w)"
  shows "if n = 1 then r = Some (Inl OOB_read)
     else \<exists>data' w'. r = Some (Inr (data', if n = 0 then c else fold (\<lambda>e. count_frame (snd e)) fs c, w')) \<and>
       wf_rx K data' \<and> string_callback data' = Some Peripheral_callback \<and> user_data data' = Some Tracker"
proof -
  let ?K = "RX_BUF_SIZE K" and ?call = "client_call Z"
  let ?cb = "Some Peripheral_callback" and ?ud = "Some Tracker"
  let ?isr = "uart_int_handler K U ?call uart dev"
  have U': "poll_uart_contract U uart rx (\<lambda>w (c :: counter). fst (c, w))"
    using poll_uart_contract_image [OF U, where f = "\<lambda>_ c. c"] by simp
  have bad: "?call Peripheral_callback dev buf len b None st = Inl OOB_read"
    if "0 < len" "len \<le> length buf" "b \<longrightarrow> buf ! (len - 1) = 0" for buf len b st
    using that by (cases st) (simp add: client_call_def peripheral_callback_def cstr_def mem_get_ok)
  consider "n = 0" | "n = 1" | m where "n = Suc (Suc m)" by (metis One_nat_def not0_implies_Suc)
  then show ?thesis
  proof cases
    case 1
    have "callback_contract ?call dev (string_callback data) (user_data data) rx fst (\<lambda>e a. a)"
      by (simp add: fresh callback_contract_def)
    from uart_int_handler_run [OF U' this wf, of c w] obtain data' c' w' where
      "?isr (data, c, w) = Some (Inr (data', c', w'))" "wf_rx K data'" "c' = c" by auto
    with 1 r show ?thesis
      by (simp add: interrupted_def callback_stores_all callback_keeps)
  next
    case 2
    let ?d = "data\<lparr>string_callback := ?cb\<rparr>"
    have "?isr (?d, c, w) = Some (Inl OOB_read)"
      by (rule uart_int_handler_fault [OF U, where f = Peripheral_callback])
        (use wf fs fresh bad in \<open>simp_all add: wf_rx_def pending_def\<close>)
    then show ?thesis using 2 r by (simp add: interrupted_def callback_stores_def)
  next
    case 3
    let ?d = "user_set_string_callback ?cb ?ud data"
    have "callback_contract ?call dev (string_callback ?d) (user_data ?d) rx fst (\<lambda>e. count_frame (snd e))"
      unfolding callback_keeps by (rule peripheral_callback_contract [OF P])
    from uart_int_handler_run [OF U' this, of K c w] wf fs(1) obtain data' c' w' where
      "?isr (?d, c, w) = Some (Inr (data', c', w'))" "wf_rx K data'" "fixed_fields data' = fixed_fields ?d"
      "c' = fold (\<lambda>e. count_frame (snd e)) fs c" by (auto simp: callback_keeps)
    with 3 r show ?thesis
      using callback_stores_all [of ?cb ?ud data] by (simp add: interrupted_def callback_stores_def fixed_fields_def callback_keeps)
  qed
qed

text \<open>C25. A string that is being replaced can go out torn: a press of the button in the middle of setting
  it sends the bytes stored so far, followed by the rest of the old string. It never reads past the
  array, whose last byte is never anything but a NUL, and the string is set as if nothing had come.\<close>

theorem set_string_interrupted:
  fixes data :: "('cb, 'ud) my_uart_data"
  assumes tx: "poll_out_contract U (uart_dev conf) tx" and wf: "wf_str K data" "str data ! MAX_STR_LEN K = 0"
    and s: "0 \<notin> set s" "length s \<le> MAX_STR_LEN K" and n: "n \<le> length s + 1"
  shows "\<exists>data' w'. interrupted (string_stores s (length s)) n
       (\<lambda>(data, g, w). Some (sbind (transmit_string U conf data w) (\<lambda>w1. Inr (data, g, w1)))) (data, g, w) = Some (Inr (data', g, w')) \<and>
     tx w' = tx w @ (if n = length s + 1 then s else take n s @ takeWhile (\<lambda>c. c \<noteq> 0) (drop n (str data))) @ [0] \<and>
     user_set_string K s (length s) data = Inr data' \<and> wf_str K data' \<and> str data' ! MAX_STR_LEN K = 0"
proof -
  let ?fs = "string_stores s (length s) :: (('cb, 'ud) my_uart_data \<Rightarrow> ('cb, 'ud) my_uart_data) list"
  let ?d = "in_turn (take n ?fs) data"
  have l: "length (str data) = MAX_STR_LEN K + 1" using wf(1) by (simp add: wf_str_def)
  have all: "user_set_string K s (length s) data = Inr (in_turn ?fs data)" by (rule string_stores_all [OF wf(1) _ s(2)]) simp
  with user_set_string_ok [OF wf(1) _ s(2), of s] have d': "in_turn ?fs data = data\<lparr>str := s @ 0 # drop (length s + 1) (str data)\<rparr>" by simp
  have "in_turn (drop n ?fs) ?d = in_turn ?fs data" by (metis append_take_drop_id in_turn_simps(3))
  moreover have "\<exists>w'. transmit_string U conf ?d w = Inr w' \<and>
      tx w' = tx w @ (if n = length s + 1 then s else take n s @ takeWhile (\<lambda>c. c \<noteq> 0) (drop n (str data))) @ [0]"
  proof (cases "n = length s + 1")
    case True
    then have "?d = in_turn ?fs data" by (simp add: string_stores_def)
    then show ?thesis using transmit_string_sends [OF tx, of ?d s "drop (length s + 1) (str data)" w] s(1) True by (simp add: d')
  next
    case False
    with n have le: "n \<le> length s" by simp
    then have d: "?d = data\<lparr>str := take n s @ drop n (str data)\<rparr>" using l s(2) by (intro stored_bytes) simp_all
    have "drop n (str data) ! (MAX_STR_LEN K - n) = 0" using wf(2) l le s(2) by simp
    moreover have "MAX_STR_LEN K - n < length (drop n (str data))" using l le s(2) by simp
    ultimately have "0 \<in> set (drop n (str data))" by (metis nth_mem)
    then obtain t where t: "drop n (str data) = takeWhile (\<lambda>c. c \<noteq> 0) (drop n (str data)) @ 0 # t"
      using until_zero by blast
    have z: "0 \<notin> set (take n s @ takeWhile (\<lambda>c. c \<noteq> 0) (drop n (str data)))"
      using s(1) by (auto dest: in_set_takeD set_takeWhileD)
    have "str ?d = (take n s @ takeWhile (\<lambda>c. c \<noteq> 0) (drop n (str data))) @ 0 # t" unfolding d using t by simp
    from transmit_string_sends [OF tx this z, of w] False show ?thesis by simp
  qed
  moreover have "wf_str K (in_turn ?fs data) \<and> str (in_turn ?fs data) ! MAX_STR_LEN K = 0"
    unfolding d' using l s(2) wf(2) by (auto simp: wf_str_def nth_append nth_Cons' )
  ultimately show ?thesis using all by (auto simp: interrupted_def)
qed

section \<open>Runs of the properties\<close>

theorem set_callback_interrupted_witness:
  "interrupted (callback_stores (Some Peripheral_callback) (Some Tracker)) 1
     (uart_int_handler K64 board_uart (client_call board_kernel) 2 1)
     (my_uart_data_init K64 [], tracker0, board_rx 2 [72, 105, 0]) = Some (Inl OOB_read) \<and>
   (\<exists>data' w'. interrupted (callback_stores (Some Peripheral_callback) (Some Tracker)) 2
     (uart_int_handler K64 board_uart (client_call board_kernel) 2 1)
     (my_uart_data_init K64 [], tracker0, board_rx 2 [72, 105, 0]) = Some (Inr (data', \<lparr>strings = 1, overflows = 0\<rparr>, w')))"
proof -
  let ?D = "my_uart_data_init K64 [] :: (client_fn, client_obj) my_uart_data"
  have U: "poll_uart_contract board_uart 2 (\<lambda>w. rxq w 2) (\<lambda>w. ())" by (rule board_poll_uart) (simp add: rxq_blind_def)
  have P: "printk_contract board_kernel (\<lambda>w. rxq w 2)" by (rule board_printk) simp
  have D: "wf_rx K64 ?D" "string_callback ?D = None" "user_data ?D = None"
    by (simp_all add: wf_rx_init K64_def) (simp_all add: my_uart_data_init_def)
  have "pending ?D = []" by (simp add: pending_def my_uart_data_init_def)
  then have f: "frames (string_step (RX_BUF_SIZE K64)) (rxq (board_rx 2 [72, 105, 0]) 2) (pending ?D) = [([72, 105, 0], True)]"
    by (simp add: board_rx_def string_step_def K64_def)
  then have ne: "frames (string_step (RX_BUF_SIZE K64)) (rxq (board_rx 2 [72, 105, 0]) 2) (pending ?D) \<noteq> []" by simp
  note run = set_callback_interrupted [OF U P D refl ne refl, of _ 1 tracker0]
  from run [of 1] run [of 2] f show ?thesis by (auto simp: count_frame_def tracker0_def)
qed

theorem set_string_interrupted_witness:
  "\<exists>data' w'. interrupted (string_stores (ascii ''AB'') 2) 2
       (\<lambda>(data, g, w). Some (sbind (transmit_string board_uart \<lparr>uart_dev = 2, gpio_spec = \<lparr>port = 0, pin = 23\<rparr>\<rparr> data w)
          (\<lambda>w1. Inr (data, g, w1)))) (my_uart_data_init K64 (ascii ''Hello'') :: (unit, unit) my_uart_data, (), board0) = Some (Inr (data', (), w')) \<and>
     txq w' 2 = ascii ''ABllo'' @ [0]"
proof -
  let ?D = "my_uart_data_init K64 (ascii ''Hello'') :: (unit, unit) my_uart_data"
  let ?C = "\<lparr>uart_dev = 2, gpio_spec = \<lparr>port = 0, pin = 23\<rparr>\<rparr>"
  have U: "poll_out_contract board_uart (uart_dev ?C) (\<lambda>w. txq w 2)" using board_poll_out [of 2] by simp
  have D: "wf_str K64 ?D" "str ?D ! MAX_STR_LEN K64 = 0"
    by (simp_all add: wf_str_init K64_def ascii_def) (simp_all add: my_uart_data_init_def)
  have s: "0 \<notin> set (ascii ''AB'')" "length (ascii ''AB'') \<le> MAX_STR_LEN K64" "2 \<le> length (ascii ''AB'') + 1"
    by (simp_all add: K64_def ascii_def)
  have n: "length (ascii ''AB'') = 2" by simp
  have old: "ascii ''AB'' @ takeWhile (\<lambda>c. c \<noteq> 0) (drop 2 (str ?D)) @ [0] = ascii ''ABllo'' @ [0]" "txq board0 2 = []"
    by (simp_all add: my_uart_data_init_def K64_def ascii_def board0_def)
  from set_string_interrupted [OF U D s, of "()" board0] show ?thesis unfolding n by (auto simp: old)
qed

end
