(* ===== verification/My_Uart_B_Progress.thy ===== *)
theory My_Uart_B_Progress
  imports Main_My_Uart_Peripheral_B
begin

text \<open>
  No lost wake-up in driver B: a message never waits in the queue with the guard down and the
  transmit interrupt off. And what the program's client makes of an acknowledgement: it is a line
  like any other, and is sent back.
\<close>

section \<open>One call\<close>

text \<open>What a call of \<open>my_uart_send_data\<close> that returns has done, whatever its length.\<close>

lemma user_send_data_inr:
  assumes R: "item_put_contract R items" and W: "TX_BUF_WORDS K < 255" and junk: "length junk = 4 * TX_BUF_WORDS K"
    and run: "user_send_data K R U conf junk data len (d, w) = Inr (d', w')"
  shows "\<exists>rb. d' = d\<lparr>tx_rb := rb\<rparr> \<and>
     (w' = w \<and> items rb = items (tx_rb d) \<or>
      w' = uart_irq_tx_enable U (b_uart_dev conf) w \<and>
      (\<exists>i. items rb = items (tx_rb d) @ [i] \<and> item_ok (TX_BUF_WORDS K) i \<and> item_msg i = reply (take len data)))"
proof -
  have W': "TX_BUF_WORDS K < 256" using W by simp
  from run obtain x where "build_user_send_data junk (TX_BUF_WORDS K * 4) data len = Inr x"
    by (auto simp: user_send_data_def sbind_eq_Inr)
  then have "len \<le> length data" and "len + 5 \<le> 4 * TX_BUF_WORDS K"
    using junk by (auto simp: build_user_send_data_def memcpy_def mem_put_def mem_get_def sbind_eq_Inr split: if_splits)
  then consider "len \<le> length data" "len + 6 \<le> 4 * TX_BUF_WORDS K" | "len \<le> length data" "len + 5 = 4 * TX_BUF_WORDS K"
    by linarith
  then show ?thesis
  proof cases
    case 1
    from user_send_data_ok [OF R W' junk this, of U conf d w] run show ?thesis by (auto simp: reply_def)
  next
    case 2
    from user_send_data_edge [OF W junk 2, of R d U conf w] obtain ret rb v p n where
      put: "ring_buf_item_put R 0 v p n (tx_rb d) = (ret, rb)" and
      "user_send_data K R U conf junk data len (d, w) = (if ret = - EMSGSIZE then Inr (d\<lparr>tx_rb := rb\<rparr>, w) else Inl OOB_read)" by blast
    with run have r: "ret = - EMSGSIZE" "d' = d\<lparr>tx_rb := rb\<rparr>" "w' = w" by (simp_all split: if_splits)
    from R put r(1) have "items rb = items (tx_rb d)"
      unfolding item_put_contract_def by (metis fst_conv snd_conv EMSGSIZE_def neg_equal_0_iff_equal zero_neq_numeral)
    with r show ?thesis by blast
  qed
qed

section \<open>The queue is awake\<close>

text \<open>
  Nothing waits with the guard down and the interrupt off, nor with the guard up and the timer
  stopped. For this the interrupt, once enabled, has to stay pending until it is disabled or the
  FIFO is filled, and the timer, once started, has to run until it expires: \<open>armed w\<close> is that the
  kernel has the timer of the guard running in the world \<open>w\<close>.
\<close>

definition awake ::
    "('rb \<Rightarrow> ring_item list) \<Rightarrow> ('w \<Rightarrow> bool) \<Rightarrow> ('w \<Rightarrow> bool) \<Rightarrow> nat \<Rightarrow> ('cb, 'rb) my_uart_b_data \<Rightarrow> 'w \<Rightarrow> bool" where
  "awake items txr armed words d w \<longleftrightarrow>
     list_all (item_ok words) (items (tx_rb d)) \<and> (\<not> sending_guard d \<and> items (tx_rb d) \<noteq> [] \<longrightarrow> txr w) \<and>
     (sending_guard d \<longrightarrow> armed w)"

definition b_eager_contract :: "'w uart_api \<Rightarrow> 'w kernel_api \<Rightarrow> dev \<Rightarrow> ('w \<Rightarrow> bool) \<Rightarrow> bool" where
  [contract_defs]: "b_eager_contract U Z d txr \<longleftrightarrow>
     (\<forall>w. txr (uart_irq_tx_enable U d w)) \<and> (\<forall>n w. txr w \<longrightarrow> txr (snd (snd (uart_fifo_read U d n w)))) \<and>
     (\<forall>bs w. txr w \<longrightarrow> txr (printk Z bs w))"

text \<open>
  The documented timer: \<open>k_timer_start\<close> starts it, with a period of 0 for one expiry, and nothing
  the handler does stops it. \<open>expire\<close> is what the kernel does at the expiry before it calls the
  expiry function: the timer then has stopped.
\<close>

definition guard_timer_contract :: "'w uart_api \<Rightarrow> 'w kernel_api \<Rightarrow> dev \<Rightarrow> dev \<Rightarrow> ('w \<Rightarrow> bool) \<Rightarrow> bool" where
  [contract_defs]: "guard_timer_contract U Z d own armed \<longleftrightarrow>
     (\<forall>ms w. armed (k_timer_start Z (Sending_guard_timer own) ms 0 w)) \<and>
     (\<forall>w. armed w \<longrightarrow> armed (snd (uart_irq_update U d w)) \<and> armed (snd (uart_irq_is_pending U d w)) \<and>
        armed (snd (uart_irq_rx_ready U d w)) \<and> armed (snd (uart_irq_tx_ready U d w)) \<and>
        armed (uart_irq_tx_enable U d w) \<and> armed (uart_irq_tx_disable U d w)) \<and>
     (\<forall>n w. armed w \<longrightarrow> armed (snd (snd (uart_fifo_read U d n w)))) \<and>
     (\<forall>bs w. armed w \<longrightarrow> armed (printk Z bs w))"

lemma guard_timer_keeps:
  assumes "guard_timer_contract U Z d own armed"
  shows "armed (k_timer_start Z (Sending_guard_timer own) ms 0 w)"
    "armed w \<Longrightarrow> armed (snd (uart_irq_update U d w))" "armed w \<Longrightarrow> armed (snd (uart_irq_is_pending U d w))"
    "armed w \<Longrightarrow> armed (snd (uart_irq_rx_ready U d w))" "armed w \<Longrightarrow> armed (snd (uart_irq_tx_ready U d w))"
    "armed w \<Longrightarrow> armed (uart_irq_tx_enable U d w)" "armed w \<Longrightarrow> armed (uart_irq_tx_disable U d w)"
    "armed w \<Longrightarrow> armed (snd (snd (uart_fifo_read U d n w)))" "armed w \<Longrightarrow> armed (printk Z bs w)"
  using assms unfolding guard_timer_contract_def by blast+

definition expiry_contract ::
    "('w \<Rightarrow> bool) \<Rightarrow> ('w \<Rightarrow> 'w) \<Rightarrow> ('w \<Rightarrow> u8 list) \<Rightarrow> ('w \<Rightarrow> u8 list list) \<Rightarrow> bool" where
  [contract_defs]: "expiry_contract armed expire rx sent \<longleftrightarrow>
     (\<forall>w. \<not> armed (expire w)) \<and> keeps expire (\<lambda>w. (rx w, sent w))"

definition callback_awake ::
    "('cb, 'rb, 'g, 'w) my_uart_b_call \<Rightarrow> dev \<Rightarrow> 'cb option \<Rightarrow> ('rb \<Rightarrow> ring_item list) \<Rightarrow> ('w \<Rightarrow> bool) \<Rightarrow> ('w \<Rightarrow> bool) \<Rightarrow>
     nat \<Rightarrow> bool" where
  [contract_defs]: "callback_awake call dev cb items txr armed words \<longleftrightarrow>
     (case cb of None \<Rightarrow> True
      | Some f \<Rightarrow> \<forall>buf len d g w d' g' w'. call f dev buf len (d, g, w) = Inr (d', g', w') \<and> awake items txr armed words d w \<longrightarrow>
          awake items txr armed words d' w' \<and> callback d' = callback d)"

lemma awake_cong:
  "tx_rb d' = tx_rb d \<Longrightarrow> sending_guard d' = sending_guard d \<Longrightarrow> (txr w \<Longrightarrow> txr w') \<Longrightarrow>
     (armed w \<Longrightarrow> armed w') \<Longrightarrow> awake items txr armed words d w \<Longrightarrow> awake items txr armed words d' w'"
  by (auto simp: awake_def)

lemma end_of_line_awake:
  assumes E: "b_eager_contract U Z (b_uart_dev conf) txr" and T: "guard_timer_contract U Z (b_uart_dev conf) dev armed" and C: "callback_awake call dev (callback d) items txr armed words"
    and run: "end_of_line K U call conf dev (callback d) (d, g, w) = Inr (d', g', w')" and st: "awake items txr armed words d w"
  shows "awake items txr armed words d' w' \<and> callback d' = callback d"
proof -
  from run obtain ok where "check_sending_guard (b_rx_buf d) (b_rx_data_len d) = Inr ok"
    by (auto simp: end_of_line_def sbind_eq_Inr)
  moreover define d1 where "d1 = (if ok then d\<lparr>sending_guard := False\<rparr> else d)"
  moreover define w1 where "w1 = (if ok then uart_irq_tx_enable U (b_uart_dev conf) w else w)"
  ultimately obtain d2 g2 w2 where c: "(case callback d of None \<Rightarrow> Inr (d1, g, w1)
      | Some f \<Rightarrow> call f dev (b_rx_buf d1) (b_rx_data_len d1) (d1, g, w1)) = Inr (d2, g2, w2)"
    and e: "d' = clear_rx K d2" "w' = w2"
    using run by (auto simp: end_of_line_def sbind_eq_Inr Let_def)
  have "awake items txr armed words d1 w1"
    using st E by (auto simp: d1_def w1_def awake_def b_eager_contract_def guard_timer_contract_def)
  moreover have "callback d1 = callback d" by (simp add: d1_def)
  ultimately have "awake items txr armed words d2 w2 \<and> callback d2 = callback d"
    using c C by (cases "callback d") (auto simp: callback_awake_def)
  then show ?thesis unfolding e by (auto intro: awake_cong [of _ d2 _ w2])
qed

lemma rx_char_b_awake:
  assumes E: "b_eager_contract U Z (b_uart_dev conf) txr" and T: "guard_timer_contract U Z (b_uart_dev conf) dev armed" and C: "callback_awake call dev (callback d) items txr armed words"
    and run: "rx_char_b K U call conf dev c (d, g, w) = Inr (d', g', w')" and st: "awake items txr armed words d w"
  shows "awake items txr armed words d' w' \<and> callback d' = callback d"
proof -
  from run obtain buf where buf: "store (b_rx_data_len d) c (b_rx_buf d) = Inr buf"
    by (auto simp: rx_char_b_def sbind_eq_Inr)
  define d1 where "d1 = d\<lparr>b_rx_buf := buf, b_rx_data_len := b_rx_data_len d + 1\<rparr>"
  have sel: "callback d1 = callback d" "tx_rb d1 = tx_rb d" "sending_guard d1 = sending_guard d" by (simp_all add: d1_def)
  then have st1: "awake items txr armed words d1 w" using st by (auto intro: awake_cong [of _ d _ w])
  have C1: "callback_awake call dev (callback d1) items txr armed words" using C sel by simp
  show ?thesis
  proof (cases "c = LF \<or> c = CR")
    case True
    with run buf have "end_of_line K U call conf dev (callback d1) (d1, g, w) = Inr (d', g', w')"
      by (simp add: rx_char_b_def d1_def Let_def)
    from end_of_line_awake [OF E T C1 this st1] sel show ?thesis by simp
  next
    case False
    with run buf have "(d' = d1 \<or> d' = clear_rx K d1) \<and> w' = w"
      by (auto simp: rx_char_b_def d1_def Let_def split: if_splits)
    with st1 sel show ?thesis by (auto intro: awake_cong [of _ d1 _ w])
  qed
qed

text \<open>The operations of the UART that only ask leave the interrupt pending.\<close>

lemma b_uart_keeps_txr:
  assumes "b_uart_contract U d rx txr sent"
  shows "txr (snd (uart_irq_update U d w)) = txr w" "txr (snd (uart_irq_rx_ready U d w)) = txr w"
    "txr (snd (uart_irq_is_pending U d w)) = txr w" "txr (snd (uart_irq_tx_ready U d w)) = txr w"
    "fst (uart_irq_tx_ready U d w) \<noteq> 0 \<longleftrightarrow> txr w" "fst (uart_irq_update U d w) \<noteq> 0"
    "fst (uart_irq_is_pending U d w) \<noteq> 0 \<longleftrightarrow> rx w \<noteq> [] \<or> txr w"
  using assms unfolding b_uart_contract_def keeps_def by simp_all

lemma rx_loop_b_awake:
  assumes U: "b_uart_contract U (b_uart_dev conf) rx txr sent" and E: "b_eager_contract U Z (b_uart_dev conf) txr" and T: "guard_timer_contract U Z (b_uart_dev conf) dev armed"
    and C: "callback_awake call dev cb items txr armed words"
    and run: "rx_loop_b K U call conf (b_uart_dev conf) dev (d, g, w) = Some (Inr (d', g', w'))"
    and st: "awake items txr armed words d w" "callback d = cb"
  shows "awake items txr armed words d' w' \<and> callback d' = cb"
proof -
  let ?P = "\<lambda>(d, g, w). awake items txr armed words d w \<and> callback d = cb"
  have "?P (d', g', w')"
  proof (rule whileM_invariant [OF run [unfolded rx_loop_b_def], where P = ?P])
    show "?P (d, g, w)" using st by simp
  next
    fix s s1 s2
    assume P: "?P s"
      and g: "(case s of (d, g, w) \<Rightarrow> case uart_irq_rx_ready U (b_uart_dev conf) w of (r, w1) \<Rightarrow> (r \<noteq> 0, d, g, w1)) = (True, s1)"
      and b: "(case s1 of (d, g, w) \<Rightarrow> case uart_fifo_read U (b_uart_dev conf) 1 w of (n, bs, w1) \<Rightarrow>
        Some (case bs of [] \<Rightarrow> Inl Uninit_read | c # x \<Rightarrow> rx_char_b K U call conf dev c (d, g, w1))) = Some (Inr s2)"
    obtain d1 g1 w1 where s: "s = (d1, g1, w1)" by (cases s)
    let ?w2 = "snd (uart_irq_rx_ready U (b_uart_dev conf) w1)"
    obtain n bs w3 where f: "uart_fifo_read U (b_uart_dev conf) 1 ?w2 = (n, bs, w3)"
      by (cases "uart_fifo_read U (b_uart_dev conf) 1 ?w2")
    with b g s obtain c cs where c: "rx_char_b K U call conf dev c (d1, g1, w3) = Inr s2"
      by (auto split: prod.splits list.splits)
    have "txr ?w2 \<longrightarrow> txr w3" using E f unfolding b_eager_contract_def by (metis snd_conv)
    then have t: "txr w1 \<Longrightarrow> txr w3" using b_uart_keeps_txr(2) [OF U, of w1] by simp
    have a: "armed w1 \<Longrightarrow> armed w3" using guard_timer_keeps(4) [OF T, of w1] guard_timer_keeps(8) [OF T, of ?w2 1] f by simp
    have "awake items txr armed words d1 w1" using P s by simp
    with t a have "awake items txr armed words d1 w3" by (rule awake_cong [OF refl refl])
    moreover obtain d2 g2 w4 where s2: "s2 = (d2, g2, w4)" by (cases s2)
    moreover have "callback_awake call dev (callback d1) items txr armed words" using C P s by simp
    ultimately show "?P s2" using rx_char_b_awake [OF E T, of call d1 items words K c g1 w3 d2 g2 w4] c P s by auto
  next
    fix s s1
    assume P: "?P s"
      and g: "(case s of (d, g, w) \<Rightarrow> case uart_irq_rx_ready U (b_uart_dev conf) w of (r, w1) \<Rightarrow> (r \<noteq> 0, d, g, w1)) = (False, s1)"
    obtain d1 g1 w1 where s: "s = (d1, g1, w1)" by (cases s)
    have "s1 = (d1, g1, snd (uart_irq_rx_ready U (b_uart_dev conf) w1))" using g s by (auto split: prod.splits)
    then show "?P s1" using P s b_uart_keeps_txr(2) [OF U, of w1] guard_timer_keeps(4) [OF T, of w1] by (auto simp: awake_def)
  qed
  then show ?thesis by simp
qed

lemma tx_part_awake:
  assumes T: "guard_timer_contract U Z uart dev armed" and R: "item_get_contract R items" and W: "TX_BUF_WORDS K < 256"
    and run: "tx_part K Z R U uart dev (d, w) = Inr (d', w')" and st: "awake items txr armed (TX_BUF_WORDS K) d w"
  shows "awake items txr armed (TX_BUF_WORDS K) d' w' \<and> callback d' = callback d"
proof (cases "sending_guard d")
  case True
  with run st guard_timer_keeps(7) [OF T, of w] show ?thesis by (auto simp: tx_part_def awake_def)
next
  case idle: False
  let ?m = "word_of_nat (TX_BUF_WORDS K) :: u8"
  obtain ret t v p n rb where g: "ring_buf_item_get R ?m (tx_rb d) = (ret, t, v, p, n, rb)"
    by (cases "ring_buf_item_get R ?m (tx_rb d)")
  show ?thesis
  proof (cases "items (tx_rb d)")
    case Nil
    with R obtain t' v' p' n' rb' where "ring_buf_item_get R ?m (tx_rb d) = (- EAGAIN, t', v', p', n', rb')" "items rb' = []"
      unfolding item_get_contract_def by meson
    with run idle show ?thesis by (auto simp: tx_part_def awake_def EAGAIN_def EMSGSIZE_def Let_def)
  next
    case (Cons i rest)
    obtain ti vi pi ni where i: "i = (ti, vi, pi, ni)" by (cases i)
    from st Cons i have ok: "unat ni \<le> TX_BUF_WORDS K" "list_all (item_ok (TX_BUF_WORDS K)) rest"
      by (simp_all add: awake_def)
    then have "ni \<le> ?m" using W by (simp add: word_le_nat_alt unat_of_nat take_bit_eq_mod)
    with R Cons i obtain rb' where "ring_buf_item_get R ?m (tx_rb d) = (0, ti, vi, pi, ni, rb')" "items rb' = rest"
      unfolding item_get_contract_def by meson
    with run idle ok guard_timer_keeps(1) [OF T] show ?thesis
      by (auto simp: tx_part_def awake_def EAGAIN_def EMSGSIZE_def Let_def sbind_eq_Inr)
  qed
qed

lemma irq_pass_awake:
  assumes U: "b_uart_contract U (b_uart_dev conf) rx txr sent" and E: "b_eager_contract U Z (b_uart_dev conf) txr" and T: "guard_timer_contract U Z (b_uart_dev conf) dev armed"
    and R: "item_get_contract R items" and W: "TX_BUF_WORDS K < 256"
    and C: "callback_awake call dev cb items txr armed (TX_BUF_WORDS K)"
    and run: "irq_pass K Z R U call conf (b_uart_dev conf) dev (d, g, w) = Some (Inr (d', g', w'))"
    and st: "awake items txr armed (TX_BUF_WORDS K) d w" "callback d = cb"
  shows "awake items txr armed (TX_BUF_WORDS K) d' w' \<and> callback d' = cb"
proof -
  from run obtain d1 g1 w1 where l: "rx_loop_b K U call conf (b_uart_dev conf) dev (d, g, w) = Some (Inr (d1, g1, w1))"
    by (auto simp: irq_pass_def obind_eq_Inr)
  from rx_loop_b_awake [OF U E T C l st] have 1: "awake items txr armed (TX_BUF_WORDS K) d1 w1" "callback d1 = cb" by simp_all
  obtain r w2 where q: "uart_irq_tx_ready U (b_uart_dev conf) w1 = (r, w2)" by (cases "uart_irq_tx_ready U (b_uart_dev conf) w1")
  have 2: "awake items txr armed (TX_BUF_WORDS K) d1 w2" using 1(1) b_uart_keeps_txr(4) [OF U, of w1] guard_timer_keeps(5) [OF T, of w1] q by (auto simp: awake_def)
  show ?thesis
  proof (cases "r = 0")
    case True
    with run l q 1 2 show ?thesis by (simp add: irq_pass_def)
  next
    case False
    with run l q have "tx_part K Z R U (b_uart_dev conf) dev (d1, w2) = Inr (d', w')"
      by (auto simp: irq_pass_def sbind_eq_Inr)
    from tx_part_awake [OF T R W this 2] 1(2) show ?thesis by simp
  qed
qed

lemma uart_b_int_handler_awake:
  fixes call :: "('cb, 'rb, 'g, 'w) my_uart_b_call"
  assumes U: "b_uart_contract U (b_uart_dev conf) rx txr sent" and E: "b_eager_contract U Z (b_uart_dev conf) txr" and T: "guard_timer_contract U Z (b_uart_dev conf) dev armed"
    and R: "item_get_contract R items" and W: "TX_BUF_WORDS K < 256"
    and C: "callback_awake call dev (callback d) items txr armed (TX_BUF_WORDS K)"
    and run: "uart_b_int_handler K Z R U call conf (b_uart_dev conf) dev (d, g, w) = Some (Inr (d', g', w'))"
    and st: "awake items txr armed (TX_BUF_WORDS K) d w"
  shows "awake items txr armed (TX_BUF_WORDS K) d' w' \<and> callback d' = callback d \<and>
     (sending_guard d' \<or> items (tx_rb d') = [])"
proof -
  let ?cb = "callback d"
  let ?P = "\<lambda>(d, g :: 'g, w). awake items txr armed (TX_BUF_WORDS K) d w \<and> callback d = ?cb"
  let ?Q = "\<lambda>(d, g :: 'g, w). awake items txr armed (TX_BUF_WORDS K) d w \<and> callback d = ?cb \<and> \<not> txr w"
  have guard: "snd (irq_guard U (b_uart_dev conf) (d, g, w)) = (d, g, snd (uart_irq_is_pending U (b_uart_dev conf) (snd (uart_irq_update U (b_uart_dev conf) w)))) \<and>
      (fst (irq_guard U (b_uart_dev conf) (d, g, w)) \<longleftrightarrow> rx (snd (uart_irq_update U (b_uart_dev conf) w)) \<noteq> [] \<or> txr w)"
    for d :: "('cb, 'rb) my_uart_b_data" and g :: 'g and w
    using b_uart_keeps_txr [OF U] by (simp add: irq_guard_def split: prod.splits) (metis fst_conv snd_conv)
  have "?Q (d', g', w')"
  proof (rule whileM_invariant [OF run [unfolded uart_b_int_handler_def], where P = ?P])
    show "?P (d, g, w)" using st by simp
  next
    fix s s1 s2
    assume P: "?P s" and go: "irq_guard U (b_uart_dev conf) s = (True, s1)"
      and b: "irq_pass K Z R U call conf (b_uart_dev conf) dev s1 = Some (Inr s2)"
    obtain d1 g1 w1 where s: "s = (d1, g1, w1)" by (cases s)
    obtain d2 g2 w2 where s2: "s2 = (d2, g2, w2)" by (cases s2)
    obtain w3 where s1: "s1 = (d1, g1, w3)" "txr w3 = txr w1" "armed w1 \<longrightarrow> armed w3"
      using guard [of d1 g1 w1] go s b_uart_keeps_txr [OF U] guard_timer_keeps(2,3) [OF T] by auto
    have st3: "awake items txr armed (TX_BUF_WORDS K) d1 w3" using P s s1(2,3) by (auto simp: awake_def)
    from irq_pass_awake [OF U E T R W C b [unfolded s1(1) s2] st3] P s s2 show "?P s2" by simp
  next
    fix s s1
    assume P: "?P s" and stop: "irq_guard U (b_uart_dev conf) s = (False, s1)"
    obtain d1 g1 w1 where s: "s = (d1, g1, w1)" by (cases s)
    show "?Q s1"
      using guard [of d1 g1 w1] stop s P b_uart_keeps_txr [OF U] guard_timer_keeps(2,3) [OF T] by (auto simp: awake_def)
  qed
  then show ?thesis by (auto simp: awake_def)
qed

section \<open>Sequences of events\<close>

text \<open>
  The steps of the driver with its timer: the guard's timer can expire only while it runs, and what
  happens elsewhere neither takes back a pending transmit interrupt nor touches the timer. How
  long the timer runs is left open: it may expire at any moment between its start and the next.
\<close>

inductive timed_step ::
    "my_uart_b_kconfig \<Rightarrow> 'w kernel_api \<Rightarrow> 'rb ring_item_api \<Rightarrow> 'w uart_api \<Rightarrow>
     ('cb, 'rb, 'g, 'w) my_uart_b_call \<Rightarrow> my_uart_b_conf \<Rightarrow> dev \<Rightarrow> ('w \<Rightarrow> u8 list) \<Rightarrow> ('w \<Rightarrow> u8 list list) \<Rightarrow>
     ('w \<Rightarrow> bool) \<Rightarrow> ('w \<Rightarrow> bool) \<Rightarrow> ('w \<Rightarrow> 'w) \<Rightarrow>
     ('cb, 'rb, 'g, 'w) my_uart_b_state \<Rightarrow> b_event \<Rightarrow> ('cb, 'rb, 'g, 'w) my_uart_b_state \<Rightarrow> bool"
  for K Z R U call conf dev rx sent txr armed expire where
  running: "b_step K Z R U call conf dev rx sent s e s' \<Longrightarrow> e \<noteq> Timeout \<Longrightarrow> e \<noteq> Elsewhere \<Longrightarrow>
     timed_step K Z R U call conf dev rx sent txr armed expire s e s'"
| expiry: "armed w \<Longrightarrow> b_step K Z R U call conf dev rx sent (d, g, expire w) Timeout s' \<Longrightarrow>
     timed_step K Z R U call conf dev rx sent txr armed expire (d, g, w) Timeout s'"
| outside: "b_step K Z R U call conf dev rx sent (d, g, w) Elsewhere (d, g, w') \<Longrightarrow> (txr w \<longrightarrow> txr w') \<Longrightarrow>
     armed w' = armed w \<Longrightarrow>
     timed_step K Z R U call conf dev rx sent txr armed expire (d, g, w) Elsewhere (d, g, w')"

fun is_interrupt :: "b_event \<Rightarrow> bool" where
  "is_interrupt (Interrupt lns) = True"
| "is_interrupt e = False"

lemma send_awake:
  assumes E: "b_eager_contract U Z (b_uart_dev conf) txr" and T: "guard_timer_contract U Z (b_uart_dev conf) dev armed" and R: "item_put_contract R items" and W: "TX_BUF_WORDS K < 255"
    and junk: "length junk = 4 * TX_BUF_WORDS K" and run: "user_send_data K R U conf junk data len (d, w) = Inr (d', w')"
    and st: "awake items txr armed (TX_BUF_WORDS K) d w"
  shows "awake items txr armed (TX_BUF_WORDS K) d' w' \<and> callback d' = callback d"
  using user_send_data_inr [OF R W junk run] st E guard_timer_keeps(6) [OF T, of w] by (auto simp: awake_def b_eager_contract_def)

lemma timed_step_awake:
  fixes call :: "('cb, 'rb, 'g, 'w) my_uart_b_call"
  assumes U: "b_uart_contract U (b_uart_dev conf) rx txr sent" and E: "b_eager_contract U Z (b_uart_dev conf) txr"
    and T: "guard_timer_contract U Z (b_uart_dev conf) dev armed"
    and R: "item_get_contract R items" "item_put_contract R items" and W: "TX_BUF_WORDS K < 255"
    and C: "callback_awake call dev (callback d) items txr armed (TX_BUF_WORDS K)"
    and step: "timed_step K Z R U call conf dev rx sent txr armed expire (d, g, w) e (d', g', w')"
    and st: "awake items txr armed (TX_BUF_WORDS K) d w"
  shows "awake items txr armed (TX_BUF_WORDS K) d' w' \<and> callback d' = callback d \<and>
     (is_interrupt e \<longrightarrow> sending_guard d' \<or> items (tx_rb d') = [])"
proof -
  have W': "TX_BUF_WORDS K < 256" using W by simp
  from step show ?thesis
  proof (cases rule: timed_step.cases)
    case running
    from running(1) show ?thesis
    proof (cases rule: b_step.cases)
      case (interrupt lns)
      from uart_b_int_handler_awake [OF U E T R(1) W' C _ st] interrupt show ?thesis by simp
    next
      case (send junk data len msg)
      then have "user_send_data K R U conf junk data len (d, w) = Inr (d', w')"
        by (simp add: my_uart_send_data_def api_b_def)
      from send_awake [OF E T R(2) W send(4) this st] send show ?thesis by simp
    qed (use running in simp_all)
  next
    case expiry
    from expiry(3) have "sending_guard_timer_expired_function U conf (d, expire w) = (d', w')"
      by (cases rule: b_step.cases) simp_all
    with expiry(1) st E show ?thesis
      by (auto simp: sending_guard_timer_expired_function_def awake_def b_eager_contract_def)
  next
    case outside
    with st show ?thesis by (auto intro: awake_cong)
  qed
qed

lemma timed_run_awake:
  fixes call :: "('cb, 'rb, 'g, 'w) my_uart_b_call"
  assumes U: "b_uart_contract U (b_uart_dev conf) rx txr sent" and E: "b_eager_contract U Z (b_uart_dev conf) txr"
    and T: "guard_timer_contract U Z (b_uart_dev conf) dev armed"
    and R: "item_get_contract R items" "item_put_contract R items" and W: "TX_BUF_WORDS K < 255"
    and C: "callback_awake call dev (callback d) items txr armed (TX_BUF_WORDS K)"
    and run: "run (timed_step K Z R U call conf dev rx sent txr armed expire) (d, g, w) evs (d', g', w')"
    and st: "awake items txr armed (TX_BUF_WORDS K) d w"
  shows "awake items txr armed (TX_BUF_WORDS K) d' w' \<and> callback d' = callback d \<and>
     (evs \<noteq> [] \<and> is_interrupt (last evs) \<longrightarrow> sending_guard d' \<or> items (tx_rb d') = [])"
  using run st
proof (induction "(d, g, w)" evs "(d', g', w')" arbitrary: d' g' w' rule: run.induct)
  case idle
  then show ?case by simp
next
  case (extend evs s e)
  obtain d1 g1 w1 where s: "s = (d1, g1, w1)" by (cases s)
  from extend s have 1: "awake items txr armed (TX_BUF_WORDS K) d1 w1" "callback d1 = callback d" by simp_all
  have C1: "callback_awake call dev (callback d1) items txr armed (TX_BUF_WORDS K)" using C 1(2) by simp
  from timed_step_awake [OF U E T R W C1 _ 1(1)] extend.hyps(3) s 1(2) show ?case by simp
qed

text \<open>While the guard is up the timer can expire, and then lowers it with the interrupt pending.\<close>

lemma guard_times_out:
  assumes E: "b_eager_contract U Z (b_uart_dev conf) txr" and st: "awake items txr armed words d w" "sending_guard d"
  shows "\<exists>w'. timed_step K Z R U call conf dev rx sent txr armed expire (d, g, w) Timeout (d\<lparr>sending_guard := False\<rparr>, g, w') \<and> txr w'"
proof -
  let ?w = "uart_irq_tx_enable U (b_uart_dev conf) (expire w)"
  have "b_step K Z R U call conf dev rx sent (d, g, expire w) Timeout (d\<lparr>sending_guard := False\<rparr>, g, ?w)"
    by (rule b_step.timeout) (simp add: sending_guard_timer_expired_function_def)
  moreover have "armed w" using st by (simp add: awake_def)
  moreover have "txr ?w" using E by (simp add: b_eager_contract_def)
  ultimately show ?thesis by (blast intro: timed_step.expiry)
qed

lemma timed_timeout_sends:
  fixes call :: "('cb, 'rb, 'g, 'w) my_uart_b_call"
  assumes U: "b_uart_contract U (b_uart_dev conf) rx txr sent" and Z: "b_kernel_contract Z rx sent"
    and E: "b_eager_contract U Z (b_uart_dev conf) txr" and T: "guard_timer_contract U Z (b_uart_dev conf) dev armed"
    and X: "expiry_contract armed expire rx sent" and R: "item_get_contract R items" and W: "TX_BUF_WORDS K < 256"
    and cbc: "b_callback_contract call dev (callback d) rx sent items (TX_BUF_WORDS K) limit upd subm"
    and cba: "callback_awake call dev (callback d) items txr armed (TX_BUF_WORDS K)"
    and ok: "b_ok K items d" and it: "items (tx_rb d) = i # rest" and w: "rx w = []" and run: "armed w"
  shows "\<exists>d' g' w'. run (timed_step K Z R U call conf dev rx sent txr armed expire) (d, g, w) [Timeout, Interrupt []] (d', g', w') \<and>
     b_ok K items d' \<and> callback d' = callback d \<and> sending_guard d' \<and> armed w' \<and> rx w' = [] \<and>
     map item_msg (items (tx_rb d')) = map item_msg rest \<and> sent w' = sent w @ [item_msg i]"
proof -
  let ?b = "b_step K Z R U call conf dev rx sent" and ?t = "timed_step K Z R U call conf dev rx sent txr armed expire"
  have rdy: "\<And>w. txr (uart_irq_tx_enable U (b_uart_dev conf) w)" using E by (simp add: b_eager_contract_def)
  have x: "rx (expire w) = []" "sent (expire w) = sent w" using X w by (simp_all add: expiry_contract_def keeps_def)
  from released_sends [OF U Z R W cbc rdy ok it x(1), of g] obtain d1 w1 d' g' w' where
    b: "?b (d, g, expire w) Timeout (d1, g, w1)" "?b (d1, g, w1) (Interrupt []) (d', g', w')" and
    d1: "b_ok K items d1" "callback d1 = callback d" "\<not> sending_guard d1" "txr w1" and
    r: "b_ok K items d'" "callback d' = callback d" "sending_guard d'" "rx w' = []"
      "map item_msg (items (tx_rb d')) = map item_msg rest" "sent w' = sent (expire w) @ [item_msg i]" by blast
  have t: "?t (d, g, w) Timeout (d1, g, w1)" using run b(1) by (rule timed_step.expiry)
  have t2: "?t (d1, g, w1) (Interrupt []) (d', g', w')" by (rule timed_step.running [OF b(2)]) simp_all
  from b(2) have h: "uart_b_int_handler K Z R U call conf (b_uart_dev conf) dev (d1, g, w1) = Some (Inr (d', g', w'))"
    by (cases rule: b_step.cases) simp_all
  have "awake items txr armed (TX_BUF_WORDS K) d1 w1" using d1 by (simp add: awake_def b_ok_def)
  with cba d1(2) uart_b_int_handler_awake [OF U E T R W _ h] r(3) have "armed w'" by (simp add: awake_def)
  with run_pair [where step = ?t, OF t t2] r x(2) show ?thesis
    by (intro exI [of _ d'] exI [of _ g'] exI [of _ w']) simp
qed

text \<open>The client's callback.\<close>

lemma app_call_awake:
  assumes E: "b_eager_contract U Z (b_uart_dev conf) txr" and T: "guard_timer_contract U Z (b_uart_dev conf) dev armed" and R: "item_put_contract R items" and W: "TX_BUF_WORDS K < 255"
    and junk: "length junk = 4 * TX_BUF_WORDS K"
  shows "callback_awake (app_call K Z R U conf junk) dev cb items txr armed (TX_BUF_WORDS K)"
proof (cases cb)
  case None
  then show ?thesis by (simp add: callback_awake_def)
next
  case (Some f)
  have "awake items txr armed (TX_BUF_WORDS K) d' w' \<and> callback d' = callback d"
    if run: "app_call K Z R U conf junk f dev buf len (d, g, w) = Inr (d', g', w')" and st: "awake items txr armed (TX_BUF_WORDS K) d w"
    for buf len d g w d' g' w'
  proof -
    let ?w = "printk Z (ascii ''my_uart_peripheral_b, app_callback, length='' @ fmt_d (int len) @ [LF]) w"
    from run have s: "user_send_data K R U conf junk buf len (d, ?w) = Inr (d', w')"
      by (cases f) (auto simp: app_call_def app_callback_def app_send_data_def my_uart_send_data_def api_b_def sbind_eq_Inr)
    have "awake items txr armed (TX_BUF_WORDS K) d ?w" using st E guard_timer_keeps(9) [OF T, of w] by (auto simp: awake_def b_eager_contract_def)
    from send_awake [OF E T R W junk s this] show ?thesis .
  qed
  with Some show ?thesis by (auto simp: callback_awake_def)
qed

section \<open>A line is answered\<close>

text \<open>
  The documented room of a ring buffer of \<open>cap\<close> words: an item takes its payload and a word. How
  many messages are queued or sent, and that neither receiving nor sending makes it fewer.
\<close>

definition item_space_contract :: "'rb ring_item_api \<Rightarrow> ('rb \<Rightarrow> ring_item list) \<Rightarrow> ('rb \<Rightarrow> nat) \<Rightarrow> bool" where
  [contract_defs]: "item_space_contract R items cap \<longleftrightarrow>
     (\<forall>t v p n rb. cap (snd (ring_buf_item_put R t v p n rb)) = cap rb \<and>
        (items_used (items rb) + unat n + 1 \<le> cap rb \<longrightarrow> fst (ring_buf_item_put R t v p n rb) = 0)) \<and>
     (\<forall>m rb. cap (snd (snd (snd (snd (snd (ring_buf_item_get R m rb)))))) = cap rb)"

definition handled :: "('rb \<Rightarrow> ring_item list) \<Rightarrow> ('w \<Rightarrow> u8 list list) \<Rightarrow> ('cb, 'rb) my_uart_b_data \<Rightarrow> 'w \<Rightarrow> nat" where
  "handled items sent d w = length (sent w) + length (items (tx_rb d))"

text \<open>Which item a send puts.\<close>

lemma user_send_data_put:
  assumes "user_send_data K R U conf junk data len (d, w) = Inr (d', w')" and W: "TX_BUF_WORDS K < 256"
  shows "\<exists>v p n. tx_rb d' = snd (ring_buf_item_put R 0 v p n (tx_rb d)) \<and>
     (len + 6 \<le> 4 * TX_BUF_WORDS K \<longrightarrow> unat n \<le> TX_BUF_WORDS K)"
proof -
  from assms(1) obtain buf size where b: "build_user_send_data junk (TX_BUF_WORDS K * 4) data len = Inr (buf, size)"
    by (auto simp: user_send_data_def sbind_eq_Inr)
  let ?n = "word_of_nat (size div 4 + 1) :: u8"
  let ?v = "word_of_int (int (unat ?n) * 4 - int size) :: u8"
  have n: "unat ?n \<le> TX_BUF_WORDS K" if "len + 6 \<le> 4 * TX_BUF_WORDS K"
  proof -
    from b that W have "size = len + 5" by (auto simp: build_user_send_data_def sbind_eq_Inr)
    with that have lt: "size div 4 + 1 \<le> TX_BUF_WORDS K" by linarith
    then have "unat ?n = size div 4 + 1" using W by (intro unat_of_nat_u8) linarith
    with lt show ?thesis by simp
  qed
  obtain ret rb where put: "ring_buf_item_put R 0 ?v (take (4 * unat ?n) buf) ?n (tx_rb d) = (ret, rb)"
    by (cases "ring_buf_item_put R 0 ?v (take (4 * unat ?n) buf) ?n (tx_rb d)")
  have "tx_rb d' = rb"
    using assms(1) unfolding user_send_data_def prod.case b sbind_simps Let_def put by (auto split: if_splits)
  with put n show ?thesis by (intro exI [of _ ?v] exI [of _ "take (4 * unat ?n) buf"] exI [of _ ?n]) simp
qed

lemma app_call_handled:
  fixes rx :: "'w \<Rightarrow> u8 list" and sent :: "'w \<Rightarrow> u8 list list" and d :: "(b_client_fn, 'rb) my_uart_b_data"
  assumes U: "b_uart_contract U (b_uart_dev conf) rx txr sent" and Z: "b_kernel_contract Z rx sent"
    and R: "item_put_contract R items" "item_space_contract R items cap" and W: "TX_BUF_WORDS K < 255"
    and junk: "length junk = 4 * TX_BUF_WORDS K"
    and run: "app_call K Z R U conf junk f dev buf len (d, g, w) = Inr (d', g', w')"
  shows "rx w' = rx w \<and> sent w' = sent w \<and> (\<exists>rb. d' = d\<lparr>tx_rb := rb\<rparr>) \<and> cap (tx_rb d') = cap (tx_rb d) \<and> handled items sent d w \<le> handled items sent d' w' \<and>
     (items (tx_rb d) = [] \<and> TX_BUF_WORDS K + 1 \<le> cap (tx_rb d) \<and> len + 6 \<le> 4 * TX_BUF_WORDS K \<longrightarrow>
        handled items sent d' w' = handled items sent d w + 1)"
proof -
  let ?w = "printk Z (ascii ''my_uart_peripheral_b, app_callback, length='' @ fmt_d (int len) @ [LF]) w"
  from run have s: "user_send_data K R U conf junk buf len (d, ?w) = Inr (d', w')"
    by (cases f) (auto simp: app_call_def app_callback_def app_send_data_def my_uart_send_data_def api_b_def sbind_eq_Inr)
  have pr: "rx ?w = rx w" "sent ?w = sent w" using Z unfolding b_kernel_contract_def keeps_def by simp_all
  have en: "rx (uart_irq_tx_enable U (b_uart_dev conf) v) = rx v" "sent (uart_irq_tx_enable U (b_uart_dev conf) v) = sent v" for v
    using U unfolding b_uart_contract_def keeps_def by simp_all
  from user_send_data_inr [OF R(1) W junk s] obtain rb where rb: "d' = d\<lparr>tx_rb := rb\<rparr>"
    and c: "w' = ?w \<and> items rb = items (tx_rb d) \<or> w' = uart_irq_tx_enable U (b_uart_dev conf) ?w \<and>
      (\<exists>i. items rb = items (tx_rb d) @ [i])" by blast
  from c pr en have w: "rx w' = rx w" "sent w' = sent w" by auto
  have W': "TX_BUF_WORDS K < 256" using W by simp
  from user_send_data_put [OF s W'] obtain v p n where put: "tx_rb d' = snd (ring_buf_item_put R 0 v p n (tx_rb d))"
    "len + 6 \<le> 4 * TX_BUF_WORDS K \<longrightarrow> unat n \<le> TX_BUF_WORDS K" by blast
  have "cap (tx_rb d') = cap (tx_rb d)" unfolding put(1) using R(2) unfolding item_space_contract_def by blast
  moreover have "items rb = items (tx_rb d) @ [last (items rb)]"
    if it: "items (tx_rb d) = []" "TX_BUF_WORDS K + 1 \<le> cap (tx_rb d)" "len + 6 \<le> 4 * TX_BUF_WORDS K"
  proof -
    have "items_used (items (tx_rb d)) + unat n + 1 \<le> cap (tx_rb d)" using it put(2) by (simp add: items_used_def)
    with R(2) have "fst (ring_buf_item_put R 0 v p n (tx_rb d)) = 0" unfolding item_space_contract_def by blast
    with R(1) have "items (tx_rb d') = items (tx_rb d) @ [(0, v, p, n)]"
      unfolding item_put_contract_def put(1) by (metis EMSGSIZE_def neg_equal_0_iff_equal zero_neq_numeral)
    with rb show ?thesis by simp
  qed
  then have "handled items sent d' w' = handled items sent d w + 1"
    if "items (tx_rb d) = [] \<and> TX_BUF_WORDS K + 1 \<le> cap (tx_rb d) \<and> len + 6 \<le> 4 * TX_BUF_WORDS K"
    using that rb w by (metis (no_types, lifting) add.assoc handled_def length_append_singleton my_uart_b_data.select_convs(4)
        my_uart_b_data.surjective my_uart_b_data.update_convs(4) Suc_eq_plus1)
  moreover have "handled items sent d w \<le> handled items sent d' w'" using c w rb by (auto simp: handled_def)
  ultimately show ?thesis using rb w by blast
qed

text \<open>
  What holds until the handler returns, for a line \<open>l\<close>: either \<open>l\<close> is what is pending and what is
  to come (\<open>r\<close>), with nothing queued and \<open>n\<close> messages handled so far, or one more is.
\<close>

definition line_inv ::
    "('rb \<Rightarrow> ring_item list) \<Rightarrow> ('rb \<Rightarrow> nat) \<Rightarrow> ('w \<Rightarrow> u8 list list) \<Rightarrow> nat \<Rightarrow> u8 list \<Rightarrow> nat \<Rightarrow> u8 list \<Rightarrow>
     ('cb, 'rb) my_uart_b_data \<Rightarrow> 'w \<Rightarrow> bool" where
  "line_inv items cap sent words l n r d w \<longleftrightarrow>
     b_rx_data_len d \<le> length (b_rx_buf d) \<and> words + 1 \<le> cap (tx_rb d) \<and>
     (b_pending d @ r = l \<and> items (tx_rb d) = [] \<and> handled items sent d w = n \<or>
      n + 1 \<le> handled items sent d w)"

lemma end_of_line_answers:
  fixes rx :: "'w \<Rightarrow> u8 list" and sent :: "'w \<Rightarrow> u8 list list" and d :: "(b_client_fn, 'rb) my_uart_b_data"
  assumes U: "b_uart_contract U (b_uart_dev conf) rx txr sent" and Z: "b_kernel_contract Z rx sent"
    and R: "item_put_contract R items" "item_space_contract R items cap" and W: "TX_BUF_WORDS K < 255"
    and junk: "length junk = 4 * TX_BUF_WORDS K"
    and run: "end_of_line K U (app_call K Z R U conf junk) conf dev (Some App_callback) (d, g, w) = Inr (d', g', w')"
  shows "rx w' = rx w \<and> callback d' = callback d \<and> b_rx_data_len d' = 0 \<and> cap (tx_rb d') = cap (tx_rb d) \<and> handled items sent d w \<le> handled items sent d' w' \<and>
     (items (tx_rb d) = [] \<and> TX_BUF_WORDS K + 1 \<le> cap (tx_rb d) \<and> b_rx_data_len d + 6 \<le> 4 * TX_BUF_WORDS K \<longrightarrow>
        handled items sent d' w' = handled items sent d w + 1)"
proof -
  from run obtain ok where "check_sending_guard (b_rx_buf d) (b_rx_data_len d) = Inr ok"
    by (auto simp: end_of_line_def sbind_eq_Inr)
  moreover define d1 where "d1 = (if ok then d\<lparr>sending_guard := False\<rparr> else d)"
  moreover define w1 where "w1 = (if ok then uart_irq_tx_enable U (b_uart_dev conf) w else w)"
  ultimately obtain d2 g2 w2 where
    c: "app_call K Z R U conf junk App_callback dev (b_rx_buf d1) (b_rx_data_len d1) (d1, g, w1) = Inr (d2, g2, w2)"
    and e: "d' = clear_rx K d2" "w' = w2"
    using run by (auto simp: end_of_line_def sbind_eq_Inr Let_def)
  have en: "rx (uart_irq_tx_enable U (b_uart_dev conf) w) = rx w" "sent (uart_irq_tx_enable U (b_uart_dev conf) w) = sent w"
    using U unfolding b_uart_contract_def keeps_def by simp_all
  have 1: "rx w1 = rx w" "handled items sent d1 w1 = handled items sent d w" "tx_rb d1 = tx_rb d" "b_rx_data_len d1 = b_rx_data_len d"
    "callback d1 = callback d"
    by (simp_all add: d1_def w1_def en handled_def)
  from app_call_handled [OF U Z R W junk c] 1 e show ?thesis by (auto simp: handled_def clear_rx_def)
qed

lemma line_position:
  assumes "p @ c # r = s @ [e]" and "list_all (\<lambda>c. \<not> is_eol c) s" and "is_eol e"
  shows "if is_eol c then p = s \<and> c = e \<and> r = [] else length p < length s"
proof (cases r rule: rev_cases)
  case Nil
  with assms show ?thesis by simp
next
  case (snoc r' x)
  with assms(1) have "s = p @ c # r'" "x = e" by simp_all
  with assms(2) show ?thesis by simp
qed

lemma rx_char_b_answers:
  fixes rx :: "'w \<Rightarrow> u8 list" and sent :: "'w \<Rightarrow> u8 list list" and d :: "(b_client_fn, 'rb) my_uart_b_data"
  assumes U: "b_uart_contract U (b_uart_dev conf) rx txr sent" and Z: "b_kernel_contract Z rx sent"
    and R: "item_put_contract R items" "item_space_contract R items cap" and W: "TX_BUF_WORDS K < 255"
    and junk: "length junk = 4 * TX_BUF_WORDS K" and cb: "callback d = Some App_callback"
    and l: "l = s @ [e]" "list_all (\<lambda>c. \<not> is_eol c) s" "is_eol e" "length l \<le> B_RX_BUF_SIZE K" "length l + 6 \<le> 4 * TX_BUF_WORDS K"
    and size: "B_RX_BUF_SIZE K < 2 ^ 32"
    and run: "rx_char_b K U (app_call K Z R U conf junk) conf dev c (d, g, w) = Inr (d', g', w')"
    and inv: "line_inv items cap sent (TX_BUF_WORDS K) l n (c # r) d w"
  shows "rx w' = rx w \<and> callback d' = callback d \<and> line_inv items cap sent (TX_BUF_WORDS K) l n r d' w'"
proof -
  let ?n = "b_rx_data_len d"
  let ?d = "d\<lparr>b_rx_buf := (b_rx_buf d)[?n := c], b_rx_data_len := Suc ?n\<rparr>"
  from run have lt: "?n < length (b_rx_buf d)" by (auto simp: rx_char_b_def store_def sbind_eq_Inr split: if_splits)
  then have p: "b_pending ?d = b_pending d @ [c]" "length (b_pending d) = ?n"
    by (simp_all add: b_pending_def take_Suc_conv_app_nth)
  have h: "handled items sent ?d w = handled items sent d w" by (simp add: handled_def)
  show ?thesis
  proof (cases "is_eol c")
    case True
    with run lt cb have "end_of_line K U (app_call K Z R U conf junk) conf dev (Some App_callback) (?d, g, w) = Inr (d', g', w')"
      by (simp add: rx_char_b_def store_def is_eol_def Let_def)
    from end_of_line_answers [OF U Z R W junk this]
    have e: "rx w' = rx w" "callback d' = callback d" "b_rx_data_len d' = 0" "cap (tx_rb d') = cap (tx_rb d)" "handled items sent d w \<le> handled items sent d' w'"
      "items (tx_rb d) = [] \<and> TX_BUF_WORDS K + 1 \<le> cap (tx_rb d) \<and> Suc ?n + 6 \<le> 4 * TX_BUF_WORDS K \<longrightarrow>
        handled items sent d' w' = handled items sent d w + 1" by (simp_all add: h)
    have "Suc ?n = length l" if "b_pending d @ c # r = l"
      using line_position [OF that [unfolded l(1)] l(2,3)] True l(1) p(2) by simp
    with e inv l(5) show ?thesis by (auto simp: line_inv_def)
  next
    case False
    have full: "size_sub (B_RX_BUF_SIZE K) (Suc ?n) \<noteq> 0" if "b_pending d @ c # r = l"
    proof -
      have "?n < length s" using line_position [OF that [unfolded l(1)] l(2,3)] False p(2) by simp
      with l(1,4) size show ?thesis by simp
    qed
    from run lt False have "d' = ?d \<and> w' = w \<or> d' = clear_rx K ?d \<and> w' = w \<and> size_sub (B_RX_BUF_SIZE K) (Suc ?n) = 0"
      by (auto simp: rx_char_b_def store_def is_eol_def Let_def split: if_splits)
    then show ?thesis
    proof
      assume "d' = ?d \<and> w' = w"
      with inv p h lt show ?thesis by (auto simp: line_inv_def)
    next
      assume "d' = clear_rx K ?d \<and> w' = w \<and> size_sub (B_RX_BUF_SIZE K) (Suc ?n) = 0"
      with inv full h show ?thesis by (auto simp: line_inv_def clear_rx_def handled_def)
    qed
  qed
qed

lemma rx_loop_b_answers:
  fixes rx :: "'w \<Rightarrow> u8 list" and sent :: "'w \<Rightarrow> u8 list list" and d :: "(b_client_fn, 'rb) my_uart_b_data"
  assumes U: "b_uart_contract U (b_uart_dev conf) rx txr sent" and Z: "b_kernel_contract Z rx sent"
    and R: "item_put_contract R items" "item_space_contract R items cap" and W: "TX_BUF_WORDS K < 255"
    and junk: "length junk = 4 * TX_BUF_WORDS K" and cb: "callback d = Some App_callback"
    and l: "l = s @ [e]" "list_all (\<lambda>c. \<not> is_eol c) s" "is_eol e" "length l \<le> B_RX_BUF_SIZE K" "length l + 6 \<le> 4 * TX_BUF_WORDS K"
    and size: "B_RX_BUF_SIZE K < 2 ^ 32"
    and run: "rx_loop_b K U (app_call K Z R U conf junk) conf (b_uart_dev conf) dev (d, g, w) = Some (Inr (d', g', w'))"
    and inv: "line_inv items cap sent (TX_BUF_WORDS K) l n (rx w) d w"
  shows "callback d' = Some App_callback \<and> line_inv items cap sent (TX_BUF_WORDS K) l n (rx w') d' w'"
proof -
  let ?uart = "b_uart_dev conf" and ?call = "app_call K Z R U conf junk"
  let ?P = "\<lambda>(d :: (b_client_fn, 'rb) my_uart_b_data, g :: unit, w). callback d = Some App_callback \<and>
     line_inv items cap sent (TX_BUF_WORDS K) l n (rx w) d w"
  have rr: "rx_ready_contract U ?uart rx sent" and fr: "fifo_read_contract U ?uart rx sent"
    using U by (simp_all add: b_uart_contract_def fifo_uart_contract_def)
  have same: "line_inv items cap sent (TX_BUF_WORDS K) l n r d v'"
    if "line_inv items cap sent (TX_BUF_WORDS K) l n r d v" "sent v' = sent v" for d :: "(b_client_fn, 'rb) my_uart_b_data" and v v' r
    using that by (auto simp: line_inv_def handled_def)
  have "?P (d', g', w')"
  proof (rule whileM_invariant [OF run [unfolded rx_loop_b_def], where P = ?P])
    show "?P (d, g, w)" using cb inv by simp
  next
    fix t t1 t2
    assume P: "?P t" and g: "(case t of (d, g, w) \<Rightarrow> case uart_irq_rx_ready U ?uart w of (r, w1) \<Rightarrow> (r \<noteq> 0, d, g, w1)) = (True, t1)"
      and b: "(case t1 of (d, g, w) \<Rightarrow> case uart_fifo_read U ?uart 1 w of (n, bs, w1) \<Rightarrow>
        Some (case bs of [] \<Rightarrow> Inl Uninit_read | c # x \<Rightarrow> rx_char_b K U ?call conf dev c (d, g, w1))) = Some (Inr t2)"
    obtain d1 g1 w1 where t: "t = (d1, g1, w1)" by (cases t)
    obtain d2 g2 w4 where t2: "t2 = (d2, g2, w4)" by (cases t2)
    obtain r w2 where q: "uart_irq_rx_ready U ?uart w1 = (r, w2)" by (cases "uart_irq_rx_ready U ?uart w1")
    with g t have r: "r \<noteq> 0" "t1 = (d1, g1, w2)" by simp_all
    from rx_ready_contractD [OF rr q] r(1) obtain c cs where w2: "rx w1 = c # cs" "rx w2 = c # cs" "sent w2 = sent w1"
      by (cases "rx w1") auto
    from fr w2(2) obtain w3 where w3: "uart_fifo_read U ?uart 1 w2 = (1, [c], w3)" "rx w3 = cs" "sent w3 = sent w2"
      by (rule fifo_read_contractD)
    have c: "rx_char_b K U ?call conf dev c (d1, g1, w3) = Inr (d2, g2, w4)" using b r(2) w3(1) t2 by simp
    have i: "line_inv items cap sent (TX_BUF_WORDS K) l n (c # cs) d1 w3"
      by (rule same [where v = w1]) (use P t w2 w3 in simp_all)
    have "callback d1 = Some App_callback" using P t by simp
    from rx_char_b_answers [OF U Z R W junk this l size c i] this w3(2) t2 show "?P t2" by simp
  next
    fix t t1
    assume P: "?P t" and g: "(case t of (d, g, w) \<Rightarrow> case uart_irq_rx_ready U ?uart w of (r, w1) \<Rightarrow> (r \<noteq> 0, d, g, w1)) = (False, t1)"
    obtain d1 g1 w1 where t: "t = (d1, g1, w1)" by (cases t)
    obtain r w2 where q: "uart_irq_rx_ready U ?uart w1 = (r, w2)" by (cases "uart_irq_rx_ready U ?uart w1")
    with g t have "t1 = (d1, g1, w2)" by simp
    with P t rx_ready_contractD [OF rr q] same [of "rx w1" d1 w1 w2] show "?P t1" by simp
  qed
  then show ?thesis by simp
qed

lemma tx_part_answers:
  fixes rx :: "'w \<Rightarrow> u8 list" and sent :: "'w \<Rightarrow> u8 list list" and d :: "('cb, 'rb) my_uart_b_data"
  assumes U: "b_uart_contract U uart rx txr sent" and Z: "b_kernel_contract Z rx sent"
    and R: "item_get_contract R items" "item_space_contract R items cap"
    and run: "tx_part K Z R U uart dev (d, w) = Inr (d', w')" and inv: "line_inv items cap sent words l n r d w"
  shows "rx w' = rx w \<and> callback d' = callback d \<and> line_inv items cap sent words l n r d' w'"
proof -
  have w: "rx (uart_irq_tx_disable U uart v) = rx v" "sent (uart_irq_tx_disable U uart v) = sent v"
    "rx (printk Z bs v) = rx v" "sent (printk Z bs v) = sent v"
    "rx (k_timer_start Z x m q v) = rx v" "sent (k_timer_start Z x m q v) = sent v"
    "rx (snd (uart_fifo_fill U uart bs v)) = rx v" "sent (snd (uart_fifo_fill U uart bs v)) = sent v @ [bs]" for bs v x m q
    using U Z unfolding b_uart_contract_def b_kernel_contract_def keeps_def by simp_all
  let ?m = "word_of_nat (TX_BUF_WORDS K) :: u8"
  obtain ret t v p k rb where get: "ring_buf_item_get R ?m (tx_rb d) = (ret, t, v, p, k, rb)"
    by (cases "ring_buf_item_get R ?m (tx_rb d)")
  have cap: "cap rb = cap (tx_rb d)" using R(2) get unfolding item_space_contract_def by (metis snd_conv)
  show ?thesis
  proof (cases "sending_guard d")
    case True
    with run inv w show ?thesis by (auto simp: tx_part_def line_inv_def handled_def)
  next
    case idle: False
    consider "items (tx_rb d) = []" "ret = - EAGAIN" "items rb = []"
      | "ret = - EMSGSIZE" "items rb = items (tx_rb d)"
      | "ret = 0" "items (tx_rb d) \<noteq> []" "items rb = tl (items (tx_rb d))"
    proof (cases "items (tx_rb d)")
      case Nil
      then obtain t' v' p' n' rb' where "ring_buf_item_get R ?m (tx_rb d) = (- EAGAIN, t', v', p', n', rb')" "items rb' = []"
        using R(1) unfolding item_get_contract_def by meson
      with get Nil that(1) show thesis by simp
    next
      case (Cons i rest)
      obtain ti vi pi ni where i: "i = (ti, vi, pi, ni)" by (cases i)
      show thesis
      proof (cases "ni \<le> ?m")
        case True
        with R(1) Cons i obtain rb' where "ring_buf_item_get R ?m (tx_rb d) = (0, ti, vi, pi, ni, rb')" "items rb' = rest"
          unfolding item_get_contract_def by meson
        with get Cons that(3) show thesis by simp
      next
        case False
        with R(1) Cons i obtain t' v' p' rb' where
          "ring_buf_item_get R ?m (tx_rb d) = (- EMSGSIZE, t', v', p', ni, rb')" "items rb' = items (tx_rb d)"
          unfolding item_get_contract_def by meson
        with get that(2) show thesis by simp
      qed
    qed
    then show ?thesis
    proof cases
      case 1
      with run idle get w inv cap show ?thesis
        by (auto simp: tx_part_def line_inv_def handled_def b_pending_def EAGAIN_def EMSGSIZE_def Let_def)
    next
      case 2
      with run idle get w inv cap show ?thesis
        by (auto simp: tx_part_def line_inv_def handled_def b_pending_def Let_def)
    next
      case 3
      from 3 run idle get obtain bs w1 where
        e: "d' = d\<lparr>tx_rb := rb, sending_guard := True\<rparr>" "rx w' = rx w" "sent w' = sent w @ [bs]"
        by (auto simp: tx_part_def EAGAIN_def EMSGSIZE_def Let_def sbind_eq_Inr w)
      have "handled items sent d' w' = handled items sent d w" using 3 e by (simp add: handled_def)
      with 3(2) e inv cap show ?thesis by (auto simp: line_inv_def)
    qed
  qed
qed

lemma uart_b_int_handler_answers:
  fixes rx :: "'w \<Rightarrow> u8 list" and sent :: "'w \<Rightarrow> u8 list list" and d :: "(b_client_fn, 'rb) my_uart_b_data"
  assumes U: "b_uart_contract U (b_uart_dev conf) rx txr sent" and Z: "b_kernel_contract Z rx sent"
    and R: "item_get_contract R items" "item_put_contract R items" "item_space_contract R items cap" and W: "TX_BUF_WORDS K < 255"
    and junk: "length junk = 4 * TX_BUF_WORDS K" and cb: "callback d = Some App_callback"
    and l: "l = s @ [e]" "list_all (\<lambda>c. \<not> is_eol c) s" "is_eol e" "length l \<le> B_RX_BUF_SIZE K" "length l + 6 \<le> 4 * TX_BUF_WORDS K"
    and size: "B_RX_BUF_SIZE K < 2 ^ 32"
    and run: "uart_b_int_handler K Z R U (app_call K Z R U conf junk) conf (b_uart_dev conf) dev (d, g, w) = Some (Inr (d', g', w'))"
    and inv: "line_inv items cap sent (TX_BUF_WORDS K) l n (rx w) d w"
  shows "line_inv items cap sent (TX_BUF_WORDS K) l n (rx w') d' w'"
proof -
  let ?uart = "b_uart_dev conf" and ?call = "app_call K Z R U conf junk"
  let ?P = "\<lambda>(d :: (b_client_fn, 'rb) my_uart_b_data, g :: unit, w). callback d = Some App_callback \<and>
     line_inv items cap sent (TX_BUF_WORDS K) l n (rx w) d w"
  have same: "line_inv items cap sent (TX_BUF_WORDS K) l n r d v'"
    if "line_inv items cap sent (TX_BUF_WORDS K) l n r d v" "sent v' = sent v" for d :: "(b_client_fn, 'rb) my_uart_b_data" and v v' r
    using that by (auto simp: line_inv_def handled_def)
  have guard: "\<exists>b v'. irq_guard U ?uart (d, g, v) = (b, d, g, v') \<and> rx v' = rx v \<and> sent v' = sent v"
    for d :: "(b_client_fn, 'rb) my_uart_b_data" and g :: unit and v
  proof -
    obtain r v1 where u: "uart_irq_update U ?uart v = (r, v1)" by (cases "uart_irq_update U ?uart v")
    obtain p v2 where q: "uart_irq_is_pending U ?uart v1 = (p, v2)" by (cases "uart_irq_is_pending U ?uart v1")
    have "query_contract (uart_irq_update U ?uart) rx sent" "query_contract (uart_irq_is_pending U ?uart) rx sent"
      using U by (simp_all add: b_uart_contract_def fifo_uart_contract_def)
    from query_contractD [OF this(1) u] query_contractD [OF this(2) q] show ?thesis
      by (auto simp: irq_guard_def u q)
  qed
  have "?P (d', g', w')"
  proof (rule whileM_invariant [OF run [unfolded uart_b_int_handler_def], where P = ?P])
    show "?P (d, g, w)" using cb inv by simp
  next
    fix t t1 t2
    assume P: "?P t" and go: "irq_guard U ?uart t = (True, t1)" and b: "irq_pass K Z R U ?call conf ?uart dev t1 = Some (Inr t2)"
    obtain d1 g1 w1 where t: "t = (d1, g1, w1)" by (cases t)
    obtain d3 g3 w5 where t2: "t2 = (d3, g3, w5)" by (cases t2)
    from guard [of d1 g1 w1] go t obtain w2 where t1: "t1 = (d1, g1, w2)" "rx w2 = rx w1" "sent w2 = sent w1" by auto
    have i2: "line_inv items cap sent (TX_BUF_WORDS K) l n (rx w2) d1 w2"
      by (rule same [where v = w1]) (use P t t1 in simp_all)
    have c1: "callback d1 = Some App_callback" using P t by simp
    from b t1(1) obtain d2 g2 w3 where r: "rx_loop_b K U ?call conf ?uart dev (d1, g1, w2) = Some (Inr (d2, g2, w3))"
      by (auto simp: irq_pass_def obind_eq_Inr)
    from rx_loop_b_answers [OF U Z R(2,3) W junk c1 l size r i2]
    have 3: "callback d2 = Some App_callback" "line_inv items cap sent (TX_BUF_WORDS K) l n (rx w3) d2 w3" by simp_all
    obtain q w4 where q: "uart_irq_tx_ready U ?uart w3 = (q, w4)" by (cases "uart_irq_tx_ready U ?uart w3")
    have tq: "query_contract (uart_irq_tx_ready U ?uart) rx sent" using U by (simp add: b_uart_contract_def)
    have 4: "line_inv items cap sent (TX_BUF_WORDS K) l n (rx w4) d2 w4"
      using same [OF 3(2), of w4] query_contractD [OF tq q] by simp
    show "?P t2"
    proof (cases "q = 0")
      case True
      with b t1(1) r q t2 3(1) 4 show ?thesis by (simp add: irq_pass_def)
    next
      case False
      with b t1(1) r q t2 have "tx_part K Z R U ?uart dev (d2, w4) = Inr (d3, w5)"
        by (auto simp: irq_pass_def sbind_eq_Inr)
      from tx_part_answers [OF U Z R(1,3) this 4] 3(1) t2 show ?thesis by simp
    qed
  next
    fix t t1
    assume P: "?P t" and stop: "irq_guard U ?uart t = (False, t1)"
    obtain d1 g1 w1 where t: "t = (d1, g1, w1)" by (cases t)
    from guard [of d1 g1 w1] stop t obtain w2 where "t1 = (d1, g1, w2)" "rx w2 = rx w1" "sent w2 = sent w1" by auto
    with P t same [of "rx w1" d1 w1 w2] show "?P t1" by simp
  qed
  then show ?thesis by simp
qed

text \<open>In the protocol machine, to end waiting after a release or from rest something must have been sent.\<close>

lemma sw_run_waiting:
  "sw_run s as t \<Longrightarrow> waiting t \<Longrightarrow> \<not> waiting s \<or> Release \<in> set as \<Longrightarrow> length (wire s) < length (wire t)"
proof (induction rule: run.induct)
  case (idle s)
  then show ?case by simp
next
  case (extend s as t a u)
  from extend.hyps(2) extend show ?case
    by (cases rule: sw_step.cases) (auto dest: sw_run_wire_grows)
qed

text \<open>The driver at rest but for its guard: nothing received, nothing queued, the client registered.\<close>

definition client_idle ::
    "my_uart_b_kconfig \<Rightarrow> ('rb \<Rightarrow> ring_item list) \<Rightarrow> ('rb \<Rightarrow> nat) \<Rightarrow> (b_client_fn, 'rb) my_uart_b_data \<Rightarrow> bool" where
  "client_idle K items cap d \<longleftrightarrow>
     wf_b K d \<and> callback d = Some App_callback \<and> b_pending d = [] \<and> items (tx_rb d) = [] \<and> TX_BUF_WORDS K + 1 \<le> cap (tx_rb d)"

text \<open>A line, with its terminator, that fits both buffers.\<close>

definition short_line :: "my_uart_b_kconfig \<Rightarrow> u8 list \<Rightarrow> bool" where
  "short_line K l \<longleftrightarrow> l \<noteq> [] \<and> is_eol (last l) \<and> list_all (\<lambda>c. \<not> is_eol c) (butlast l) \<and>
     length l \<le> B_RX_BUF_SIZE K \<and> length l + 6 \<le> 4 * TX_BUF_WORDS K"

lemma short_line_frames:
  assumes "short_line K l"
  shows "frames (line_step (B_RX_BUF_SIZE K)) l [] = [l]" and "residue (line_step (B_RX_BUF_SIZE K)) l [] = []"
proof -
  obtain s e where l: "l = s @ [e]" using assms by (cases l rule: rev_cases) (auto simp: short_line_def)
  with assms have "list_all (\<lambda>c. \<not> is_eol c) s" "length ([] :: u8 list) + length s < B_RX_BUF_SIZE K" "is_eol e"
    by (simp_all add: short_line_def)
  with line_residue_short [OF this(1,2)] l show "frames (line_step (B_RX_BUF_SIZE K)) l [] = [l]"
    and "residue (line_step (B_RX_BUF_SIZE K)) l [] = []" by (simp_all add: frames_append line_step_simps)
qed

lemma reply_sent:
  fixes rx :: "'w \<Rightarrow> u8 list" and sent :: "'w \<Rightarrow> u8 list list" and d :: "(b_client_fn, 'rb) my_uart_b_data"
  assumes U: "b_uart_contract U (b_uart_dev conf) rx txr sent" and Z: "b_kernel_contract Z rx sent"
    and E: "b_eager_contract U Z (b_uart_dev conf) txr"
    and R: "item_get_contract R items" "item_put_contract R items" "item_space_contract R items cap" and W: "TX_BUF_WORDS K < 255"
    and junk: "length junk = 4 * TX_BUF_WORDS K" and st: "client_idle K items cap d" and l: "short_line K l" and w: "rx w = l"
    and go: "sending_guard d \<longleftrightarrow> is_ok_line l"
  shows "\<exists>d' g' w'. uart_b_int_handler K Z R U (app_call K Z R U conf junk) conf (b_uart_dev conf) dev (d, g, w) =
       Some (Inr (d', g', w')) \<and> client_idle K items cap d' \<and> rx w' = [] \<and> sending_guard d' \<and> sent w' = sent w @ [reply l]"
proof -
  let ?call = "app_call K Z R U conf junk"
  have W': "TX_BUF_WORDS K < 256" using W by simp
  obtain s e where se: "l = s @ [e]" using l by (cases l rule: rev_cases) (auto simp: short_line_def)
  with l have ls: "list_all (\<lambda>c. \<not> is_eol c) s" "is_eol e" "length l \<le> B_RX_BUF_SIZE K" "length l + 6 \<le> 4 * TX_BUF_WORDS K"
    by (simp_all add: short_line_def)
  from st have d: "b_ok K items d" "callback d = Some App_callback" "b_pending d = []" "items (tx_rb d) = []"
    "B_RX_BUF_SIZE K < 2 ^ 32" by (simp_all add: client_idle_def b_ok_def wf_b_def)
  have cbc: "b_callback_contract ?call dev (callback d) rx sent items (TX_BUF_WORDS K) (4 * TX_BUF_WORDS K - 6) (\<lambda>l g. g) reply"
    using app_callback_contract [OF U Z R(2) W' junk, of "4 * TX_BUF_WORDS K - 6" dev] ls(4) d(2) by simp
  have lns: "[l] = frames (line_step (B_RX_BUF_SIZE K)) (rx w) (b_pending d)"
    using short_line_frames(1) [OF l] w d(3) by simp
  have lim: "list_all (\<lambda>l. length l \<le> 4 * TX_BUF_WORDS K - 6) [l]" using ls(4) by simp
  from uart_b_int_handler_sw [OF U Z R(1) W' cbc refl d(1) lns lim, of g] obtain d' g' w' acts where
    r: "uart_b_int_handler K Z R U ?call conf (b_uart_dev conf) dev (d, g, w) = Some (Inr (d', g', w'))"
      "b_ok K items d'" "callback d' = callback d" "rx w' = []"
      "b_pending d' = residue (line_step (B_RX_BUF_SIZE K)) (rx w) (b_pending d)"
      "sw_run (sw_of items sent d w) acts (sw_of items sent d' w')" "releases acts = ok_lines [l]"
      "subseq (submits acts) (map reply [l])" by blast
  have p: "b_pending d' = []" using r(5) short_line_frames(2) [OF l] w d(3) by simp
  let ?n = "length (sent w)"
  have "line_inv items cap sent (TX_BUF_WORDS K) l ?n (rx w) d w"
    using st w by (auto simp: line_inv_def handled_def client_idle_def wf_b_def)
  from uart_b_int_handler_answers [OF U Z R W junk d(2) se ls d(5) r(1) this] r(4) p se
  have h: "?n + 1 \<le> length (sent w') + length (items (tx_rb d'))" and cap: "TX_BUF_WORDS K + 1 \<le> cap (tx_rb d')"
    by (auto simp: line_inv_def handled_def)
  from sw_run_fifo [OF r(6)] d(4) have f: "sent w' @ map item_msg (items (tx_rb d')) = sent w @ submits acts"
    by (simp add: sw_of_def)
  then have "length (sent w') + length (items (tx_rb d')) = ?n + length (submits acts)"
    by (metis length_append length_map)
  with h r(8) have sub: "submits acts = [reply l]"
    using list_emb_length [OF r(8)] by (cases "submits acts") (auto simp: length_Suc_conv split: if_splits)
  have T: "guard_timer_contract U Z (b_uart_dev conf) dev (\<lambda>w. True)" by (simp add: guard_timer_contract_def)
  have "awake items txr (\<lambda>w. True) (TX_BUF_WORDS K) d w" using d(4) by (simp add: awake_def)
  from uart_b_int_handler_awake [OF U E T R(1) W' _ r(1) this] app_call_awake [OF E T R(2) W junk]
  have a: "sending_guard d' \<or> items (tx_rb d') = []" by blast
  have "length (sent w) < length (sent w')" if "sending_guard d'"
  proof -
    have "\<not> sending_guard d \<or> Release \<in> set acts"
    proof (cases "is_ok_line l")
      case True
      with r(7) have "count_list acts Release \<noteq> 0" by simp
      then show ?thesis by (simp add: count_list_0_iff)
    qed (use go in simp)
    with sw_run_waiting [OF r(6)] that show ?thesis by (simp add: sw_of_def)
  qed
  moreover have le: "length (sent w') \<le> ?n + 1" using arg_cong [OF f, of length] sub by simp
  moreover have "length (sent w') = ?n + 1" if "items (tx_rb d') = []" using arg_cong [OF f, of length] sub that by simp
  ultimately have len: "length (sent w') = ?n + 1" using a by linarith
  then have it: "items (tx_rb d') = []" using arg_cong [OF f, of length] sub by simp
  with f sub have snt: "sent w' = sent w @ [reply l]" by simp
  have "releases acts + credit (sw_of items sent d w) = 1" using r(7) go by (simp add: credit_def sw_of_def)
  with sw_run_credit [OF r(6)] len have "sending_guard d'" by (simp add: credit_def sw_of_def split: if_splits)
  with r p it snt cap d(2) show ?thesis
    by (intro exI [of _ d'] exI [of _ g'] exI [of _ w']) (simp add: client_idle_def b_ok_def)
qed

section \<open>Properties\<close>

text \<open>
  C5. No lost wake-up: over any sequence of interrupts, expiries of the running timer and sends, of
  any length and with lines of any length, whenever something is queued and the guard is down the
  transmit interrupt is pending, and whenever the handler returns the queue is empty or the guard
  is up; and whenever the guard is up its timer runs, and the expiry lowers it with the transmit
  interrupt pending. (The transmitter is eager: its interrupt, once enabled, stays pending until it
  is disabled or the FIFO is filled; a timer that was started runs until it expires; the callback
  keeps what this says, as the program's does.)
\<close>

theorem never_stalls:
  fixes call :: "('cb, 'rb, 'g, 'w) my_uart_b_call"
  assumes "b_uart_contract U (b_uart_dev conf) rx txr sent" and "b_eager_contract U Z (b_uart_dev conf) txr"
    and "guard_timer_contract U Z (b_uart_dev conf) dev armed"
    and "item_get_contract R items" and "item_put_contract R items" and "TX_BUF_WORDS K < 255"
    and "callback_awake call dev (callback d) items txr armed (TX_BUF_WORDS K)"
    and "run (timed_step K Z R U call conf dev rx sent txr armed expire) (d, g, w) evs (d', g', w')"
    and "list_all (item_ok (TX_BUF_WORDS K)) (items (tx_rb d))"
    and "if sending_guard d then armed w else items (tx_rb d) = [] \<or> txr w"
  shows "(sending_guard d' \<or> items (tx_rb d') = [] \<or> txr w') \<and>
     (evs \<noteq> [] \<and> is_interrupt (last evs) \<longrightarrow> sending_guard d' \<or> items (tx_rb d') = []) \<and>
     (sending_guard d' \<longrightarrow> armed w' \<and>
        (\<exists>w''. timed_step K Z R U call conf dev rx sent txr armed expire (d', g', w') Timeout
           (d'\<lparr>sending_guard := False\<rparr>, g', w'') \<and> txr w''))"
proof -
  have "awake items txr armed (TX_BUF_WORDS K) d w" using assms(9,10) by (auto simp: awake_def split: if_splits)
  from timed_run_awake [OF assms(1-8) this]
  have a: "awake items txr armed (TX_BUF_WORDS K) d' w'"
    and e: "evs \<noteq> [] \<and> is_interrupt (last evs) \<longrightarrow> sending_guard d' \<or> items (tx_rb d') = []" by simp_all
  from guard_times_out [OF assms(2) a] a e show ?thesis by (auto simp: awake_def)
qed

text \<open>
  C7. A lost acknowledgement never stops the queue: if nothing at all is received while the driver
  waits with its timer running, the timer expires and starts again once per queued message, each
  expiry and the interrupt it enables put the next message on the wire, in order, and leave the
  queue empty and the timer running for the last one.
\<close>

theorem queue_drains_on_timeouts:
  fixes call :: "('cb, 'rb, 'g, 'w) my_uart_b_call"
  assumes U: "b_uart_contract U (b_uart_dev conf) rx txr sent" and Z: "b_kernel_contract Z rx sent"
    and E: "b_eager_contract U Z (b_uart_dev conf) txr" and T: "guard_timer_contract U Z (b_uart_dev conf) dev armed"
    and X: "expiry_contract armed expire rx sent" and R: "item_get_contract R items" and W: "TX_BUF_WORDS K < 256"
    and cbc: "b_callback_contract call dev (callback d) rx sent items (TX_BUF_WORDS K) limit upd subm"
    and cba: "callback_awake call dev (callback d) items txr armed (TX_BUF_WORDS K)"
    and ok: "b_ok K items d" and quiet: "rx w = []" and waiting: "sending_guard d" "armed w"
  shows "\<exists>d' g' w'. run (timed_step K Z R U call conf dev rx sent txr armed expire) (d, g, w)
       (concat (replicate (length (items (tx_rb d))) [Timeout, Interrupt []])) (d', g', w') \<and>
     items (tx_rb d') = [] \<and> sent w' = sent w @ map item_msg (items (tx_rb d)) \<and> sending_guard d' \<and> armed w'"
  using cbc cba ok quiet waiting
proof (induction "length (items (tx_rb d))" arbitrary: d g w)
  case 0
  then show ?case by (intro exI [of _ d] exI [of _ g] exI [of _ w]) (simp add: run.idle)
next
  case (Suc n)
  let ?step = "timed_step K Z R U call conf dev rx sent txr armed expire"
  from Suc.hyps(2) obtain i rest where it: "items (tx_rb d) = i # rest" by (cases "items (tx_rb d)") auto
  from timed_timeout_sends [OF U Z E T X R W Suc.prems(1-3) it Suc.prems(4,6), of g]
  obtain d1 g1 w1 where a: "run ?step (d, g, w) [Timeout, Interrupt []] (d1, g1, w1)"
    "b_ok K items d1" "callback d1 = callback d" "sending_guard d1" "armed w1" "rx w1 = []"
    "map item_msg (items (tx_rb d1)) = map item_msg rest" "sent w1 = sent w @ [item_msg i]" by blast
  have n: "n = length (items (tx_rb d1))"
    using arg_cong [OF a(7), of length] Suc.hyps(2) it by simp
  have "b_callback_contract call dev (callback d1) rx sent items (TX_BUF_WORDS K) limit upd subm"
    "callback_awake call dev (callback d1) items txr armed (TX_BUF_WORDS K)"
    using Suc.prems(1,2) a(3) by simp_all
  from Suc.hyps(1) [OF n this a(2,6,4,5), of g1] obtain d' g' w' where
    b: "run ?step (d1, g1, w1) (concat (replicate n [Timeout, Interrupt []])) (d', g', w')"
    "items (tx_rb d') = []" "sent w' = sent w1 @ map item_msg (items (tx_rb d1))" "sending_guard d'" "armed w'"
    unfolding n by blast
  from run_append [OF b(1) a(1)] b a it Suc.hyps(2) [symmetric] show ?case
    by (intro exI [of _ d'] exI [of _ g'] exI [of _ w']) simp
qed

text \<open>
  C18. An acknowledgement is answered, and so never ends the exchange: a line that starts with OK
  releases the guard, and the client sends it back as it does every line. With a peer that
  acknowledges every message with such a line, short enough for its reply to fit the send buffer,
  and a transmitter that is ready as soon as its interrupt is enabled, each acknowledgement puts
  one more message on the wire, at once and without end, and the guard is up after each.
\<close>

theorem acks_never_end:
  fixes rx :: "'w \<Rightarrow> u8 list" and sent :: "'w \<Rightarrow> u8 list list" and d :: "(b_client_fn, 'rb) my_uart_b_data"
  assumes U: "b_uart_contract U (b_uart_dev conf) rx txr sent" and Z: "b_kernel_contract Z rx sent"
    and E: "b_eager_contract U Z (b_uart_dev conf) txr"
    and R: "item_get_contract R items" "item_put_contract R items" "item_space_contract R items cap" and W: "TX_BUF_WORDS K < 255"
    and junk: "length junk = 4 * TX_BUF_WORDS K" and l: "short_line K l" "is_ok_line l"
    and peer: "\<And>w. rx (peer w) = rx w @ l" "\<And>w. sent (peer w) = sent w"
    and st: "client_idle K items cap d" "sending_guard d" "rx w = []"
  shows "\<exists>d' g' w'. b_trace K Z R U (app_call K Z R U conf junk) conf dev rx sent (d, g, w)
       (concat (replicate n [Elsewhere, Interrupt [l]])) (d', g', w') \<and>
     sent w' = sent w @ replicate n (ascii ''SEND:'' @ l) \<and> sending_guard d' \<and> items (tx_rb d') = []"
  using st
proof (induction n arbitrary: d g w)
  case 0
  then show ?case by (intro exI [of _ d] exI [of _ g] exI [of _ w]) (simp add: client_idle_def)
next
  case (Suc n)
  let ?call = "app_call K Z R U conf junk"
  let ?step = "b_step K Z R U ?call conf dev rx sent"
  have w: "rx (peer w) = l" "sent (peer w) = sent w" using peer Suc.prems(3) by simp_all
  have go: "sending_guard d \<longleftrightarrow> is_ok_line l" using Suc.prems(2) l(2) by simp
  from reply_sent [OF U Z E R W junk Suc.prems(1) l(1) w(1) go, of dev g] obtain d1 g1 w1 where
    r: "uart_b_int_handler K Z R U ?call conf (b_uart_dev conf) dev (d, g, peer w) = Some (Inr (d1, g1, w1))"
      "client_idle K items cap d1" "rx w1 = []" "sending_guard d1" "sent w1 = sent (peer w) @ [reply l]" by blast
  have "?step (d, g, w) Elsewhere (d, g, peer w)" by (rule b_step.elsewhere) (rule w(2))
  moreover have "?step (d, g, peer w) (Interrupt [l]) (d1, g1, w1)"
    using short_line_frames(1) [OF l(1)] Suc.prems(1) w(1) by (intro b_step.interrupt [OF r(1)]) (simp add: client_idle_def)
  ultimately have one: "run ?step (d, g, w) [Elsewhere, Interrupt [l]] (d1, g1, w1)" by (rule run_pair)
  from Suc.IH [OF r(2,4,3), of g1] obtain d' g' w' where
    "run ?step (d1, g1, w1) (concat (replicate n [Elsewhere, Interrupt [l]])) (d', g', w')"
    "sent w' = sent w1 @ replicate n (ascii ''SEND:'' @ l)" "sending_guard d'" "items (tx_rb d') = []" by blast
  with run_append [where step = ?step, OF this(1) one] r(5) w(2) show ?case
    by (intro exI [of _ d'] exI [of _ g'] exI [of _ w']) (simp add: reply_def)
qed

section \<open>Runs of the properties\<close>

lemma board_b_eager: "b_eager_contract board_uart board_kernel (b_uart_dev conf_b) (\<lambda>w. tx_on w 2)"
  by (simp add: b_eager_contract_def conf_b_def board_uart_def board_kernel_def)

lemma board_space: "item_space_contract board_ring_items snd fst"
  by (auto simp: item_space_contract_def board_ring_items_def split: list.splits)

lemma K16_sizes: "TX_BUF_WORDS K16 < 255" "length (replicate 64 (0 :: u8)) = 4 * TX_BUF_WORDS K16"
  by (simp_all add: K16_def)

definition ok_line :: "u8 list" where "ok_line = ascii ''OK'' @ [LF]"

lemma ok_line_ok: "short_line K16 ok_line" "is_ok_line ok_line"
  by (simp_all add: short_line_def is_ok_line_def ok_line_def K16_def is_eol_def ascii_def)

definition acking_peer :: "board \<Rightarrow> board" where
  "acking_peer w = w\<lparr>rxq := (rxq w)(2 := rxq w 2 @ ok_line)\<rparr>"

lemma client_b_idle: "client_idle K16 snd fst (client_b\<lparr>sending_guard := True\<rparr>)"
  using client_b_sel by (simp add: client_idle_def wf_b_def b_pending_def K16_def)
    (simp add: client_b_def my_uart_b_data_init_def)

theorem acks_never_end_witness:
  "\<exists>d' g' w'. b_trace K16 board_kernel board_ring_items board_uart
       (app_call K16 board_kernel board_ring_items board_uart conf_b (replicate 64 0)) conf_b 1
       (\<lambda>w. rxq w 2) (\<lambda>w. fills w 2) (client_b\<lparr>sending_guard := True\<rparr>, (), board0)
       (concat (replicate 3 [Elsewhere, Interrupt [ok_line]])) (d', g', w') \<and>
     fills w' 2 = replicate 3 (ascii ''SEND:'' @ ok_line)"
proof -
  have p: "\<And>w. rxq (acking_peer w) 2 = rxq w 2 @ ok_line" "\<And>w. fills (acking_peer w) 2 = fills w 2"
    by (simp_all add: acking_peer_def)
  have r: "rxq board0 2 = []" by (simp add: board0_def)
  have f: "fills board0 2 = []" by (simp add: board0_def)
  from acks_never_end [where n = 3 and peer = acking_peer, OF board_b_uart_conf board_b_kernel board_b_eager board_get board_put board_space
      K16_sizes ok_line_ok p client_b_idle _ r, of 1 "()"] f show ?thesis by auto
qed

text \<open>The board's timer of the guard.\<close>

abbreviation board_armed :: "board \<Rightarrow> bool" where
  "board_armed w \<equiv> running w (Sending_guard_timer 1)"

lemma board_guard_timer: "guard_timer_contract board_uart board_kernel d 1 board_armed"
  by (simp add: guard_timer_contract_def board_kernel_def log_def) (simp add: board_uart_def log_def)

lemma board_expiry: "expiry_contract board_armed (board_expire (Sending_guard_timer 1)) (\<lambda>w. rxq w d) (\<lambda>w. fills w d)"
  by (simp add: expiry_contract_def keeps_def board_expire_def)

abbreviation board_timed ::
    "(b_client_fn, board_items, unit, board) my_uart_b_state \<Rightarrow> b_event \<Rightarrow>
     (b_client_fn, board_items, unit, board) my_uart_b_state \<Rightarrow> bool" where
  "board_timed \<equiv> timed_step K16 board_kernel board_ring_items board_uart
     (app_call K16 board_kernel board_ring_items board_uart conf_b (replicate 64 0)) conf_b 1
     (\<lambda>w. rxq w 2) (\<lambda>w. fills w 2) (\<lambda>w. tx_on w 2) board_armed (board_expire (Sending_guard_timer 1))"

definition waiting_board :: board where
  "waiting_board = board0\<lparr>running := (\<lambda>t. True)\<rparr>"

lemma waiting_board_sel: "rxq waiting_board 2 = []" "fills waiting_board 2 = []" "running waiting_board t"
  by (simp_all add: waiting_board_def board0_def)

theorem never_stalls_witness:
  "\<exists>d' g' w'. run board_timed (client_b\<lparr>sending_guard := True\<rparr>, (), waiting_board)
       [Elsewhere, Interrupt [ok_line]] (d', g', w') \<and> (sending_guard d' \<longrightarrow> running w' (Sending_guard_timer 1)) \<and>
     (sending_guard d' \<or> snd (tx_rb d') = [])"
proof -
  let ?call = "app_call K16 board_kernel board_ring_items board_uart conf_b (replicate 64 0)"
  let ?d = "client_b\<lparr>sending_guard := True\<rparr>"
  have w: "rxq (acking_peer waiting_board) 2 = ok_line" by (simp add: acking_peer_def waiting_board_sel)
  have g: "sending_guard ?d \<longleftrightarrow> is_ok_line ok_line" using ok_line_ok by simp
  from reply_sent [OF board_b_uart_conf board_b_kernel board_b_eager board_get board_put board_space K16_sizes
      client_b_idle ok_line_ok(1) w g, of 1 "()"] obtain d' g' w' where
    r: "uart_b_int_handler K16 board_kernel board_ring_items board_uart ?call conf_b (b_uart_dev conf_b) 1
      (?d, (), acking_peer waiting_board) = Some (Inr (d', g', w'))" by blast
  have 1: "board_timed (?d, (), waiting_board) Elsewhere (?d, (), acking_peer waiting_board)"
    by (rule timed_step.outside) (auto simp: acking_peer_def intro: b_step.elsewhere)
  have 2: "board_timed (?d, (), acking_peer waiting_board) (Interrupt [ok_line]) (d', g', w')"
    using short_line_frames(1) [OF ok_line_ok(1)] client_b_idle w
    by (intro timed_step.running b_step.interrupt [OF r]) (simp_all add: client_idle_def)
  have t: "run board_timed (?d, (), waiting_board) [Elsewhere, Interrupt [ok_line]] (d', g', w')"
    by (rule run_pair) (rule 1, rule 2)
  have C: "callback_awake ?call 1 (callback ?d) snd (\<lambda>w. tx_on w 2) board_armed (TX_BUF_WORDS K16)"
    by (rule app_call_awake [OF board_b_eager board_guard_timer board_put K16_sizes])
  have i: "list_all (item_ok (TX_BUF_WORDS K16)) (snd (tx_rb ?d))" using client_b_sel(4) by simp
  have a: "if sending_guard ?d then board_armed waiting_board else snd (tx_rb ?d) = [] \<or> tx_on waiting_board 2"
    by (simp add: waiting_board_sel)
  from never_stalls [OF board_b_uart_conf board_b_eager board_guard_timer board_get board_put K16_sizes(1) C t i a] t
  show ?thesis by (intro exI [of _ d'] exI [of _ g'] exI [of _ w']) auto
qed

text \<open>A client that has sent something, waits, and has one more message queued.\<close>

definition client_waiting :: "(b_client_fn, board_items) my_uart_b_data" where
  "client_waiting = client_b\<lparr>sending_guard := True, tx_rb := (128, [(0, 1, ascii ''SEND:Hi'' @ [0], 2)])\<rparr>"

lemma client_b_contract:
  "b_callback_contract (app_call K16 board_kernel board_ring_items board_uart conf_b (replicate 64 0)) 1 (callback client_waiting)
     (\<lambda>w. rxq w 2) (\<lambda>w. fills w 2) snd (TX_BUF_WORDS K16) 58 (\<lambda>l g. g) reply"
  using app_callback_contract [OF board_b_uart_conf board_b_kernel board_put _ K16_sizes(2), of 58 1] client_b_sel(2)
  by (simp add: client_waiting_def K16_def)

theorem queue_drains_on_timeouts_witness:
  "\<exists>d' g' w'. run board_timed (client_waiting, (), waiting_board) [Timeout, Interrupt []] (d', g', w') \<and>
     fills w' 2 = [ascii ''SEND:Hi''] \<and> running w' (Sending_guard_timer 1)"
proof -
  let ?call = "app_call K16 board_kernel board_ring_items board_uart conf_b (replicate 64 0)"
  have W: "TX_BUF_WORDS K16 < 256" by (simp add: waiting_b_sel)
  have ok: "b_ok K16 snd client_waiting"
    using client_b_idle by (simp add: client_waiting_def client_idle_def b_ok_def wf_b_def waiting_b_sel b_pending_def)
  have g: "sending_guard client_waiting" by (simp add: client_waiting_def)
  from queue_drains_on_timeouts [OF board_b_uart_conf board_b_kernel board_b_eager board_guard_timer board_expiry board_get W
      client_b_contract app_call_awake [OF board_b_eager board_guard_timer board_put K16_sizes] ok
      waiting_board_sel(1) g waiting_board_sel(3), of "()"]
  show ?thesis by (simp add: client_waiting_def waiting_board_sel waiting_b_sel(4) del: item_msg.simps) blast
qed

end
