(* ===== verification/My_Uart_B_Wired.thy ===== *)
theory My_Uart_B_Wired
  imports My_Uart_B_Progress
begin

text \<open>
  Two boards running driver B with the program's client, each one's transmit line on the other's
  receive line. Each sends back what it gets with a prefix in front, so that a line grows on
  its way to and fro until it is longer than the buffers are.
\<close>

section \<open>Two boards and a wire\<close>

text \<open>
  The states of the two, and how many of its messages each has had delivered. A step is a step of one of
  them, or the delivery of a message: \<open>deliver m w\<close> is the world \<open>w\<close> with the bytes \<open>m\<close> arrived.
\<close>

type_synonym ('cb, 'rb, 'g, 'w) wired = "(bool \<Rightarrow> ('cb, 'rb, 'g, 'w) my_uart_b_state) \<times> (bool \<Rightarrow> nat)"

datatype wired_event = On bool b_event | Delivery bool

inductive wired_step ::
    "(('cb, 'rb, 'g, 'w) my_uart_b_state \<Rightarrow> b_event \<Rightarrow> ('cb, 'rb, 'g, 'w) my_uart_b_state \<Rightarrow> bool) \<Rightarrow>
     ('w \<Rightarrow> u8 list list) \<Rightarrow> (u8 list \<Rightarrow> 'w \<Rightarrow> 'w) \<Rightarrow>
     ('cb, 'rb, 'g, 'w) wired \<Rightarrow> wired_event \<Rightarrow> ('cb, 'rb, 'g, 'w) wired \<Rightarrow> bool"
  for step sent deliver where
  on_board: "step (nodes i) e s' \<Longrightarrow> wired_step step sent deliver (nodes, n) (On i e) (nodes(i := s'), n)"
| delivery: "nodes i = (d, g, w) \<Longrightarrow> n i < length (sent w) \<Longrightarrow> nodes (\<not> i) = (d', g', w') \<Longrightarrow>
     wired_step step sent deliver (nodes, n) (Delivery i)
       (nodes(\<not> i := (d', g', deliver (sent w ! n i) w')), n(i := n i + 1))"

text \<open>What the boards do by themselves: interrupts and timers, and no other help from outside.\<close>

fun by_itself :: "wired_event \<Rightarrow> bool" where
  "by_itself (On i (Interrupt lns)) = True"
| "by_itself (On i Timeout) = True"
| "by_itself (Delivery i) = True"
| "by_itself e = False"

text \<open>One board between two messages; if it waits for an acknowledgement, its timer runs.\<close>

definition resting ::
    "my_uart_b_kconfig \<Rightarrow> ('rb \<Rightarrow> ring_item list) \<Rightarrow> ('rb \<Rightarrow> nat) \<Rightarrow> ('w \<Rightarrow> u8 list list) \<Rightarrow> ('w \<Rightarrow> bool) \<Rightarrow> nat \<Rightarrow>
     (b_client_fn, 'rb, 'g, 'w) my_uart_b_state \<Rightarrow> bool" where
  "resting K items cap sent armed n st \<longleftrightarrow>
     (case st of (d, g, w) \<Rightarrow> client_idle K items (\<lambda>rb. cap rb - 1) d \<and> n = length (sent w) \<and> (sending_guard d \<longrightarrow> armed w))"

text \<open>A line of any length but those of an acknowledgement.\<close>

definition data_line :: "my_uart_b_kconfig \<Rightarrow> u8 list \<Rightarrow> bool" where
  "data_line K l \<longleftrightarrow> l \<noteq> [] \<and> is_eol (last l) \<and> list_all (\<lambda>c. \<not> is_eol c) (butlast l) \<and>
     length l \<le> B_RX_BUF_SIZE K \<and> \<not> is_ok_line l"

lemma data_line_short: "data_line K l \<Longrightarrow> length l + 6 \<le> 4 * TX_BUF_WORDS K \<Longrightarrow> short_line K l"
  by (simp add: data_line_def short_line_def)

lemma data_line_reply:
  assumes "data_line K l" and "length l + 5 \<le> B_RX_BUF_SIZE K"
  shows "data_line K (reply l)"
  using assms by (auto simp: data_line_def reply_def is_ok_line_def ascii_def is_eol_def butlast_append)

section \<open>A line that is too long\<close>

lemma item_space_less: "item_space_contract R items cap \<Longrightarrow> item_space_contract R items (\<lambda>rb. cap rb - 1)"
  by (simp add: item_space_contract_def)

lemma end_of_line_edge:
  fixes d :: "(b_client_fn, 'rb) my_uart_b_data"
  assumes R: "item_space_contract R items cap" and W: "TX_BUF_WORDS K < 255" and junk: "length junk = 4 * TX_BUF_WORDS K"
    and len: "b_rx_data_len d \<le> length (b_rx_buf d)" "b_rx_data_len d + 5 = 4 * TX_BUF_WORDS K"
    and room: "items (tx_rb d) = []" "TX_BUF_WORDS K + 2 \<le> cap (tx_rb d)"
  shows "end_of_line K U (app_call K Z R U conf junk) conf dev (Some App_callback) (d, g, w) = Inl OOB_read"
proof -
  have "user_send_data K R U conf junk (b_rx_buf d) (b_rx_data_len d) (D, v) = Inl OOB_read" if "tx_rb D = tx_rb d"
    for D :: "(b_client_fn, 'rb) my_uart_b_data" and v
  proof -
    from user_send_data_edge [OF W junk len, of R D U conf v] obtain ret rb p v' n where
      put: "ring_buf_item_put R 0 v' p n (tx_rb D) = (ret, rb)" "unat n = TX_BUF_WORDS K + 1" and
      r: "user_send_data K R U conf junk (b_rx_buf d) (b_rx_data_len d) (D, v) =
        (if ret = - EMSGSIZE then Inr (D\<lparr>tx_rb := rb\<rparr>, v) else Inl OOB_read)" by blast
    have "items_used (items (tx_rb D)) + unat n + 1 \<le> cap (tx_rb D)" using room put(2) that by (simp add: items_used_def)
    with R have "fst (ring_buf_item_put R 0 v' p n (tx_rb D)) = 0" unfolding item_space_contract_def by blast
    with put(1) have "ret = 0" by simp
    with r show ?thesis by (simp add: EMSGSIZE_def)
  qed
  then show ?thesis
    using len(1)
    by (simp add: end_of_line_def check_sending_guard_ok app_call_def app_callback_def app_send_data_def
        my_uart_send_data_def api_b_def Let_def)
qed

lemma too_long_faults:
  fixes d :: "(b_client_fn, 'rb) my_uart_b_data" and w :: 'w
  assumes U: "b_uart_contract U (b_uart_dev conf) rx txr sent" and R: "item_space_contract R items cap"
    and W: "2 \<le> TX_BUF_WORDS K" "TX_BUF_WORDS K < 255" and junk: "length junk = 4 * TX_BUF_WORDS K"
    and st: "client_idle K items (\<lambda>rb. cap rb - 1) d" and l: "data_line K l" "\<not> length l + 6 \<le> 4 * TX_BUF_WORDS K" and w: "rx w = l"
  shows "\<exists>x \<in> {OOB_read, OOB_write}. uart_b_int_handler K Z R U (app_call K Z R U conf junk) conf (b_uart_dev conf) dev (d, g, w) = Some (Inl x)"
proof -
  let ?call = "app_call K Z R U conf junk"
  obtain s e where se: "l = s @ [e]" using l(1) by (cases l rule: rev_cases) (auto simp: data_line_def)
  with l(1) have line: "rx w = s @ e # []" "list_all (\<lambda>c. \<not> is_eol c) s" "is_eol e" "length s < B_RX_BUF_SIZE K"
    by (simp_all add: data_line_def w)
  from st have d: "wf_b K d" "callback d = Some App_callback" "b_pending d = []" "items (tx_rb d) = []" "TX_BUF_WORDS K + 2 \<le> cap (tx_rb d)"
    by (auto simp: client_idle_def)
  show ?thesis
  proof (cases "length l + 5 = 4 * TX_BUF_WORDS K")
    case True
    have "uart_b_int_handler K Z R U ?call conf (b_uart_dev conf) dev (d, g, w) = Some (Inl OOB_read)"
    proof (rule uart_b_int_handler_line_fault [OF U d(1-3) line])
      fix D :: "(b_client_fn, 'rb) my_uart_b_data" and g v
      assume D: "b_rx_data_len D = length s + 1" "length (b_rx_buf D) = B_RX_BUF_SIZE K" "tx_rb D = tx_rb d"
      show "end_of_line K U ?call conf dev (Some App_callback) (D, g, v) = Inl OOB_read"
        by (rule end_of_line_edge [OF R W(2) junk]) (use D d(4,5) True se line(4) in simp_all)
    qed
    then show ?thesis by simp
  next
    case False
    have "uart_b_int_handler K Z R U ?call conf (b_uart_dev conf) dev (d, g, w) = Some (Inl OOB_write)"
    proof (rule uart_b_int_handler_line_fault [OF U d(1-3) line])
      fix D :: "(b_client_fn, 'rb) my_uart_b_data" and g v
      assume "b_rx_data_len D = length s + 1" "length (b_rx_buf D) = B_RX_BUF_SIZE K"
      with l(2) False se line(4) show "end_of_line K U ?call conf dev (Some App_callback) (D, g, v) = Inl OOB_write"
        by (intro end_of_line_long [OF junk W(1)]) auto
    qed
    then show ?thesis by simp
  qed
qed

section \<open>To and fro\<close>

lemma on_board_run:
  "run step s es s' \<Longrightarrow> s = nodes i \<Longrightarrow> run (wired_step step sent deliver) (nodes, n) (map (On i) es) (nodes(i := s'), n)"
proof (induction rule: run.induct)
  case (idle s)
  then show ?case by simp
next
  case (extend s es t e u)
  have 1: "run (wired_step step sent deliver) (nodes, n) (map (On i) es) (nodes(i := t), n)" by (rule extend.IH [OF extend.prems])
  have "wired_step step sent deliver (nodes(i := t), n) (On i e) ((nodes(i := t))(i := u), n)"
    by (rule wired_step.on_board) (simp add: extend.hyps(2))
  then have 2: "wired_step step sent deliver (nodes(i := t), n) (On i e) (nodes(i := u), n)" by (simp only: fun_upd_upd)
  show ?case unfolding map_append list.map by (rule run.extend) (rule 1, rule 2)
qed

text \<open>A board at rest gets ready to send, if need be by its timer.\<close>

lemma guard_comes_down:
  assumes U: "b_uart_contract U (b_uart_dev conf) rx txr sent" and X: "expiry_contract armed expire rx sent"
    and st: "resting K items cap sent armed n (d, g, w)"
  shows "\<exists>es d1 w1. run (timed_step K Z R U call conf dev rx sent txr armed expire) (d, g, w) es (d1, g, w1) \<and>
     list_all (\<lambda>e. e = Timeout) es \<and> resting K items cap sent armed n (d1, g, w1) \<and> \<not> sending_guard d1 \<and> rx w1 = rx w"
proof (cases "sending_guard d")
  case False
  with st show ?thesis by (intro exI [of _ "[]"] exI [of _ d] exI [of _ w]) simp
next
  case True
  let ?d = "d\<lparr>sending_guard := False\<rparr>" and ?w = "uart_irq_tx_enable U (b_uart_dev conf) (expire w)"
  have k: "rx ?w = rx w" "sent ?w = sent w"
    using U X unfolding b_uart_contract_def expiry_contract_def keeps_def by simp_all
  have "b_step K Z R U call conf dev rx sent (d, g, expire w) Timeout (?d, g, ?w)"
    by (rule b_step.timeout) (simp add: sending_guard_timer_expired_function_def)
  moreover have "armed w" using st True by (simp add: resting_def)
  ultimately have "timed_step K Z R U call conf dev rx sent txr armed expire (d, g, w) Timeout (?d, g, ?w)"
    by (blast intro: timed_step.expiry)
  from run_single [where step = "timed_step K Z R U call conf dev rx sent txr armed expire", OF this] k st show ?thesis
    by (intro exI [of _ "[Timeout]"] exI [of _ ?d] exI [of _ ?w])
      (simp add: resting_def client_idle_def wf_b_def b_pending_def)
qed

lemma deliver_to:
  assumes "nodes i = (d, g, w)" and "sent w = ms @ [m]" and "n i = length ms" and "nodes (\<not> i) = (d', g', w')"
  shows "wired_step step sent deliver (nodes, n) (Delivery i) (nodes(\<not> i := (d', g', deliver m w')), n(i := n i + 1))"
  using wired_step.delivery [OF assms(1) _ assms(4), of n sent step deliver] assms(2,3) by simp

lemma line_grows:
  fixes rx :: "'w \<Rightarrow> u8 list" and sent :: "'w \<Rightarrow> u8 list list" and nodes :: "bool \<Rightarrow> (b_client_fn, 'rb, unit, 'w) my_uart_b_state"
  assumes U: "b_uart_contract U (b_uart_dev conf) rx txr sent" and Z: "b_kernel_contract Z rx sent"
    and E: "b_eager_contract U Z (b_uart_dev conf) txr" and T: "guard_timer_contract U Z (b_uart_dev conf) dev armed"
    and X: "expiry_contract armed expire rx sent"
    and R: "item_get_contract R items" "item_put_contract R items" "item_space_contract R items cap"
    and W: "2 \<le> TX_BUF_WORDS K" "TX_BUF_WORDS K < 255" "4 * TX_BUF_WORDS K \<le> B_RX_BUF_SIZE K + 1"
    and junk: "length junk = 4 * TX_BUF_WORDS K"
    and wire: "\<And>m w. rx (deliver m w) = rx w @ m" "\<And>m w. sent (deliver m w) = sent w" "\<And>m w. armed (deliver m w) = armed w"
  shows "nodes i = (d, g, w) \<Longrightarrow> resting K items cap sent armed (n i) (d, g, w) \<Longrightarrow> data_line K (rx w) \<Longrightarrow> \<not> sending_guard d \<Longrightarrow>
     nodes (\<not> i) = (d', g', w') \<Longrightarrow> resting K items cap sent armed (n (\<not> i)) (d', g', w') \<Longrightarrow> rx w' = [] \<Longrightarrow>
     \<exists>evs nodes' n' j d1 g1 w1 x. x \<in> {OOB_read, OOB_write} \<and>
       run (wired_step (timed_step K Z R U (app_call K Z R U conf junk) conf dev rx sent txr armed expire) sent deliver) (nodes, n) evs (nodes', n') \<and>
       list_all by_itself evs \<and> nodes' j = (d1, g1, w1) \<and>
       uart_b_int_handler K Z R U (app_call K Z R U conf junk) conf (b_uart_dev conf) dev (d1, g1, w1) = Some (Inl x)"
proof (induction "4 * TX_BUF_WORDS K - length (rx w)" arbitrary: i nodes n d g w d' g' w' rule: less_induct)
  case less
  let ?call = "app_call K Z R U conf junk"
  let ?step = "timed_step K Z R U ?call conf dev rx sent txr armed expire"
  let ?wired = "wired_step ?step sent deliver"
  have st: "client_idle K items (\<lambda>rb. cap rb - 1) d" "n i = length (sent w)"
    using less.prems(2) by (simp_all add: resting_def)
  show ?case
  proof (cases "length (rx w) + 6 \<le> 4 * TX_BUF_WORDS K")
    case False
    from too_long_faults [OF U R(3) W(1,2) junk st(1) less.prems(3) False refl, of Z dev g] less.prems(1) show ?thesis
      by (intro exI [of _ "[]"] exI [of _ nodes] exI [of _ n] exI [of _ i]) auto
  next
    case True
    let ?l = "rx w"
    have l: "short_line K ?l" "\<not> is_ok_line ?l" using data_line_short [OF less.prems(3) True] less.prems(3) by (simp_all add: data_line_def)
    then have go: "sending_guard d \<longleftrightarrow> is_ok_line ?l" using less.prems(4) by simp
    have W': "TX_BUF_WORDS K < 255" "TX_BUF_WORDS K < 256" using W(2) by simp_all
    from reply_sent [OF U Z E R(1,2) item_space_less [OF R(3)] W'(1) junk st(1) l(1) refl go, of dev g] obtain d1 g1 w1 where
      r: "uart_b_int_handler K Z R U ?call conf (b_uart_dev conf) dev (d, g, w) = Some (Inr (d1, g1, w1))"
        "client_idle K items (\<lambda>rb. cap rb - 1) d1" "rx w1 = []" "sending_guard d1" "sent w1 = sent w @ [reply ?l]" by blast
    have "awake items txr armed (TX_BUF_WORDS K) d w" using st(1) less.prems(4) by (simp add: awake_def client_idle_def)
    from uart_b_int_handler_awake [OF U E T R(1) W'(2) app_call_awake [OF E T R(2) W'(1) junk] r(1) this] r(4)
    have arm: "armed w1" by (simp add: awake_def)
    from guard_comes_down [OF U X less.prems(6), of Z R ?call dev] obtain es d2 w2 where
      o: "run ?step (d', g', w') es (d2, g', w2)" "list_all (\<lambda>e. e = Timeout) es"
        "resting K items cap sent armed (n (\<not> i)) (d2, g', w2)" "\<not> sending_guard d2" "rx w2 = rx w'" by blast
    let ?n1 = "nodes(i := (d1, g1, w1))" and ?w3 = "deliver (reply ?l) w2"
    let ?n2 = "?n1(\<not> i := (d2, g', w2))"
    let ?n3 = "?n2(\<not> i := (d2, g', ?w3))" and ?m = "n(i := n i + 1)"
    let ?evs = "map (On i) [Interrupt [?l]] @ map (On (\<not> i)) es @ [Delivery i]"
    have "?step (d, g, w) (Interrupt [?l]) (d1, g1, w1)"
      using short_line_frames(1) [OF l(1)] st(1)
      by (intro timed_step.running b_step.interrupt [OF r(1)]) (simp_all add: client_idle_def)
    then have 1: "run ?wired (nodes, n) (map (On i) [Interrupt [?l]]) (?n1, n)"
      using less.prems(1) by (intro on_board_run [where step = ?step, OF run_single]) simp_all
    have 2: "run ?wired (?n1, n) (map (On (\<not> i)) es) (?n2, n)"
      by (rule on_board_run [where step = ?step, OF o(1)]) (simp add: less.prems(5))
    have 3: "?wired (?n2, n) (Delivery i) (?n3, ?m)"
      by (rule deliver_to [where sent = sent and w = w1 and ms = "sent w" and d = d1 and g = g1, OF _ r(5)]) (simp_all add: st(2))
    have e: "run ?wired (nodes, n) ?evs (?n3, ?m)"
      by (rule run_append [where step = ?wired, OF run.extend 1]) (rule 2, rule 3)
    have rx3: "rx ?w3 = reply ?l" using o(5) less.prems(7) wire(1) by simp
    have "4 * TX_BUF_WORDS K - length (rx ?w3) < 4 * TX_BUF_WORDS K - length ?l"
      using True unfolding rx3 by (simp add: reply_def)
    moreover have "?n3 (\<not> i) = (d2, g', ?w3)" "?n3 (\<not> \<not> i) = (d1, g1, w1)" by simp_all
    moreover have "resting K items cap sent armed (?m (\<not> i)) (d2, g', ?w3)" "resting K items cap sent armed (?m (\<not> \<not> i)) (d1, g1, w1)"
      using o(3) st(2) r(2,5) arm wire(2,3) by (simp_all add: resting_def)
    moreover have "data_line K (rx ?w3)"
      unfolding rx3 by (rule data_line_reply [OF less.prems(3)]) (use True W(3) in linarith)
    ultimately obtain evs nodes' n' j d4 g4 w4 x where x: "x \<in> {OOB_read, OOB_write}"
      "run ?wired (?n3, ?m) evs (nodes', n')" "list_all by_itself evs" "nodes' j = (d4, g4, w4)"
      "uart_b_int_handler K Z R U ?call conf (b_uart_dev conf) dev (d4, g4, w4) = Some (Inl x)"
      using less.hyps [of ?w3 ?n3 "\<not> i" d2 g' ?m d1 g1 w1] r(3) o(4) by blast
    have "list_all by_itself ?evs" using o(2) by (auto simp: list_all_iff)
    with run_append [where step = ?wired, OF x(2) e] x show ?thesis
      by (intro exI [of _ "?evs @ evs"] exI [of _ nodes'] exI [of _ n']
          exI [of _ j] exI [of _ d4] exI [of _ g4] exI [of _ w4] exI [of _ x]) simp
  qed
qed

section \<open>Properties\<close>

text \<open>
  C9. Two such boards on one wire crash, whatever is typed: with a receive buffer no smaller than the
  send buffer, as the defaults have it, any one line but an acknowledgement that reaches one of
  two boards at rest, ready to send, goes to and fro between them five bytes longer each time, by
  interrupts and the expiries of the timers that the driver itself has started and nothing else,
  until the interrupt handler of one of them reads or writes beyond its send buffer.
\<close>

theorem wired_boards_overflow:
  fixes rx :: "'w \<Rightarrow> u8 list" and sent :: "'w \<Rightarrow> u8 list list" and nodes :: "bool \<Rightarrow> (b_client_fn, 'rb, unit, 'w) my_uart_b_state"
  assumes "b_uart_contract U (b_uart_dev conf) rx txr sent" and "b_kernel_contract Z rx sent"
    and "b_eager_contract U Z (b_uart_dev conf) txr" and "guard_timer_contract U Z (b_uart_dev conf) dev armed"
    and "expiry_contract armed expire rx sent"
    and "item_get_contract R items" and "item_put_contract R items" and "item_space_contract R items cap"
    and "2 \<le> TX_BUF_WORDS K" and "TX_BUF_WORDS K < 255" and "4 * TX_BUF_WORDS K \<le> B_RX_BUF_SIZE K + 1"
    and "length junk = 4 * TX_BUF_WORDS K"
    and "\<And>m w. rx (deliver m w) = rx w @ m" and "\<And>m w. sent (deliver m w) = sent w"
    and "\<And>m w. armed (deliver m w) = armed w"
    and "nodes i = (d, g, w)" and "resting K items cap sent armed (n i) (nodes i)" and "data_line K (rx w)" and "\<not> sending_guard d"
    and "nodes (\<not> i) = (d', g', w')" and "resting K items cap sent armed (n (\<not> i)) (nodes (\<not> i))" and "rx w' = []"
  shows "\<exists>evs nodes' n' j d1 g1 w1 x.
     run (wired_step (timed_step K Z R U (app_call K Z R U conf junk) conf dev rx sent txr armed expire) sent deliver)
       (nodes, n) evs (nodes', n') \<and>
     list_all by_itself evs \<and> nodes' j = (d1, g1, w1) \<and> x \<in> {OOB_read, OOB_write} \<and>
     uart_b_int_handler K Z R U (app_call K Z R U conf junk) conf (b_uart_dev conf) dev (d1, g1, w1) = Some (Inl x)"
proof -
  have "resting K items cap sent armed (n i) (d, g, w)" "resting K items cap sent armed (n (\<not> i)) (d', g', w')"
    using assms(16,17,20,21) by simp_all
  from line_grows [OF assms(1-16) this(1) assms(18-20) this(2) assms(22)] show ?thesis by blast
qed

section \<open>A run of the property\<close>

text \<open>One resting board is sent \<^verbatim>\<open>Hi\<close> by a terminal.\<close>

definition board_wire :: "u8 list \<Rightarrow> board \<Rightarrow> board" where
  "board_wire m w = w\<lparr>rxq := (rxq w)(2 := rxq w 2 @ m)\<rparr>"

definition two_boards :: "bool \<Rightarrow> (b_client_fn, board_items, unit, board) my_uart_b_state" where
  "two_boards i = (client_b, (), if i then board_rx 2 [72, 105, LF] else board0)"

theorem wired_boards_overflow_witness:
  "\<exists>evs nodes' n' j d1 g1 w1 x.
     run (wired_step board_timed (\<lambda>w. fills w 2) board_wire) (two_boards, (\<lambda>i. 0)) evs (nodes', n') \<and>
     list_all by_itself evs \<and> nodes' j = (d1, g1, w1) \<and> x \<in> {OOB_read, OOB_write} \<and>
     uart_b_int_handler K16 board_kernel board_ring_items board_uart
       (app_call K16 board_kernel board_ring_items board_uart conf_b (replicate 64 0)) conf_b (b_uart_dev conf_b) 1 (d1, g1, w1) = Some (Inl x)"
proof (rule wired_boards_overflow [OF board_b_uart_conf board_b_kernel board_b_eager board_guard_timer board_expiry
    board_get board_put board_space
    _ K16_sizes(1) _ K16_sizes(2), where i = True and d = client_b and d' = client_b and g = "()" and g' = "()" and
    w = "board_rx 2 [72, 105, LF]" and w' = board0])
  have "client_idle K16 snd (\<lambda>rb. fst rb - 1) client_b" "\<not> sending_guard client_b"
    using client_b_sel by (simp_all add: client_idle_def K16_def) (simp_all add: client_b_def my_uart_b_data_init_def)
  then show "resting K16 snd fst (\<lambda>w. fills w 2) board_armed 0 (two_boards True)"
    "resting K16 snd fst (\<lambda>w. fills w 2) board_armed 0 (two_boards (\<not> True))"
    by (simp_all add: resting_def two_boards_def board_rx_def board0_def)
  show "data_line K16 (rxq (board_rx 2 [72, 105, LF]) 2)"
    by (simp add: data_line_def board_rx_def is_eol_def is_ok_line_def K16_def ascii_def)
  show "\<not> sending_guard client_b" by (simp add: client_b_def my_uart_b_data_init_def)
qed (simp_all add: board_wire_def two_boards_def board0_def K16_def)

end
