(* ===== verification/Echo_Bot.thy ===== *)
theory Echo_Bot
  imports Board Framing Queue_Thread
begin

text \<open>
  The echo bot, \<^verbatim>\<open>src/main_echo_bot.c\<close>: an interrupt handler collects a line and puts it in
  a message queue, a thread takes messages out and prints them back.
\<close>

section \<open>State\<close>

definition MSG_SIZE :: nat where "MSG_SIZE = 32"

text \<open>
  The program's static variables. \<open>rx_buf_pos\<close> is an \<^verbatim>\<open>int\<close> of the program that is only
  incremented and reset to 0, here a \<open>nat\<close>.
\<close>

record 'q echo =
  e_rx_buf :: "u8 list"
  rx_buf_pos :: nat
  uart_msgq :: 'q

definition echo_init :: "'q \<Rightarrow> 'q echo" where
  "echo_init q = \<lparr>e_rx_buf = replicate MSG_SIZE 0, rx_buf_pos = 0, uart_msgq = q\<rparr>"

section \<open>The interrupt handler\<close>

definition echo_char :: "(u8 list, 'q) msgq_api \<Rightarrow> u8 \<Rightarrow> 'q echo \<Rightarrow> 'q echo checked" where
  "echo_char M c e =
     (if (c = LF \<or> c = CR) \<and> rx_buf_pos e > 0 then
        sbind (store (rx_buf_pos e) 0 (e_rx_buf e)) (\<lambda>buf.
        Inr \<lparr>e_rx_buf = buf, rx_buf_pos = 0, uart_msgq = snd (k_msgq_put M buf (uart_msgq e))\<rparr>)
      else if rx_buf_pos e < MSG_SIZE - 1 then
        sbind (store (rx_buf_pos e) c (e_rx_buf e)) (\<lambda>buf.
        Inr (e\<lparr>e_rx_buf := buf, rx_buf_pos := rx_buf_pos e + 1\<rparr>))
      else Inr e)"

text \<open>
  \<open>c\<close> is declared outside the loop and keeps its value from the last pass when a read
  yields nothing; before the first read it has none.
\<close>

definition echo_loop ::
    "(u8 list, 'q) msgq_api \<Rightarrow> 'w uart_api \<Rightarrow> dev \<Rightarrow> u8 option \<times> 'q echo \<times> 'w \<Rightarrow>
     (u8 option \<times> 'q echo \<times> 'w) outcome" where
  "echo_loop M U uart =
     whileM
       (\<lambda>(c, e, w). case uart_irq_rx_ready U uart w of (r, w1) \<Rightarrow> (r \<noteq> 0, c, e, w1))
       (\<lambda>(c, e, w). case uart_fifo_read U uart 1 w of (n, bs, w1) \<Rightarrow>
          let c1 = (case bs of [] \<Rightarrow> c | b # _ \<Rightarrow> Some b)
          in Some (case c1 of None \<Rightarrow> Inl Uninit_read
                   | Some b \<Rightarrow> sbind (echo_char M b e) (\<lambda>e1. Inr (c1, e1, w1))))"

definition serial_cb ::
    "(u8 list, 'q) msgq_api \<Rightarrow> 'w uart_api \<Rightarrow> dev \<Rightarrow> 'q echo \<times> 'w \<Rightarrow> ('q echo \<times> 'w) outcome" where
  "serial_cb M U uart st =
     (case st of (e, w) \<Rightarrow>
      case uart_irq_update U uart w of (r, w1) \<Rightarrow>
        if r = 0 then Some (Inr (e, w1))
        else obind (echo_loop M U uart (None, e, w1)) (\<lambda>(c, e2, w2). Some (Inr (e2, w2))))"

section \<open>The thread\<close>

definition print_uart :: "'w uart_api \<Rightarrow> dev \<Rightarrow> u8 list \<Rightarrow> 'w \<Rightarrow> 'w checked" where
  "print_uart U uart buf w =
     sbind (cstr buf) (\<lambda>s. Inr (fold (\<lambda>i w. uart_poll_out U uart (buf ! i) w) [0..<length s] w))"

definition c_string :: "u8 list \<Rightarrow> u8 list" where
  "c_string s = s @ [0]"

definition greeting1 :: "u8 list" where
  "greeting1 = ascii ''Hello! I'm your echo bot.'' @ [CR, LF]"

definition greeting2 :: "u8 list" where
  "greeting2 = ascii ''Tell me something and press enter:'' @ [CR, LF]"

definition echo_prefix :: "u8 list" where
  "echo_prefix = ascii ''Echo_xxx: ''"

text \<open>The condition of the thread's loop takes a message; its body prints it.\<close>

definition echo_take ::
    "(u8 list, 'q) msgq_api \<Rightarrow> u8 list \<times> 'q \<times> 'w \<Rightarrow> bool \<times> u8 list \<times> 'q \<times> 'w" where
  "echo_take M st =
     (case st of (tx_buf, q, w) \<Rightarrow>
      case k_msgq_get M q of (r, m, q1) \<Rightarrow> (r = 0, if r = 0 then m else tx_buf, q1, w))"

definition echo_print ::
    "'w uart_api \<Rightarrow> dev \<Rightarrow> u8 list \<times> 'q \<times> 'w \<Rightarrow> (u8 list \<times> 'q \<times> 'w) checked" where
  "echo_print U uart st =
     (case st of (tx_buf, q, w) \<Rightarrow>
      sbind (print_uart U uart (c_string echo_prefix) w) (\<lambda>w1.
      sbind (print_uart U uart tx_buf w1) (\<lambda>w2.
      sbind (print_uart U uart (c_string [CR, LF]) w2) (\<lambda>w3.
      Inr (tx_buf, q, w3)))))"

definition echo_serve ::
    "(u8 list, 'q) msgq_api \<Rightarrow> 'w uart_api \<Rightarrow> dev \<Rightarrow> u8 list \<times> 'q \<times> 'w \<Rightarrow> (u8 list \<times> 'q \<times> 'w) outcome" where
  "echo_serve M U uart = whileM (echo_take M) (\<lambda>st. Some (echo_print U uart st))"

text \<open>\<open>tx_buf\<close> is what the thread's stack array holds before the first message.\<close>

definition thread_echo_bot ::
    "'w kernel_api \<Rightarrow> (u8 list, 'q) msgq_api \<Rightarrow> 'w uart_api \<Rightarrow> dev \<Rightarrow> u8 list \<Rightarrow> 'q \<times> 'w \<Rightarrow> ('q \<times> 'w) outcome" where
  "thread_echo_bot Z M U uart tx_buf st =
     (case st of (q, w) \<Rightarrow>
      if \<not> device_is_ready Z uart w then Some (Inr (q, printk Z (ascii ''UART device not found!'') w))
      else
        let w1 = uart_irq_callback_user_data_set U uart Serial_cb NULL_ptr w;
            w2 = uart_irq_rx_enable U uart w1
        in obind (Some (print_uart U uart (c_string greeting1) w2)) (\<lambda>w3.
           obind (Some (print_uart U uart (c_string greeting2) w3)) (\<lambda>w4.
           obind (echo_serve M U uart (tx_buf, q, w4)) (\<lambda>(tx, q5, w5). Some (Inr (q5, w5))))))"

definition ECHO_STACKSIZE :: nat where [simp]: "ECHO_STACKSIZE = 1024"
definition ECHO_PRIORITY :: nat where [simp]: "ECHO_PRIORITY = 7"

definition main_echo_bot :: "'w kernel_api \<Rightarrow> 'w \<Rightarrow> 'w" where
  "main_echo_bot Z w =
     k_thread_start Z Thread_echo_bot_data
       (k_thread_create Z Thread_echo_bot_data Thread_echo_bot ECHO_STACKSIZE ECHO_PRIORITY w)"

section \<open>Collecting lines\<close>

definition echo_step :: "nat \<Rightarrow> u8 \<Rightarrow> u8 list \<Rightarrow> u8 list \<times> u8 list list" where
  "echo_step n c acc =
     (if (c = LF \<or> c = CR) \<and> acc \<noteq> [] then ([], [acc])
      else if length acc < n - 1 then (acc @ [c], []) else (acc, []))"

interpretation echo_framer: framer "echo_step n" "\<lambda>acc. length acc \<le> n - 1" for n
  by unfold_locales (auto simp: echo_step_def)

definition e_pending :: "'q echo \<Rightarrow> u8 list" where
  "e_pending e = take (rx_buf_pos e) (e_rx_buf e)"

definition wf_echo :: "'q echo \<Rightarrow> bool" where
  "wf_echo e \<longleftrightarrow> length (e_rx_buf e) = MSG_SIZE \<and> rx_buf_pos e \<le> MSG_SIZE - 1"

text \<open>The text of a message: what printing it prints.\<close>

definition msg_text :: "u8 list \<Rightarrow> u8 list" where
  "msg_text m = takeWhile (\<lambda>c. c \<noteq> 0) m"

text \<open>A message as the handler queues it: full size, with a NUL.\<close>

definition msg_ok :: "u8 list \<Rightarrow> bool" where
  "msg_ok m \<longleftrightarrow> length m = MSG_SIZE \<and> 0 \<in> set m"

lemma msg_ok_cstr: "msg_ok m \<Longrightarrow> cstr m = Inr (msg_text m)"
  by (simp add: msg_ok_def msg_text_def cstr_def)

lemma terminated_text:
  assumes "i < length buf"
  shows "msg_text (buf[i := 0]) = msg_text (take i buf)"
proof -
  have "buf[i := 0] = take i buf @ 0 # drop (Suc i) buf" using assms by (rule upd_conv_take_nth_drop)
  then show ?thesis by (simp add: msg_text_def takeWhile_append takeWhile_eq_all_conv [THEN iffD2])
qed

lemma echo_char_step:
  assumes M: "msgq_put_contract M msgs cap" and wf: "wf_echo e" and ok: "list_all msg_ok (msgs (uart_msgq e))"
  shows "\<exists>e'. echo_char M c e = Inr e' \<and> wf_echo e' \<and> list_all msg_ok (msgs (uart_msgq e')) \<and>
     (e_pending e', map msg_text (msgs (uart_msgq e'))) =
       fpush (echo_step MSG_SIZE) (\<lambda>l. put_upto cap (msg_text l)) c (e_pending e, map msg_text (msgs (uart_msgq e)))"
proof -
  let ?n = "rx_buf_pos e"
  have n: "?n < length (e_rx_buf e)" "length (e_rx_buf e) = 32" "?n \<le> 31"
    using wf by (auto simp: wf_echo_def MSG_SIZE_def)
  have p: "length (e_pending e) = ?n" "e_pending e = [] \<longleftrightarrow> ?n = 0"
    using n by (auto simp: e_pending_def)
  consider (line) "c = LF \<or> c = CR" "?n > 0" | (char) "\<not> ((c = LF \<or> c = CR) \<and> ?n > 0)" "?n < 31"
    | (full) "\<not> ((c = LF \<or> c = CR) \<and> ?n > 0)" "\<not> ?n < 31" by metis
  then show ?thesis
  proof cases
    case line
    let ?buf = "(e_rx_buf e)[?n := 0]"
    have m: "msg_ok ?buf" "msg_text ?buf = msg_text (e_pending e)"
      using n terminated_text [of ?n "e_rx_buf e"]
      by (simp_all add: msg_ok_def MSG_SIZE_def e_pending_def set_update_memI)
    from line n have "echo_char M c e = Inr \<lparr>e_rx_buf = ?buf, rx_buf_pos = 0,
        uart_msgq = snd (k_msgq_put M ?buf (uart_msgq e))\<rparr>"
      by (simp add: echo_char_def store_ok)
    with line n p m ok show ?thesis
      by (auto simp: wf_echo_def MSG_SIZE_def msgq_put_contractD [OF M] put_upto_def
          fpush_def echo_step_def e_pending_def)
  next
    case char
    then have "echo_char M c e = Inr (e\<lparr>e_rx_buf := (e_rx_buf e)[?n := c], rx_buf_pos := ?n + 1\<rparr>)"
      using n by (auto simp: echo_char_def store_ok MSG_SIZE_def)
    with char n p ok show ?thesis
      by (auto simp: wf_echo_def MSG_SIZE_def fpush_def echo_step_def e_pending_def)
  next
    case full
    then have "echo_char M c e = Inr e" by (auto simp: echo_char_def MSG_SIZE_def)
    with full n p ok wf show ?thesis
      by (auto simp: fpush_def echo_step_def MSG_SIZE_def)
  qed
qed

lemma serial_cb_run:
  fixes rx :: "'w \<Rightarrow> u8 list" and e :: "'q echo"
  assumes U: "fifo_uart_contract U uart rx \<alpha>" and up: "\<And>w. fst (uart_irq_update U uart w) \<noteq> 0"
    and M: "msgq_put_contract M msgs cap" and wf: "wf_echo e" and ok: "list_all msg_ok (msgs (uart_msgq e))"
  shows "\<exists>e' w'. serial_cb M U uart (e, w) = Some (Inr (e', w')) \<and>
     wf_echo e' \<and> list_all msg_ok (msgs (uart_msgq e')) \<and> rx w' = [] \<and> \<alpha> w' = \<alpha> w \<and>
     e_pending e' = residue (echo_step MSG_SIZE) (rx w) (e_pending e) \<and>
     map msg_text (msgs (uart_msgq e')) =
       fold (\<lambda>l. put_upto cap (msg_text l)) (frames (echo_step MSG_SIZE) (rx w) (e_pending e))
         (map msg_text (msgs (uart_msgq e)))"
proof -
  let ?w1 = "snd (uart_irq_update U uart w)"
  let ?P = "\<lambda>(c :: u8 option, e :: 'q echo, v :: 'w). wf_echo e \<and> list_all msg_ok (msgs (uart_msgq e)) \<and> \<alpha> v = \<alpha> w"
  let ?inp = "\<lambda>(c :: u8 option, e :: 'q echo, v :: 'w). rx v"
  let ?obs = "\<lambda>(c :: u8 option, e :: 'q echo, v :: 'w). (e_pending e, map msg_text (msgs (uart_msgq e)))"
  let ?f = "fpush (echo_step MSG_SIZE) (\<lambda>l. put_upto cap (msg_text l))"
  from U have rr: "rx_ready_contract U uart rx \<alpha>" and fr: "fifo_read_contract U uart rx \<alpha>"
    and w1: "rx ?w1 = rx w" "\<alpha> ?w1 = \<alpha> w"
    by (simp_all add: fifo_uart_contract_def query_contract_def)
  have "\<exists>s'. echo_loop M U uart (None, e, ?w1) = Some (Inr s') \<and> ?P s' \<and> ?inp s' = [] \<and>
      ?obs s' = fold ?f (?inp (None, e, ?w1)) (?obs (None, e, ?w1))"
    unfolding echo_loop_def
  proof (rule whileM_drain [where P = ?P and inp = ?inp and obs = ?obs and f = ?f])
    show "?P (None, e, ?w1)" using wf ok w1 by simp
  next
    fix s assume P: "?P s" and i: "?inp s = []"
    obtain c e v where s: "s = (c, e, v)" by (cases s)
    obtain r v1 where q: "uart_irq_rx_ready U uart v = (r, v1)" by (cases "uart_irq_rx_ready U uart v")
    from rx_ready_contractD [OF rr q] s i P show
      "\<exists>s1. (case s of (c, e, w) \<Rightarrow> case uart_irq_rx_ready U uart w of (r, w1) \<Rightarrow> (r \<noteq> 0, c, e, w1)) = (False, s1) \<and>
         ?P s1 \<and> ?inp s1 = [] \<and> ?obs s1 = ?obs s"
      by (auto simp: q)
  next
    fix s b bs assume P: "?P s" and i: "?inp s = b # bs"
    obtain c e v where s: "s = (c, e, v)" by (cases s)
    obtain r v1 where q: "uart_irq_rx_ready U uart v = (r, v1)" by (cases "uart_irq_rx_ready U uart v")
    from rx_ready_contractD [OF rr q] s i have v1: "r \<noteq> 0" "rx v1 = b # bs" "\<alpha> v1 = \<alpha> v" by simp_all
    from fr v1(2) obtain v2 where v2: "uart_fifo_read U uart 1 v1 = (1, [b], v2)" "rx v2 = bs" "\<alpha> v2 = \<alpha> v1"
      by (rule fifo_read_contractD)
    from P s have "wf_echo e" "list_all msg_ok (msgs (uart_msgq e))" by simp_all
    from echo_char_step [OF M this, of b] obtain e' where
      r: "echo_char M b e = Inr e'" "wf_echo e'" "list_all msg_ok (msgs (uart_msgq e'))"
      "(e_pending e', map msg_text (msgs (uart_msgq e'))) = ?f b (?obs s)" by (auto simp: s)
    show "\<exists>s1 s2. (case s of (c, e, w) \<Rightarrow> case uart_irq_rx_ready U uart w of (r, w1) \<Rightarrow> (r \<noteq> 0, c, e, w1)) = (True, s1) \<and>
        (case s1 of (c, e, w) \<Rightarrow> case uart_fifo_read U uart 1 w of (n, bs, w1) \<Rightarrow>
           let c1 = case bs of [] \<Rightarrow> c | b # x \<Rightarrow> Some b
           in Some (case c1 of None \<Rightarrow> Inl Uninit_read
                    | Some b \<Rightarrow> sbind (echo_char M b e) (\<lambda>e1. Inr (c1, e1, w1)))) = Some (Inr s2) \<and>
        ?P s2 \<and> ?inp s2 = bs \<and> ?obs s2 = ?f b (?obs s)"
      using P v1 v2 r by (intro exI [of _ "(c, e, v1)"] exI [of _ "(Some b, e', v2)"]) (simp add: s q)
  qed
  then obtain c' e' w' where "echo_loop M U uart (None, e, ?w1) = Some (Inr (c', e', w'))"
    "wf_echo e'" "list_all msg_ok (msgs (uart_msgq e'))" "\<alpha> w' = \<alpha> w" "rx w' = []"
    "(e_pending e', map msg_text (msgs (uart_msgq e'))) = fold ?f (rx w) (e_pending e, map msg_text (msgs (uart_msgq e)))"
    using w1 by auto
  then show ?thesis
    using up [of w] unfolding fold_fpush by (auto simp: serial_cb_def split: prod.splits)
qed

section \<open>Printing them\<close>

definition echo_reply :: "u8 list \<Rightarrow> u8 list" where
  "echo_reply t = echo_prefix @ t @ [CR, LF]"

lemma fixed_strings:
  "cstr (c_string echo_prefix) = Inr echo_prefix" "cstr (c_string [CR, LF]) = Inr [CR, LF]"
  "cstr (c_string greeting1) = Inr greeting1" "cstr (c_string greeting2) = Inr greeting2"
  unfolding c_string_def
  by (rule cstr_terminated, simp add: ascii_def echo_prefix_def greeting1_def greeting2_def)+

lemma print_uart_ok:
  assumes "poll_out_contract U d tx" and "cstr buf = Inr s"
  shows "\<exists>w'. print_uart U d buf w = Inr w' \<and> tx w' = tx w @ s"
proof -
  from cstr_Inr [OF assms(2)] obtain t where t: "buf = s @ 0 # t" by blast
  have "map (\<lambda>i. buf ! i) [0..<length s] = s"
    unfolding t by (rule nth_equalityI) (simp_all add: nth_append)
  with poll_out_fold [OF assms(1), of "\<lambda>i. buf ! i" "[0..<length s]" w] assms(2)
  show ?thesis by (simp add: print_uart_def)
qed

lemma echo_print_run:
  assumes U: "poll_out_contract U uart tx" and "msg_ok m"
  obtains w' where "echo_print U uart (m, q, w) = Inr (m, q, w')" "tx w' = tx w @ echo_reply (msg_text m)"
proof -
  from print_uart_ok [OF U fixed_strings(1), of w] obtain w1 where
    w1: "print_uart U uart (c_string echo_prefix) w = Inr w1" "tx w1 = tx w @ echo_prefix" by blast
  from print_uart_ok [OF U msg_ok_cstr [OF assms(2)], of w1] obtain w2 where
    w2: "print_uart U uart m w1 = Inr w2" "tx w2 = tx w1 @ msg_text m" by blast
  from print_uart_ok [OF U fixed_strings(2), of w2] obtain w3 where
    w3: "print_uart U uart (c_string [CR, LF]) w2 = Inr w3" "tx w3 = tx w2 @ [CR, LF]" by blast
  from w1 w2 w3 that show ?thesis by (simp add: echo_print_def echo_reply_def)
qed

lemma echo_bot_prints:
  assumes U: "poll_out_contract U uart tx" and M: "msgq_get_contract M msgs"
  shows "printing_thread (echo_take M) (echo_print U uart) tx msgs msg_ok msg_text echo_reply"
proof
  show "\<exists>q'. echo_take M (b, q, w) = (True, m, q', w) \<and> msgs q' = ms" if "msgs q = m # ms" for b q w m ms
    using M that by (rule msgq_get_contract_message) (simp add: echo_take_def)
  show "\<exists>q'. echo_take M (b, q, w) = (False, b, q', w) \<and> msgs q' = []" if "msgs q = []" for b q w
    using M that by (rule msgq_get_contract_empty) (simp add: echo_take_def)
  show "\<exists>w'. echo_print U uart (m, q, w) = Inr (m, q, w') \<and> tx w' = tx w @ echo_reply (msg_text m)" if "msg_ok m" for m q w
    using U that by (rule echo_print_run) blast
qed

lemma thread_echo_bot_run:
  fixes tx :: "'w \<Rightarrow> u8 list" and msgs :: "'q \<Rightarrow> u8 list list"
  assumes U: "poll_out_contract U uart tx" and M: "msgq_get_contract M msgs"
    and ok: "list_all msg_ok (msgs q)" and ready: "device_is_ready Z uart w"
    and k: "keeps (uart_irq_callback_user_data_set U uart Serial_cb NULL_ptr) tx" "keeps (uart_irq_rx_enable U uart) tx"
  shows "\<exists>q' w'. thread_echo_bot Z M U uart tx_buf (q, w) = Some (Inr (q', w')) \<and> msgs q' = [] \<and>
     tx w' = tx w @ greeting1 @ greeting2 @ concat (map echo_reply (map msg_text (msgs q)))"
proof -
  let ?w2 = "uart_irq_rx_enable U uart (uart_irq_callback_user_data_set U uart Serial_cb NULL_ptr w)"
  have w2: "tx ?w2 = tx w" using keepsD [OF k(1)] keepsD [OF k(2)] by simp
  from print_uart_ok [OF U fixed_strings(3), of ?w2] obtain w3 where
    w3: "print_uart U uart (c_string greeting1) ?w2 = Inr w3" "tx w3 = tx ?w2 @ greeting1" by blast
  from print_uart_ok [OF U fixed_strings(4), of w3] obtain w4 where
    w4: "print_uart U uart (c_string greeting2) w3 = Inr w4" "tx w4 = tx w3 @ greeting2" by blast
  from printing_thread.loop_run [OF echo_bot_prints [OF U M] ok, of tx_buf w4] obtain t q' w' where
    "echo_serve M U uart (tx_buf, q, w4) = Some (Inr (t, q', w'))" "msgs q' = []"
    "tx w' = tx w4 @ concat (map echo_reply (map msg_text (msgs q)))"
    unfolding echo_serve_def by blast
  with w2 w3 w4 ready show ?thesis
    by (simp add: thread_echo_bot_def Let_def)
qed

section \<open>Whole lines\<close>

definition no_eol :: "u8 list \<Rightarrow> bool" where
  "no_eol l \<longleftrightarrow> list_all (\<lambda>c. c \<noteq> LF \<and> c \<noteq> CR) l"

lemma echo_step_simps:
  "c = LF \<or> c = CR \<Longrightarrow> acc \<noteq> [] \<Longrightarrow> echo_step n c acc = ([], [acc])"
  "c \<noteq> LF \<and> c \<noteq> CR \<or> acc = [] \<Longrightarrow> length acc < n - 1 \<Longrightarrow> echo_step n c acc = (acc @ [c], [])"
  "c \<noteq> LF \<and> c \<noteq> CR \<Longrightarrow> \<not> length acc < n - 1 \<Longrightarrow> echo_step n c acc = (acc, [])"
  by (auto simp: echo_step_def)

text \<open>Ordinary bytes are collected up to the buffer's size less one, the rest dropped.\<close>

lemma echo_collect:
  "no_eol s \<Longrightarrow> length acc \<le> n - 1 \<Longrightarrow>
     residue (echo_step n) s acc = take (n - 1) (acc @ s) \<and> frames (echo_step n) s acc = []"
proof (induction s arbitrary: acc)
  case Nil
  then show ?case by simp
next
  case (Cons c s)
  then show ?case
    by (cases "length acc < n - 1") (simp_all add: echo_step_simps no_eol_def take_Cons' Suc_diff_Suc)
qed

lemma echo_line:
  assumes "no_eol l" and "t = CR \<or> t = LF" and "l \<noteq> []" and "1 < n"
  shows "residue (echo_step n) (l @ [t]) [] = []" and "frames (echo_step n) (l @ [t]) [] = [take (n - 1) l]"
proof -
  have ne: "take (n - 1) l \<noteq> []" using assms(3,4) by (cases l) auto
  from echo_collect [OF assms(1), of "[]" n] assms(2) ne
  show "residue (echo_step n) (l @ [t]) [] = []" "frames (echo_step n) (l @ [t]) [] = [take (n - 1) l]"
    by (auto simp: frames_append echo_step_def)
qed

lemma echo_lines:
  assumes "list_all (\<lambda>l. no_eol l \<and> l \<noteq> []) ls" and "1 < n"
  shows "residue (echo_step n) (concat (map (\<lambda>l. l @ [CR]) ls)) [] = [] \<and>
     frames (echo_step n) (concat (map (\<lambda>l. l @ [CR]) ls)) [] = map (take (n - 1)) ls"
  using assms(1)
proof (induction ls)
  case Nil
  then show ?case by simp
next
  case (Cons l ls)
  then have l: "no_eol l" "l \<noteq> []" by simp_all
  have "concat (map (\<lambda>l. l @ [CR]) (l # ls)) = (l @ [CR]) @ concat (map (\<lambda>l. l @ [CR]) ls)" by simp
  with echo_line [OF l(1) _ l(2) assms(2), of CR] Cons show ?case
    by (simp only: residue_append frames_append) simp
qed

text \<open>After the first line, each line that ends in CR LF starts with the LF of the one before.\<close>

lemma echo_crlf:
  assumes "list_all no_eol ls" and "1 < n"
  shows "residue (echo_step n) (concat (map (\<lambda>l. l @ [CR, LF]) ls)) [LF] = [LF] \<and>
     frames (echo_step n) (concat (map (\<lambda>l. l @ [CR, LF]) ls)) [LF] = map (\<lambda>l. take (n - 1) (LF # l)) ls"
  using assms(1)
proof (induction ls)
  case Nil
  then show ?case by simp
next
  case (Cons l ls)
  then have l: "no_eol l" by simp
  have "concat (map (\<lambda>l. l @ [CR, LF]) (l # ls)) = l @ [CR, LF] @ concat (map (\<lambda>l. l @ [CR, LF]) ls)" by simp
  moreover have "take (n - 1) (LF # l) \<noteq> []" using assms(2) by simp
  moreover have "residue (echo_step n) l [LF] = take (n - 1) (LF # l)" "frames (echo_step n) l [LF] = []"
    using echo_collect [OF l, of "[LF]" n] assms(2) by simp_all
  ultimately show ?case
    using Cons assms(2) by (simp only: residue_append frames_append) (simp add: echo_step_simps)
qed

section \<open>Properties\<close>

text \<open>The message a line becomes: cut to the buffer and, for printing, at its first NUL.\<close>

definition echoed :: "u8 list \<Rightarrow> u8 list" where
  "echoed l = msg_text (take (MSG_SIZE - 1) l)"

lemma fold_put_texts:
  "length ms + length ls \<le> cap \<Longrightarrow>
     fold (\<lambda>l. put_upto cap (msg_text l)) ls ms = ms @ map msg_text ls"
  by (induction ls arbitrary: ms) (simp_all add: put_upto_def)

text \<open>C37. A terminal that ends lines with CR LF is not echoed faithfully: the LF is taken as the
  first byte of the next line, so every message after the first starts with one.\<close>

theorem crlf_leaks_into_next_line:
  assumes U: "fifo_uart_contract U uart rx \<alpha>" "\<And>w. fst (uart_irq_update U uart w) \<noteq> 0"
    and M: "msgq_put_contract M msgs cap" and empty: "msgs q = []"
    and typed: "rx w = concat (map (\<lambda>l. l @ [CR, LF]) (l # ls))" "list_all no_eol (l # ls)" "l \<noteq> []"
      "length (l # ls) \<le> cap"
  shows "\<exists>e' w'. serial_cb M U uart (echo_init q, w) = Some (Inr (e', w')) \<and>
     map msg_text (msgs (uart_msgq e')) = echoed l # map (\<lambda>x. echoed (LF # x)) ls \<and> e_pending e' = [LF]"
proof -
  have i: "wf_echo (echo_init q)" "e_pending (echo_init q) = []" "uart_msgq (echo_init q) = q"
    by (simp_all add: echo_init_def wf_echo_def MSG_SIZE_def e_pending_def)
  have ok: "list_all msg_ok (msgs (uart_msgq (echo_init q)))" using empty by (simp add: i)
  have rx: "rx w = (l @ [CR]) @ [LF] @ concat (map (\<lambda>l. l @ [CR, LF]) ls)" using typed(1) by simp
  have l: "no_eol l" "list_all no_eol ls" "1 < MSG_SIZE" using typed(2) by (simp_all add: MSG_SIZE_def)
  have lf: "residue (echo_step MSG_SIZE) [LF] [] = [LF]" "frames (echo_step MSG_SIZE) [LF] [] = []"
    by (simp_all add: echo_step_simps MSG_SIZE_def)
  from echo_line [OF l(1) _ typed(3) l(3), of CR] echo_crlf [OF l(2,3)] lf
  have f: "frames (echo_step MSG_SIZE) (rx w) [] = take (MSG_SIZE - 1) l # map (\<lambda>x. take (MSG_SIZE - 1) (LF # x)) ls"
    "residue (echo_step MSG_SIZE) (rx w) [] = [LF]"
    unfolding rx by (simp_all only: residue_append frames_append) simp_all
  from serial_cb_run [OF U M(1) i(1) ok, of w] f show ?thesis
    using fold_put_texts [of "[]" "take (MSG_SIZE - 1) l # map (\<lambda>x. take (MSG_SIZE - 1) (LF # x)) ls" cap] typed(4)
    by (auto simp: i empty echoed_def comp_def simp del: take_Suc_Cons)
qed

section \<open>Witnesses\<close>

lemma board_echo_uart:
  "fifo_uart_contract board_uart 2 (\<lambda>w. rxq w 2) (device_is_ready board_kernel 2)"
  "fst (uart_irq_update board_uart 2 w) \<noteq> 0"
  "keeps (uart_irq_callback_user_data_set board_uart 2 Serial_cb NULL_ptr) (\<lambda>w. txq w 2)"
  "keeps (uart_irq_rx_enable board_uart 2) (\<lambda>w. txq w 2)"
proof -
  show "fifo_uart_contract board_uart 2 (\<lambda>w. rxq w 2) (device_is_ready board_kernel 2)"
    by (rule board_fifo_uart) (simp add: rxq_blind_def)
qed (simp_all add: keeps_def board_uart_def log_def)

theorem crlf_leaks_into_next_line_witness:
  "\<exists>e' w'. serial_cb board_msgq board_uart 2 (echo_init [], board_rx 2 [72, CR, LF, 105, CR, LF]) = Some (Inr (e', w')) \<and>
     map msg_text (uart_msgq e') = [[72], [LF, 105]] \<and> e_pending e' = [LF]"
  using crlf_leaks_into_next_line [OF board_echo_uart(1,2) board_msgq_contracts(1), of "[]" "board_rx 2 [72, CR, LF, 105, CR, LF]"
    "[72]" "[[105]]"]
  by (simp add: board_rx_def no_eol_def echoed_def msg_text_def MSG_SIZE_def)

end
