(* ===== verification/Echo_Bot_System.thy ===== *)
theory Echo_Bot_System
  imports Echo_Bot
begin

text \<open>
  The echo bot as a system: its interrupt handler and the loop of its thread in any order,
  the queue between them. An instance of \<open>queue_thread\<close>.
\<close>

section \<open>The system\<close>

text \<open>The producer is the interrupt, labelled with the bytes it reads and the texts of the lines these complete.\<close>

definition line_texts :: "u8 list \<Rightarrow> u8 list \<Rightarrow> u8 list list" where
  "line_texts bs acc = map msg_text (frames (echo_step MSG_SIZE) bs acc)"

definition serial_interrupt ::
    "(u8 list, 'q) msgq_api \<Rightarrow> 'w uart_api \<Rightarrow> dev \<Rightarrow> ('w \<Rightarrow> u8 list) \<Rightarrow>
     'q echo \<times> 'w \<Rightarrow> u8 list \<times> u8 list list \<Rightarrow> 'q echo \<times> 'w \<Rightarrow> bool" where
  "serial_interrupt M U uart rx st l st' \<longleftrightarrow> serial_cb M U uart st = Some (Inr st') \<and>
     l = (rx (snd st), line_texts (rx (snd st)) (e_pending (fst st)))"

definition put_back :: "'q \<Rightarrow> 'q echo \<Rightarrow> 'q echo" where
  "put_back q e = e\<lparr>uart_msgq := q\<rparr>"

type_synonym e_event = "(u8 list \<times> u8 list list) thread_event"

abbreviation e_trace ::
    "(u8 list, 'q) msgq_api \<Rightarrow> 'w uart_api \<Rightarrow> dev \<Rightarrow> ('w \<Rightarrow> u8 list) \<Rightarrow> ('w \<Rightarrow> u8 list) \<Rightarrow>
     (u8 list, 'q echo, 'w) thread_state \<Rightarrow> e_event list \<Rightarrow> (u8 list, 'q echo, 'w) thread_state \<Rightarrow> bool" where
  "e_trace M U uart rx tx \<equiv>
     run (q_step (serial_interrupt M U uart rx) (echo_take M) (echo_print U uart) uart_msgq put_back tx)"

fun typed_bytes :: "e_event \<Rightarrow> u8 list" where
  "typed_bytes (Produce (bs, ls)) = bs"
| "typed_bytes e = []"

abbreviation typed :: "e_event list \<Rightarrow> u8 list" where
  "typed \<equiv> inputs typed_bytes"

definition system_contract ::
    "'w uart_api \<Rightarrow> (u8 list, 'q) msgq_api \<Rightarrow> dev \<Rightarrow> ('w \<Rightarrow> u8 list) \<Rightarrow> ('w \<Rightarrow> u8 list) \<Rightarrow> ('q \<Rightarrow> u8 list list) \<Rightarrow> nat \<Rightarrow> bool" where
  [contract_defs]: "system_contract U M uart rx tx msgs cap \<longleftrightarrow>
     fifo_uart_contract U uart rx tx \<and> (\<forall>w. fst (uart_irq_update U uart w) \<noteq> 0) \<and> poll_out_contract U uart tx \<and>
     msgq_put_contract M msgs cap \<and> msgq_get_contract M msgs"

lemma serial_interrupt_effect:
  assumes C: "system_contract U M uart rx tx msgs cap"
    and e: "wf_echo e" "list_all msg_ok (msgs (uart_msgq e))" and i: "serial_interrupt M U uart rx (e, w) l (e', w')"
  shows "wf_echo e' \<and> list_all msg_ok (msgs (uart_msgq e')) \<and> tx w' = tx w \<and>
    map msg_text (msgs (uart_msgq e')) = fold (put_upto cap) (snd l) (map msg_text (msgs (uart_msgq e))) \<and>
    e_pending e' = residue (echo_step MSG_SIZE) (fst l) (e_pending e) \<and> snd l = line_texts (fst l) (e_pending e)"
proof -
  from C have U: "fifo_uart_contract U uart rx tx" "\<And>w. fst (uart_irq_update U uart w) \<noteq> 0"
    and M: "msgq_put_contract M msgs cap" by (simp_all add: system_contract_def)
  from serial_cb_run [OF U M e, of w] i show ?thesis
    by (auto simp: serial_interrupt_def line_texts_def fold_map comp_def)
qed

lemma echo_bot_is_queue_thread:
  fixes msgs :: "'q \<Rightarrow> u8 list list" and rx :: "'w \<Rightarrow> u8 list"
  assumes C: "system_contract U M uart rx tx msgs cap"
  shows "queue_thread (echo_take M) (echo_print U uart) tx msgs msg_ok msg_text echo_reply
    (serial_interrupt M U uart rx) uart_msgq put_back cap wf_echo snd"
proof (rule queue_thread.intro)
  show "printing_thread (echo_take M) (echo_print U uart) tx msgs msg_ok msg_text echo_reply"
    using C by (intro echo_bot_prints) (simp_all add: system_contract_def)
  show "queue_thread_axioms tx msgs msg_ok msg_text (serial_interrupt M U uart rx) uart_msgq put_back cap wf_echo snd"
  proof
    fix e e' :: "'q echo" and w w' :: 'w and l
    assume "wf_echo e" "list_all msg_ok (msgs (uart_msgq e))" "serial_interrupt M U uart rx (e, w) l (e', w')"
    from serial_interrupt_effect [OF C this] show "wf_echo e' \<and> list_all msg_ok (msgs (uart_msgq e')) \<and> tx w' = tx w \<and>
        map msg_text (msgs (uart_msgq e')) = fold (put_upto cap) (snd l) (map msg_text (msgs (uart_msgq e)))" by simp
  qed (simp_all add: put_back_def wf_echo_def)
qed

abbreviation e_ok :: "('q \<Rightarrow> u8 list list) \<Rightarrow> (u8 list, 'q echo, 'w) thread_state \<Rightarrow> bool" where
  "e_ok msgs \<equiv> queue_thread.ok msgs msg_ok uart_msgq wf_echo"

text \<open>The lines of a run are those of the bytes typed in it.\<close>

lemma e_trace_lines:
  assumes C: "system_contract U M uart rx tx msgs cap"
    and "e_trace M U uart rx tx s evs s'" and "e_ok msgs s"
  shows "(case (s, s') of ((_, _, e, _), (_, _, e', _)) \<Rightarrow>
    e_pending e' = residue (echo_step MSG_SIZE) (typed evs) (e_pending e) \<and>
    inputs (queue_thread.event_items snd) evs = line_texts (typed evs) (e_pending e))"
proof -
  note thread = echo_bot_is_queue_thread [OF C]
  show ?thesis using assms(2,3)
proof (induction rule: run.induct)
  case (idle s)
  then show ?case by (simp add: line_texts_def split: prod.splits)
next
  case (extend s evs s1 ev s2)
  from queue_thread.trace_ok [OF echo_bot_is_queue_thread [OF C] extend.hyps(1) extend.prems] have ok: "e_ok msgs s1" .
  from extend.hyps(2) show ?case
  proof cases
    case (produced e1 w1 l e2 w2 busy b)
    with ok have "wf_echo e1" "list_all msg_ok (msgs (uart_msgq e1))" by (simp_all add: queue_thread.ok_def [OF thread])
    from serial_interrupt_effect [OF C this produced(4)] have
      "e_pending e2 = residue (echo_step MSG_SIZE) (fst l) (e_pending e1)" "snd l = line_texts (fst l) (e_pending e1)" by blast+
    with extend.IH [OF extend.prems] produced(1-3) show ?thesis
      by (cases l) (auto simp: line_texts_def frames_append queue_thread.event_items.simps [OF thread] split: prod.splits)
  qed (use extend.IH [OF extend.prems] in
     \<open>auto simp: put_back_def e_pending_def queue_thread.event_items.simps [OF thread] split: prod.splits\<close>)
qed
qed

section \<open>Properties\<close>

lemma e_start:
  fixes w :: 'w and rx :: "'w \<Rightarrow> u8 list"
  assumes "system_contract U M uart rx tx msgs cap" and "msgs q = []"
  shows "e_ok msgs (False, b, echo_init q, w)" "e_pending (echo_init q) = []"
    "msgs (uart_msgq (echo_init q)) = []"
  using assms(2)
  by (simp_all add: queue_thread.ok_def [OF echo_bot_is_queue_thread [OF assms(1)]]
      echo_init_def wf_echo_def MSG_SIZE_def e_pending_def)

text \<open>
  C13. In order and at most once, whenever the thread is interrupted: over any sequence of
  interrupts and steps of the thread from the empty start, what has been printed and what is
  still on its way are replies to a subsequence of the lines typed, in their order, and to
  every line as long as no more lines are typed than the queue holds. The buffer is never left.
\<close>

theorem echo_bot_in_order:
  assumes "system_contract U M uart rx tx msgs cap" and "msgs q = []"
    and "e_trace M U uart rx tx (False, b, echo_init q, w) evs (busy, b', e', w')"
  shows "wf_echo e' \<and> (\<exists>pr rest. tx w' = tx w @ concat (map echo_reply pr) \<and>
     rest = (if busy then [msg_text b'] else []) @ map msg_text (msgs (uart_msgq e')) \<and>
     subseq (pr @ rest) (line_texts (typed evs) []) \<and>
     (length (line_texts (typed evs) []) \<le> cap \<longrightarrow> pr @ rest = line_texts (typed evs) []))"
proof -
  note thread = echo_bot_is_queue_thread [OF assms(1)]
  note i = e_start(1) [where b = b and w = w, OF assms(1,2)] e_start(2,3) [OF assms(1,2)]
  from e_trace_lines [OF assms(1,3) i(1)] i(2) have
    l: "inputs (queue_thread.event_items snd) evs = line_texts (typed evs) []" by simp
  from queue_thread.trace_ok [OF thread assms(3) i(1)] have "wf_echo e'"
    by (simp add: queue_thread.ok_def [OF thread])
  moreover from queue_thread.trace_relays [OF thread assms(3) i(1)] l i(3) obtain pr where
    "tx w' = tx w @ concat (map echo_reply pr)"
    "subseq (pr @ queue_thread.under_way msgs msg_text uart_msgq (busy, b', e', w')) (line_texts (typed evs) [])"
    "length (line_texts (typed evs) []) \<le> cap \<longrightarrow>
       pr @ queue_thread.under_way msgs msg_text uart_msgq (busy, b', e', w') = line_texts (typed evs) []"
    by (auto simp: queue_thread.printed_of_def [OF thread] queue_thread.under_way_def [OF thread])
  ultimately show ?thesis
    by (intro conjI exI [of _ pr] exI [of _ "queue_thread.under_way msgs msg_text uart_msgq (busy, b', e', w')"])
       (simp_all add: queue_thread.under_way_def [OF thread])
qed

text \<open>
  C29. Nothing stays in the queue: from every state that can be reached with the thread at its
  condition, the thread's own steps print everything that is queued, in order.
\<close>

theorem echo_bot_drains:
  assumes "system_contract U M uart rx tx msgs cap" and "msgs q = []"
    and "e_trace M U uart rx tx (False, b, echo_init q, w) evs (False, b1, e1, w1)"
  shows "\<exists>b' e' w'. e_trace M U uart rx tx (False, b, echo_init q, w)
       (evs @ concat (replicate (length (msgs (uart_msgq e1))) [Take, Print])) (False, b', e', w') \<and>
     msgs (uart_msgq e') = [] \<and> tx w' = tx w1 @ concat (map echo_reply (map msg_text (msgs (uart_msgq e1))))"
proof -
  note thread = echo_bot_is_queue_thread [OF assms(1)]
  from queue_thread.trace_ok [OF thread assms(3) e_start(1) [OF assms(1,2)]] have "e_ok msgs (False, b1, e1, w1)" .
  from queue_thread.drains [OF thread this] obtain b' e' w' where
    d: "e_trace M U uart rx tx (False, b1, e1, w1) (concat (replicate (length (msgs (uart_msgq e1))) [Take, Print])) (False, b', e', w')"
    "msgs (uart_msgq e') = []" "tx w' = tx w1 @ concat (map echo_reply (map msg_text (msgs (uart_msgq e1))))" by blast
  from run_append [OF d(1) assms(3)] d(2,3) show ?thesis by (intro exI conjI)
qed

section \<open>Runs of the properties\<close>

lemma board_echo_system:
  "system_contract board_uart board_msgq 2 (\<lambda>w. rxq w 2) (\<lambda>w. txq w 2) id 10"
proof -
  have "fifo_uart_contract board_uart 2 (\<lambda>w. rxq w 2) (\<lambda>w. txq w 2)"
    by (rule board_fifo_uart) (simp add: rxq_blind_def)
  then show ?thesis
    using board_echo_uart(2) board_poll_out board_msgq_contracts by (simp add: system_contract_def)
qed

interpretation echo_bot: queue_thread "echo_take board_msgq" "echo_print board_uart 2" "\<lambda>w. txq w 2" id msg_ok msg_text
  echo_reply "serial_interrupt board_msgq board_uart 2 (\<lambda>w. rxq w 2)" uart_msgq put_back 10 wf_echo snd
  by (rule echo_bot_is_queue_thread [OF board_echo_system])

text \<open>A line is typed.\<close>

lemma board_echo_trace:
  "\<exists>b e w. e_trace board_msgq board_uart 2 (\<lambda>w. rxq w 2) (\<lambda>w. txq w 2) (False, [], echo_init [], board_rx 2 [72, CR])
     [Produce ([72, CR], [[72]])] (False, b, e, w) \<and> map msg_text (uart_msgq e) = [[72]] \<and> txq w 2 = []"
proof -
  have i: "wf_echo (echo_init [])" "list_all msg_ok (id (uart_msgq (echo_init [])))" "e_pending (echo_init []) = []"
    "uart_msgq (echo_init []) = []" by (simp_all add: echo_init_def wf_echo_def MSG_SIZE_def e_pending_def)
  have c: "fifo_uart_contract board_uart 2 (\<lambda>w. rxq w 2) (\<lambda>w. txq w 2)"
    using board_echo_system by (simp add: system_contract_def)
  from serial_cb_run [OF c board_echo_uart(2) board_msgq_contracts(1) i(1,2), of "board_rx 2 [72, CR]"]
  obtain e w where r: "serial_cb board_msgq board_uart 2 (echo_init [], board_rx 2 [72, CR]) = Some (Inr (e, w))"
    "map msg_text (uart_msgq e) = [[72]]" "txq w 2 = []"
    by (auto simp: i(3,4) board_rx_def board0_def echo_step_def MSG_SIZE_def put_upto_def msg_text_def)
  then have "serial_interrupt board_msgq board_uart 2 (\<lambda>w. rxq w 2) (echo_init [], board_rx 2 [72, CR])
      ([72, CR], [[72]]) (e, w)"
    by (simp add: serial_interrupt_def i(3) line_texts_def board_rx_def echo_step_def MSG_SIZE_def msg_text_def)
  then have "e_trace board_msgq board_uart 2 (\<lambda>w. rxq w 2) (\<lambda>w. txq w 2) (False, [], echo_init [], board_rx 2 [72, CR])
      [Produce ([72, CR], [[72]])] (False, [], e, w)"
    by (intro run_single q_step.produced)
  with r(2,3)
  show ?thesis by (intro exI [of _ "[]"] exI [of _ e] exI [of _ w] conjI)
qed

theorem echo_bot_in_order_witness:
  "\<exists>b e w pr. e_trace board_msgq board_uart 2 (\<lambda>w. rxq w 2) (\<lambda>w. txq w 2) (False, [], echo_init [], board_rx 2 [72, CR])
     [Produce ([72, CR], [[72]])] (False, b, e, w) \<and> txq w 2 = concat (map echo_reply pr) \<and>
     pr @ map msg_text (uart_msgq e) = [[72]]"
proof -
  from board_echo_trace obtain b e w where t: "e_trace board_msgq board_uart 2 (\<lambda>w. rxq w 2) (\<lambda>w. txq w 2)
      (False, [], echo_init [], board_rx 2 [72, CR]) [Produce ([72, CR], [[72]])] (False, b, e, w)" by blast
  have "line_texts (typed [Produce ([72, CR], [[72]])]) [] = [[72]]"
    by (simp add: line_texts_def echo_step_def MSG_SIZE_def msg_text_def)
  with echo_bot_in_order [OF board_echo_system _ t] show ?thesis using t by (auto simp: board_rx_def board0_def)
qed

theorem echo_bot_drains_witness:
  "\<exists>b' e' w'. e_trace board_msgq board_uart 2 (\<lambda>w. rxq w 2) (\<lambda>w. txq w 2) (False, [], echo_init [], board_rx 2 [72, CR])
     [Produce ([72, CR], [[72]]), Take, Print] (False, b', e', w') \<and> txq w' 2 = echo_reply [72]"
proof -
  from board_echo_trace obtain b e w where t: "e_trace board_msgq board_uart 2 (\<lambda>w. rxq w 2) (\<lambda>w. txq w 2)
      (False, [], echo_init [], board_rx 2 [72, CR]) [Produce ([72, CR], [[72]])] (False, b, e, w)"
    and e: "map msg_text (uart_msgq e) = [[72]]" "txq w 2 = []" by (elim exE conjE) rule
  have "length (uart_msgq e) = 1" using arg_cong [OF e(1), of length] by simp
  with echo_bot_drains [OF board_echo_system _ t] e
  show ?thesis by (simp, elim exE conjE) (intro exI conjI)
qed

end
