(* ===== verification/App_System.thy ===== *)
theory App_System
  imports Main_App
begin

text \<open>
  The application thread under whoever calls \<open>send_app\<close>, in any order: an instance of
  \<open>queue_thread\<close>.
\<close>

section \<open>The system\<close>

text \<open>
  A call of \<open>send_app\<close> with data shorter than the message's array (at that length the array has
  no NUL and the thread reads past it, see \<open>app_full_message_overread\<close>).
\<close>

definition app_send ::
    "'w kernel_api \<Rightarrow> (data_item_with_size_and_type, 'q) msgq_api \<Rightarrow> 'q \<times> 'w \<Rightarrow> u8 list \<times> u16 \<Rightarrow> 'q \<times> 'w \<Rightarrow> bool" where
  "app_send Z M st p st' \<longleftrightarrow> length (fst p) < MSG_BODY_SIZE \<and> send_app Z M (fst p) (length (fst p)) (snd p) st = Inr st'"

abbreviation app_trace ::
    "'w kernel_api \<Rightarrow> (data_item_with_size_and_type, 'q) msgq_api \<Rightarrow> ('w \<Rightarrow> u8 list) \<Rightarrow>
     (data_item_with_size_and_type, 'q, 'w) thread_state \<Rightarrow> (u8 list \<times> u16) thread_event list \<Rightarrow>
     (data_item_with_size_and_type, 'q, 'w) thread_state \<Rightarrow> bool" where
  "app_trace Z M out \<equiv> run (q_step (app_send Z M) (app_take M) (app_print Z) (\<lambda>q. q) (\<lambda>q' q. q') out)"

fun sent_item :: "(u8 list \<times> u16) thread_event \<Rightarrow> data_item_with_size_and_type list" where
  "sent_item (Produce (bs, t)) = [app_item bs t]"
| "sent_item e = []"

definition app_contract ::
    "'w kernel_api \<Rightarrow> (data_item_with_size_and_type, 'q) msgq_api \<Rightarrow> ('w \<Rightarrow> u8 list) \<Rightarrow>
     ('q \<Rightarrow> data_item_with_size_and_type list) \<Rightarrow> nat \<Rightarrow> bool" where
  [contract_defs]: "app_contract Z M out msgs cap \<longleftrightarrow>
     printk_out_contract Z out \<and> msgq_put_contract M msgs cap \<and> msgq_get_contract M msgs"

lemma app_is_queue_thread:
  fixes out :: "'w \<Rightarrow> u8 list" and msgs :: "'q \<Rightarrow> data_item_with_size_and_type list"
  assumes C: "app_contract Z M out msgs cap"
  shows "queue_thread (app_take M) (app_print Z) out msgs (\<lambda>m. 0 \<in> set (item_data m)) (\<lambda>m. m) app_line
    (app_send Z M) (\<lambda>q. q) (\<lambda>q' q. q') cap (\<lambda>q. True) (\<lambda>(bs, t). [app_item bs t])"
proof (rule queue_thread.intro)
  show "printing_thread (app_take M) (app_print Z) out msgs (\<lambda>m. 0 \<in> set (item_data m)) (\<lambda>m. m) app_line"
    using C by (intro app_prints) (simp_all add: app_contract_def)
  show "queue_thread_axioms out msgs (\<lambda>m. 0 \<in> set (item_data m)) (\<lambda>m. m) (app_send Z M) (\<lambda>q. q) (\<lambda>q' q. q')
      cap (\<lambda>q. True) (\<lambda>(bs, t). [app_item bs t])"
  proof
    fix q q' :: 'q and w w' :: 'w and p
    assume good: "list_all (\<lambda>m. 0 \<in> set (item_data m)) (msgs q)" and p: "app_send Z M (q, w) p (q', w')"
    obtain bs t where bt: "p = (bs, t)" by (cases p)
    with p have b: "length bs < MSG_BODY_SIZE" "send_app Z M bs (length bs) t (q, w) = Inr (q', w')"
      by (simp_all add: app_send_def)
    then have "q' = snd (k_msgq_put M (app_item bs t) q)" "w' = w" by (simp_all add: send_app_fits)
    moreover from this C have "msgs q' = put_upto cap (app_item bs t) (msgs q)"
      using msgq_put_contractD [of M msgs cap] by (simp add: app_contract_def)
    moreover have "0 \<in> set (item_data (app_item bs t))" using b(1) by (simp add: app_item_def)
    ultimately show "True \<and> list_all (\<lambda>m. 0 \<in> set (item_data m)) (msgs q') \<and> out w' = out w \<and>
        map (\<lambda>m. m) (msgs q') = fold (put_upto cap) (case p of (bs, t) \<Rightarrow> [app_item bs t]) (map (\<lambda>m. m) (msgs q))"
      using good by (simp add: bt put_upto_def)
  qed simp_all
qed

lemma app_inputs:
  assumes "app_contract Z M out msgs cap"
  shows "inputs (queue_thread.event_items (\<lambda>(bs, t). [app_item bs t])) evs = inputs sent_item evs"
proof -
  note thread = app_is_queue_thread [OF assms]
  have "queue_thread.event_items (\<lambda>(bs, t). [app_item bs t]) e = sent_item e" for e
    by (cases e rule: sent_item.cases) (simp_all add: queue_thread.event_items.simps [OF thread])
  then show ?thesis by (simp add: inputs_def cong: map_cong)
qed

section \<open>Properties\<close>

text \<open>
  C27. What is sent is printed, in order and at most once, however the senders and the thread
  interleave: what the thread has printed and what is on its way are a subsequence of the
  messages sent (of less than 64 bytes each), and all of them as long as no more are sent than
  the queue holds; each is printed with its size, its type and its text up to the first NUL.
\<close>

theorem app_in_order:
  fixes out :: "'w \<Rightarrow> u8 list"
  assumes "app_contract Z M out msgs cap" and "msgs q = []"
    and "app_trace Z M out (False, b, q, w) evs (busy, b', q', w')"
  shows "\<exists>pr rest. out w' = out w @ concat (map app_line pr) \<and> rest = (if busy then [b'] else []) @ msgs q' \<and>
     subseq (pr @ rest) (inputs sent_item evs) \<and>
     (length (inputs sent_item evs) \<le> cap \<longrightarrow> pr @ rest = inputs sent_item evs)"
proof -
  note thread = app_is_queue_thread [OF assms(1)]
  have i: "queue_thread.ok msgs (\<lambda>m. 0 \<in> set (item_data m)) (\<lambda>q. q) (\<lambda>q. True) (False, b, q, w)"
    by (simp add: queue_thread.ok_def [OF thread] assms(2))
  from queue_thread.trace_relays [OF thread assms(3) i] assms(2) obtain pr where
    "out w' = out w @ concat (map app_line pr)"
    "subseq (pr @ queue_thread.under_way msgs (\<lambda>m. m) (\<lambda>q. q) (busy, b', q', w')) (inputs sent_item evs)"
    "length (inputs sent_item evs) \<le> cap \<longrightarrow>
       pr @ queue_thread.under_way msgs (\<lambda>m. m) (\<lambda>q. q) (busy, b', q', w') = inputs sent_item evs"
    unfolding app_inputs [OF assms(1)]
    by (auto simp: queue_thread.printed_of_def [OF thread] queue_thread.under_way_def [OF thread])
  then show ?thesis
    by (intro exI [of _ pr] exI [of _ "queue_thread.under_way msgs (\<lambda>m. m) (\<lambda>q. q) (busy, b', q', w')"] conjI)
       (simp_all add: queue_thread.under_way_def [OF thread])
qed

text \<open>
  The thread, left alone with messages that end, prints all of them in order, returns when
  waiting fails and leaves the queue empty.
\<close>

lemma thread_app_prints_queue:
  fixes out :: "'w \<Rightarrow> u8 list"
  assumes "app_contract Z M out msgs cap" and "list_all (\<lambda>m. 0 \<in> set (item_data m)) (msgs q)"
  shows "\<exists>b' q' w'. thread_app Z M (b, q, w) = Some (Inr (b', q', w')) \<and> msgs q' = [] \<and>
     out w' = out w @ concat (map app_line (msgs q))"
proof -
  from assms(1) have "printing_thread (app_take M) (app_print Z) out msgs (\<lambda>m. 0 \<in> set (item_data m)) (\<lambda>m. m) app_line"
    by (intro app_prints) (simp_all add: app_contract_def)
  from printing_thread.loop_run [OF this assms(2), of b w] show ?thesis by (simp add: thread_app_def)
qed

section \<open>Runs of the properties\<close>

lemma board_app: "app_contract board_kernel board_msgq console id 10"
  using board_printk_out board_msgq_contracts by (simp add: app_contract_def)

interpretation app: queue_thread "app_take board_msgq" "app_print board_kernel" console id "\<lambda>m. 0 \<in> set (item_data m)" "\<lambda>m. m"
  app_line "app_send board_kernel board_msgq" "\<lambda>q. q" "\<lambda>q' q. q'" 10 "\<lambda>q. True" "\<lambda>(bs, t). [app_item bs t]"
  by (rule app_is_queue_thread [OF board_app])

text \<open>One message is sent, taken and printed.\<close>

theorem app_in_order_witness:
  "\<exists>b q w pr. app_trace board_kernel board_msgq console (False, app_item [] 0, [], board0)
     [Produce ([72, 105], 7), Take, Print] (False, b, q, w) \<and> console w = concat (map app_line pr) \<and>
     pr @ q = [app_item [72, 105] 7]"
proof -
  let ?q = "[app_item [72, 105] 7]" and ?trace = "app_trace board_kernel board_msgq console"
  have "send_app board_kernel board_msgq [72, 105] (length [72, 105 :: u8]) 7 ([], board0) = Inr (?q, board0)"
    by (subst send_app_fits) (simp_all add: MSG_BODY_SIZE_def board_msgq_def)
  then have "app_send board_kernel board_msgq ([], board0) ([72, 105], 7) (?q, board0)"
    by (simp add: app_send_def MSG_BODY_SIZE_def)
  then have s: "?trace (False, app_item [] 0, [], board0) [Produce ([72, 105], 7)] (False, app_item [] 0, ?q, board0)"
    by (intro run_single q_step.produced)
  have "app.ok (False, app_item [] 0, ?q, board0)" by (simp add: app.ok_def app_item_def MSG_BODY_SIZE_def)
  from app.drains [OF this] obtain b q w where
    "?trace (False, app_item [] 0, ?q, board0) [Take, Print] (False, b, q, w)" by auto
  from run_append [OF this s] have t: "?trace (False, app_item [] 0, [], board0)
      [Produce ([72, 105], 7), Take, Print] (False, b, q, w)" by simp
  from app_in_order [OF board_app _ t] obtain pr where
    "console w = console board0 @ concat (map app_line pr)" "pr @ q = [app_item [72, 105] 7]" by auto
  with t show ?thesis by (intro exI [of _ b] exI [of _ q] exI [of _ w] exI [of _ pr]) (simp add: board0_def)
qed

end
