(* ===== verification/Composite_System.thy ===== *)
theory Composite_System
  imports Cdc_Acm_Composite Traces
begin

text \<open>
  The two back-to-back ports of \<^verbatim>\<open>src/main_cdc_acm_composite.c\<close> as a system: any sequence of
  interrupts on either port, against a pair of pipes.
\<close>

section \<open>Sequences of interrupts\<close>

text \<open>
  The ports are 0 and 1; \<open>d\<close>, \<open>rx\<close> and \<open>tx\<close> are the device of each, what it will deliver and what
  it has sent. The handler of port \<open>i\<close> is called with the other port's element. In between the
  world may change by itself, except for what has been sent.
\<close>

abbreviation other :: "nat \<Rightarrow> nat" where "other i \<equiv> 1 - i"

datatype c_event = Irq nat "u8 list" | Elsewhere

inductive c_step ::
    "'rb ring_api \<Rightarrow> 'w uart_api \<Rightarrow> (nat \<Rightarrow> dev) \<Rightarrow> (nat \<Rightarrow> 'w \<Rightarrow> u8 list) \<Rightarrow> (nat \<Rightarrow> 'w \<Rightarrow> u8 list) \<Rightarrow>
     'rb peers \<times> 'w \<Rightarrow> c_event \<Rightarrow> 'rb peers \<times> 'w \<Rightarrow> bool"
  for R U d rx tx where
  interrupt: "i < 2 \<Longrightarrow> composite_interrupt_handler R U (d i) (other i) (peers, w) = Some (Inr (peers', w')) \<Longrightarrow>
     c_step R U d rx tx (peers, w) (Irq i (rx i w)) (peers', w')"
| elsewhere: "\<forall>i < 2. tx i w' = tx i w \<Longrightarrow> c_step R U d rx tx (peers, w) Elsewhere (peers, w')"

abbreviation c_trace ::
    "'rb ring_api \<Rightarrow> 'w uart_api \<Rightarrow> (nat \<Rightarrow> dev) \<Rightarrow> (nat \<Rightarrow> 'w \<Rightarrow> u8 list) \<Rightarrow> (nat \<Rightarrow> 'w \<Rightarrow> u8 list) \<Rightarrow>
     'rb peers \<times> 'w \<Rightarrow> c_event list \<Rightarrow> 'rb peers \<times> 'w \<Rightarrow> bool" where
  "c_trace R U d rx tx \<equiv> run (c_step R U d rx tx)"

lemma c_trace_interrupt:
  "c_trace R U d rx tx s evs (peers, w) \<Longrightarrow> i < 2 \<Longrightarrow>
     composite_interrupt_handler R U (d i) (other i) (peers, w) = Some (Inr (peers', w')) \<Longrightarrow>
     c_trace R U d rx tx s (evs @ [Irq i (rx i w)]) (peers', w')"
  by (erule run.extend) (rule c_step.interrupt)

text \<open>What port \<open>i\<close> receives.\<close>

fun heard_at :: "nat \<Rightarrow> c_event \<Rightarrow> u8 list" where
  "heard_at i (Irq j bs) = (if j = i then bs else [])"
| "heard_at i Elsewhere = []"

abbreviation heard :: "nat \<Rightarrow> c_event list \<Rightarrow> u8 list" where
  "heard i \<equiv> inputs (heard_at i)"

definition composite_contract ::
    "'w uart_api \<Rightarrow> 'rb ring_api \<Rightarrow> (nat \<Rightarrow> dev) \<Rightarrow> bool \<Rightarrow> (nat \<Rightarrow> 'w \<Rightarrow> u8 list) \<Rightarrow> (nat \<Rightarrow> 'w \<Rightarrow> bool) \<Rightarrow>
     (nat \<Rightarrow> 'w \<Rightarrow> u8 list) \<Rightarrow> ('rb \<Rightarrow> u8 list) \<Rightarrow> bool" where
  [contract_defs]: "composite_contract U R d lossless rx txr tx content \<longleftrightarrow>
     (\<forall>i < 2. handler_contract U R (d i) (d (other i)) lossless (rx i) (txr i) (tx i) content
        COMPOSITE_RING_BUF_SIZE (tx (other i)) (txr (other i)))"

definition crossed :: "(nat \<Rightarrow> dev) \<Rightarrow> 'rb peers \<Rightarrow> bool" where
  "crossed d peers \<longleftrightarrow> (\<forall>i < 2. wired peers i = (d i, Some (other i)))"

text \<open>One interrupt, as the two pipes see it: \<open>i\<close> feeds the pipe to the other port and drains its own.\<close>

lemma interrupt_effect:
  fixes content :: "'rb \<Rightarrow> u8 list"
  assumes C: "composite_contract U R d lossless rx txr tx content" and X: "crossed d peers" and i: "i < 2"
    and le: "length (ring_of content peers i) \<le> COMPOSITE_RING_BUF_SIZE"
  shows "\<exists>peers' w' sent. composite_interrupt_handler R U (d i) (other i) (peers, w) = Some (Inr (peers', w')) \<and>
     crossed d peers' \<and> tx i w' = tx i w @ sent \<and> tx (other i) w' = tx (other i) w \<and>
     ring_of content peers' i = take COMPOSITE_RING_BUF_SIZE (ring_of content peers i @ rx i w) \<and>
     subseq (sent @ ring_of content peers' (other i)) (ring_of content peers (other i)) \<and>
     (lossless \<longrightarrow> sent @ ring_of content peers' (other i) = ring_of content peers (other i))"
proof -
  have o: "other i < 2" "other (other i) = i" "i \<noteq> other i" using i by presburger+
  from X o have p: "peer_dev (peers (other i)) = d (other i)" "peer_data (peers (other i)) = Some i"
    unfolding crossed_def wired_def by (metis fst_conv, metis snd_conv)
  have H: "handler_contract U R (d i) (peer_dev (peers (other i))) lossless (rx i) (txr i) (tx i) content
      COMPOSITE_RING_BUF_SIZE (tx (other i)) (txr (other i))"
    using C i unfolding composite_contract_def p(1) by blast
  from composite_handler_run [OF H le p(2) o(3), of w] obtain peers' w' sent where
    r: "composite_interrupt_handler R U (d i) (other i) (peers, w) = Some (Inr (peers', w'))" "wired peers' = wired peers"
      "tx i w' = tx i w @ sent" "ring_of content peers' i = take COMPOSITE_RING_BUF_SIZE (ring_of content peers i @ rx i w)"
      "subseq (sent @ ring_of content peers' (other i)) (ring_of content peers (other i))"
      "lossless \<longrightarrow> sent @ ring_of content peers' (other i) = ring_of content peers (other i)"
      "tx (other i) w' = tx (other i) w" by (elim exE conjE)
  moreover have "crossed d peers'" using X r(2) by (simp add: crossed_def)
  ultimately show ?thesis by (intro exI conjI)
qed

section \<open>Two relays\<close>

definition c_ok :: "(nat \<Rightarrow> dev) \<Rightarrow> ('rb \<Rightarrow> u8 list) \<Rightarrow> 'rb peers \<times> 'w \<Rightarrow> bool" where
  "c_ok d content st \<longleftrightarrow> crossed d (fst st) \<and>
     (\<forall>i < 2. length (ring_of content (fst st) i) \<le> COMPOSITE_RING_BUF_SIZE)"

lemma c_step_effect:
  fixes content :: "'rb \<Rightarrow> u8 list"
  assumes C: "composite_contract U R d lossless rx txr tx content" and ok: "c_ok d content s" and i: "i < 2"
    and step: "c_step R U d rx tx s e t"
  shows "c_ok d content t \<and>
    (\<exists>ms. tx (other i) (snd t) = tx (other i) (snd s) @ ms \<and>
       subseq (ms @ ring_of content (fst t) i) (ring_of content (fst s) i @ heard_at i e) \<and>
       (lossless \<and> length (ring_of content (fst s) i) + length (heard_at i e) \<le> COMPOSITE_RING_BUF_SIZE \<longrightarrow>
          ms @ ring_of content (fst t) i = ring_of content (fst s) i @ heard_at i e))"
  using step
proof cases
  case (interrupt j peers w peers' w')
  have o: "other (other j) = j" "j \<noteq> other j" "i = j \<or> i = other j" using i interrupt(4) by presburger+
  from ok interrupt have c: "crossed d peers"
    and l: "length (ring_of content peers k) \<le> COMPOSITE_RING_BUF_SIZE" if "k < 2" for k
    using that by (auto simp: c_ok_def)
  from interrupt_effect [OF C c [OF interrupt(4)] interrupt(4) l [OF interrupt(4)], of w] interrupt(5) obtain sent where
    E: "crossed d peers'" "tx j w' = tx j w @ sent" "tx (other j) w' = tx (other j) w"
      "ring_of content peers' j = take COMPOSITE_RING_BUF_SIZE (ring_of content peers j @ rx j w)"
      "subseq (sent @ ring_of content peers' (other j)) (ring_of content peers (other j))"
      "lossless \<longrightarrow> sent @ ring_of content peers' (other j) = ring_of content peers (other j)" by auto
  have "other j < 2" using interrupt(4) by presburger
  then have "length (ring_of content peers' (other j)) \<le> COMPOSITE_RING_BUF_SIZE"
    using list_emb_length [OF E(5)] l by fastforce
  moreover have "length (ring_of content peers' j) \<le> COMPOSITE_RING_BUF_SIZE" by (simp add: E(4))
  moreover have "k = j \<or> k = other j" if "k < 2" for k using that interrupt(4) by presburger
  ultimately have ok': "c_ok d content t" using E(1) interrupt(3) by (auto simp: c_ok_def)
  from o(3) show ?thesis
  proof
    assume ij: "i = j"
    have "subseq (take COMPOSITE_RING_BUF_SIZE (ring_of content peers j @ rx j w)) (ring_of content peers j @ rx j w)"
      by (intro prefix_imp_subseq take_is_prefix)
    then show ?thesis using ok' E(3,4) interrupt(1-3) by (intro conjI exI [of _ "[]"]) (auto simp: ij)
  next
    assume ij: "i = other j"
    show ?thesis
      using ok' E(2,5,6) interrupt(1-3) o by (intro conjI exI [of _ sent]) (auto simp: ij)
  qed
next
  case (elsewhere w' w peers)
  have "other i < 2" using i by presburger
  with elsewhere ok show ?thesis by (intro conjI exI [of _ "[]"]) (auto simp: c_ok_def)
qed

lemma composite_is_relay:
  fixes content :: "'rb \<Rightarrow> u8 list"
  assumes "composite_contract U R d lossless rx txr tx content" and "i < 2"
  shows "relay_line (c_step R U d rx tx) (c_ok d content) (\<lambda>st. tx (other i) (snd st)) (\<lambda>b. [b])
    (\<lambda>st. ring_of content (fst st) i) (heard_at i) (\<lambda>n. lossless \<and> n \<le> COMPOSITE_RING_BUF_SIZE)"
proof
  fix s t :: "'rb peers \<times> 'a" and e assume "c_ok d content s" "c_step R U d rx tx s e t"
  from c_step_effect [OF assms(1) this(1) assms(2) this(2)] show "c_ok d content t" and
    "\<exists>ms. tx (other i) (snd t) = tx (other i) (snd s) @ concat (map (\<lambda>b. [b]) ms) \<and>
       subseq (ms @ ring_of content (fst t) i) (ring_of content (fst s) i @ heard_at i e) \<and>
       (lossless \<and> length (ring_of content (fst s) i) + length (heard_at i e) \<le> COMPOSITE_RING_BUF_SIZE \<longrightarrow>
          ms @ ring_of content (fst t) i = ring_of content (fst s) i @ heard_at i e)" by simp_all
qed auto

lemma composite_start_crossed:
  "crossed (\<lambda>i. peer_dev (peers i)) (fst (composite_start Z R U (peers, w)))"
  "i < 2 \<Longrightarrow> peer_rb (fst (composite_start Z R U (peers, w)) i) = ring_buf_init R COMPOSITE_RING_BUF_SIZE"
  by (auto simp: composite_start_def Let_def crossed_def wired_def less_2_cases_iff)

section \<open>Properties\<close>

text \<open>
  C11. From the state in which the thread leaves the ports, over any sequence of interrupts on
  both: what comes out of a port is, in order, part of what the other has received; nothing is
  lost while no more than a ring buffer of bytes has been received and the UART takes whole
  chunks, and what is not out is in the ring buffer. The next handler always returns.
\<close>

theorem composite_in_order:
  fixes content :: "'rb \<Rightarrow> u8 list"
  assumes "composite_contract U R (\<lambda>i. peer_dev (peers i)) lossless rx txr tx content"
    and "content (ring_buf_init R COMPOSITE_RING_BUF_SIZE) = []" and "i < 2"
    and "c_trace R U (\<lambda>i. peer_dev (peers i)) rx tx (composite_start Z R U (peers, w)) evs (peers', w')"
  shows "\<exists>output. tx (other i) w' = tx (other i) (snd (composite_start Z R U (peers, w))) @ output \<and>
     subseq (output @ ring_of content peers' i) (heard i evs) \<and>
     (lossless \<and> length (heard i evs) \<le> COMPOSITE_RING_BUF_SIZE \<longrightarrow> output @ ring_of content peers' i = heard i evs) \<and>
     (\<exists>st. composite_interrupt_handler R U (peer_dev (peers i)) (other i) (peers', w') = Some (Inr st))"
proof -
  obtain peers0 w0 where s: "composite_start Z R U (peers, w) = (peers0, w0)"
    by (cases "composite_start Z R U (peers, w)")
  with composite_start_crossed [where Z = Z and R = R and U = U and peers = peers and w = w] assms(2) have
    "crossed (\<lambda>i. peer_dev (peers i)) peers0" and z: "\<forall>i < 2. ring_of content peers0 i = []" by simp_all
  then have i: "c_ok (\<lambda>i. peer_dev (peers i)) content (peers0, w0)" by (simp add: c_ok_def)
  note relay = composite_is_relay [OF assms(1,3)]
  have t: "c_trace R U (\<lambda>i. peer_dev (peers i)) rx tx (peers0, w0) evs (peers', w')" using assms(4) s by simp
  have o: "c_ok (\<lambda>i. peer_dev (peers i)) content (peers', w')" by (rule relay_line.run_ok [OF relay t i])
  with assms(3) have "crossed (\<lambda>i. peer_dev (peers i)) peers'" "length (ring_of content peers' i) \<le> COMPOSITE_RING_BUF_SIZE"
    by (simp_all add: c_ok_def)
  from interrupt_effect [OF assms(1) this(1) assms(3) this(2), of w'] have
    r: "\<exists>st. composite_interrupt_handler R U (peer_dev (peers i)) (other i) (peers', w') = Some (Inr st)" by blast
  have e: "ring_of content peers0 i = []" using assms(3) z by simp
  from relay_line.relay_run [OF relay t i] e obtain ms where
    "tx (other i) w' = tx (other i) w0 @ ms" "subseq (ms @ ring_of content peers' i) (heard i evs)"
    "lossless \<and> length (heard i evs) \<le> COMPOSITE_RING_BUF_SIZE \<longrightarrow> ms @ ring_of content peers' i = heard i evs" by auto
  with r s show ?thesis by (intro exI [of _ ms]) simp
qed

section \<open>Run of the property\<close>

lemma board_composite:
  "composite_contract board_uart (board_ring COMPOSITE_RING_BUF_SIZE) (\<lambda>i. peer_dev (board_peers i)) True
     (\<lambda>i w. rxq w (10 + i)) (\<lambda>i w. tx_on w (10 + i)) (\<lambda>i w. txq w (10 + i)) id"
  using board_handler_contract [of 10 11 COMPOSITE_RING_BUF_SIZE] board_handler_contract [of 11 10 COMPOSITE_RING_BUF_SIZE]
  by (auto simp: composite_contract_def less_2_cases_iff board_peers_def)

interpretation port_0_to_1: relay_line
  "c_step (board_ring COMPOSITE_RING_BUF_SIZE) board_uart (\<lambda>i. peer_dev (board_peers i)) (\<lambda>i w. rxq w (10 + i)) (\<lambda>i w. txq w (10 + i))"
  "c_ok (\<lambda>i. peer_dev (board_peers i)) id" "\<lambda>st. txq (snd st) (10 + other 0)" "\<lambda>b. [b]" "\<lambda>st. ring_of id (fst st) 0"
  "heard_at 0" "\<lambda>n. True \<and> n \<le> COMPOSITE_RING_BUF_SIZE"
  by (rule composite_is_relay [OF board_composite]) simp

text \<open>Port 0 receives two bytes; then the handler of port 1 runs.\<close>

theorem composite_in_order_witness:
  "\<exists>(w1 :: board) peers2 w2 output.
     c_trace (board_ring COMPOSITE_RING_BUF_SIZE) board_uart (\<lambda>i. peer_dev (board_peers i)) (\<lambda>i w. rxq w (10 + i)) (\<lambda>i w. txq w (10 + i))
       (composite_start board_kernel (board_ring COMPOSITE_RING_BUF_SIZE) board_uart (board_peers, board_rx 10 [72, 105]))
       [Irq 0 [72, 105], Irq 1 (rxq w1 11)] (peers2, w2) \<and>
     txq w2 11 = txq (snd (composite_start board_kernel (board_ring COMPOSITE_RING_BUF_SIZE) board_uart
       (board_peers, board_rx 10 [72, 105]))) 11 @ output \<and> output @ peer_rb (peers2 0) = [72, 105]"
proof -
  let ?R = "board_ring COMPOSITE_RING_BUF_SIZE" and ?d = "\<lambda>i. peer_dev (board_peers i)"
  let ?s = "composite_start board_kernel ?R board_uart (board_peers, board_rx 10 [72, 105])"
  let ?t = "c_trace ?R board_uart ?d (\<lambda>i w. rxq w (10 + i)) (\<lambda>i w. txq w (10 + i)) ?s"
  obtain peers0 w0 where s: "?s = (peers0, w0)" by (cases ?s)
  have rx0: "rxq w0 10 = [72, 105]"
    using s by (auto simp: composite_start_def composite_uart_line_set_def Let_def board_uart_def board_kernel_def log_def board_rx_def)
  have init: "id (ring_buf_init ?R COMPOSITE_RING_BUF_SIZE) = []" by (simp add: board_ring_def)
  have t0: "?t [] (peers0, w0)" using run.idle [where s = ?s] s by simp
  from composite_in_order [OF board_composite init _ t0, of 0] obtain peers1 w1 where
    h0: "composite_interrupt_handler ?R board_uart (?d 0) (other 0) (peers0, w0) = Some (Inr (peers1, w1))" by auto
  have t1: "?t [Irq 0 [72, 105]] (peers1, w1)" using c_trace_interrupt [where d = ?d and rx = "\<lambda>i w. rxq w (10 + i)" and i = 0, OF t0 _ h0] rx0 by simp
  from composite_in_order [OF board_composite init _ t1, of 1] obtain peers2 w2 where
    h1: "composite_interrupt_handler ?R board_uart (?d 1) (other 1) (peers1, w1) = Some (Inr (peers2, w2))" by auto
  have t2: "?t [Irq 0 [72, 105], Irq 1 (rxq w1 11)] (peers2, w2)" using c_trace_interrupt [where d = ?d and rx = "\<lambda>i w. rxq w (10 + i)" and i = 1, OF t1 _ h1] by simp
  from composite_in_order [OF board_composite init _ t2, of 0] obtain sent where
    "txq w2 11 = txq (snd ?s) 11 @ sent" "sent @ peer_rb (peers2 0) = [72, 105]"
    by (auto simp: COMPOSITE_RING_BUF_SIZE_def)
  with t2 show ?thesis
    by (intro exI [of _ w1] exI [of _ peers2] exI [of _ w2] exI [of _ sent] conjI)
qed

end
