(* ===== verification/Socket_Dumb_Http.thy ===== *)
theory Socket_Dumb_Http
  imports Sockets
begin

text \<open>
  The HTTP server thread, \<^verbatim>\<open>src/socket_dumb_http.c\<close>: it reads a request byte by byte until a
  four-state machine has seen the blank line, sends one fixed page and closes the connection.
\<close>

section \<open>Operations\<close>

definition BIND_PORT :: nat where "BIND_PORT = 8080"

text \<open>The machine on \<open>req_state\<close>: the event is its \<open>break\<close>.\<close>

definition req_step :: "u8 \<Rightarrow> nat \<Rightarrow> nat \<times> unit list" where
  "req_step c req_state =
     (if req_state = 0 \<and> c = CR then (req_state + 1, [])
      else if req_state = 1 \<and> c = LF then (req_state + 1, [])
      else if req_state = 2 \<and> c = CR then (req_state + 1, [])
      else if req_state = 3 \<and> c = LF then (req_state, [()])
      else (0, []))"

text \<open>How the inner loop goes on: it reads, it has left by \<open>break\<close>, or by \<open>goto close_client\<close>.\<close>

datatype req_end = Reading | Request_done | Close_client

definition recv_pass :: "('a, 'w) sock_api \<Rightarrow> int \<Rightarrow> nat \<times> req_end \<times> 'w \<Rightarrow> (nat \<times> req_end \<times> 'w) checked" where
  "recv_pass S client st =
     (case st of (req_state, e, w) \<Rightarrow> case sk_recv S client 1 w of (r, bs, w1) \<Rightarrow>
      if r = 0 then Inr (req_state, Close_client, w1)
      else if r < 0 then
        (if sk_errno S w1 = E_AGAIN \<or> sk_errno S w1 = E_INTR then Inr (req_state, Reading, w1)
         else Inr (req_state, Close_client, sk_printf S
                (ascii ''Got error '' @ fmt_d (sk_errno S w1) @ ascii '' when receiving from socket'' @ [LF]) w1))
      else (case bs of [] \<Rightarrow> Inl Uninit_read
            | c # _ \<Rightarrow> (case req_step c req_state of (s, ev) \<Rightarrow>
                Inr (s, if ev = [] then Reading else Request_done, w1))))"

definition recv_request :: "('a, 'w) sock_api \<Rightarrow> int \<Rightarrow> nat \<times> req_end \<times> 'w \<Rightarrow> (nat \<times> req_end \<times> 'w) outcome" where
  "recv_request S client =
     whileM (\<lambda>(req_state, e, w). (e = Reading, req_state, e, w)) (\<lambda>st. Some (recv_pass S client st))"

text \<open>\<open>data\<close> is the offset of the pointer in \<open>content\<close>, \<open>len\<close> a \<open>size_t\<close>.\<close>

definition send_pass ::
    "('a, 'w) sock_api \<Rightarrow> int \<Rightarrow> u8 list \<Rightarrow> int \<times> nat \<times> bool \<times> 'w \<Rightarrow> (int \<times> nat \<times> bool \<times> 'w) checked" where
  "send_pass S client content st =
     (case st of (data, len, broken, w) \<Rightarrow>
      if data < 0 then Inl OOB_read
      else sbind (mem_get (nat data) len content) (\<lambda>bs.
        case sk_send S client bs w of (sent_len, w1) \<Rightarrow>
        if sent_len = - 1 then
          Inr (data, len, True, sk_printf S (ascii ''Error sending data to peer, errno: '' @
                 fmt_d (sk_errno S w1) @ [LF]) w1)
        else Inr (data + sent_len, nat ((int len - sent_len) mod 2 ^ 32), broken, w1)))"

definition send_content ::
    "('a, 'w) sock_api \<Rightarrow> int \<Rightarrow> u8 list \<Rightarrow> 'w \<Rightarrow> (int \<times> nat \<times> bool \<times> 'w) outcome" where
  "send_content S client content w =
     whileM (\<lambda>(data, len, broken, w). (\<not> broken \<and> len \<noteq> 0, data, len, broken, w))
       (\<lambda>st. Some (send_pass S client content st)) (0, length content, False, w)"

text \<open>One pass of the server's loop; \<open>counter\<close> is its static variable, an \<open>int\<close> of 32 bits whose \<open>++\<close> wraps around.\<close>

definition serve_once :: "('a, 'w) sock_api \<Rightarrow> u8 list \<Rightarrow> int \<Rightarrow> u32 \<times> 'w \<Rightarrow> (u32 \<times> 'w) outcome" where
  "serve_once S content serv st =
     (case st of (counter, w) \<Rightarrow> case sk_accept S serv w of (client, client_addr, w1) \<Rightarrow>
      if client < 0 then
        Some (Inr (counter, sk_printf S (ascii ''Error in accept: '' @ fmt_d (sk_errno S w1) @
                ascii '' - continuing'' @ [LF]) w1))
      else
        let addr_str = inet_ntop S client_addr 32;
            w2 = sk_printf S (ascii ''Connection #'' @ fmt_d (sint counter) @ ascii '' from '' @ addr_str @ [LF]) w1
        in obind (recv_request S client (0, Reading, w2)) (\<lambda>(req_state, e, w3).
           obind (if e = Request_done then send_content S client content w3
                  else Some (Inr (0, length content, False, w3))) (\<lambda>(data, len, broken, w4).
           case sk_close S client w4 of (ret, w5) \<Rightarrow>
           Some (Inr (counter + 1, sk_printf S
             (if ret = 0 then ascii ''Connection from '' @ addr_str @ ascii '' closed'' @ [LF]
              else ascii ''Got error '' @ fmt_d (sk_errno S w5) @ ascii '' while closing the socket'' @ [LF]) w5)))))"

text \<open>What comes before the loop: the listening socket; the state starts with the thread's \<open>counter\<close>.\<close>

definition server_start :: "('a, 'w) sock_api \<Rightarrow> u32 \<times> 'w \<Rightarrow> (int \<times> u32 \<times> 'w) checked" where
  "server_start S st =
     (case st of (counter, w) \<Rightarrow>
      sbind (CHECK (sk_socket S AF_INET SOCK_STREAM IPPROTO_TCP w)) (\<lambda>(serv, w1).
      sbind (CHECK (sk_bind S serv (any_addr S BIND_PORT) w1)) (\<lambda>(r2, w2).
      sbind (CHECK (sk_listen S serv 5 w2)) (\<lambda>(r3, w3).
      Inr (serv, counter, sk_printf S (ascii ''Single-threaded dumb HTTP server waits for a connection on port '' @
           fmt_d (int BIND_PORT) @ ascii ''...'' @ [LF]) w3)))))"

definition serve_loop :: "('a, 'w) sock_api \<Rightarrow> u8 list \<Rightarrow> int \<Rightarrow> u32 \<times> 'w \<Rightarrow> (u32 \<times> 'w) outcome" where
  "serve_loop S content serv = whileM (\<lambda>st. (True, st)) (serve_once S content serv)"

definition thread_socket_dumb_http :: "('a, 'w) sock_api \<Rightarrow> u8 list \<Rightarrow> u32 \<times> 'w \<Rightarrow> (u32 \<times> 'w) outcome" where
  "thread_socket_dumb_http S content st =
     obind (Some (server_start S st)) (\<lambda>(serv, st1). serve_loop S content serv st1)"

definition DUMB_HTTP_STACKSIZE :: nat where [simp]: "DUMB_HTTP_STACKSIZE = 2048"
definition DUMB_HTTP_PRIORITY :: nat where [simp]: "DUMB_HTTP_PRIORITY = 7"

definition main_socket_dumb_http :: "'w kernel_api \<Rightarrow> 'w \<Rightarrow> 'w" where
  "main_socket_dumb_http Z w =
     k_thread_start Z Thread_socket_dumb_http_data
       (k_thread_create Z Thread_socket_dumb_http_data Thread_socket_dumb_http DUMB_HTTP_STACKSIZE DUMB_HTTP_PRIORITY w)"

section \<open>Recognising a request\<close>

interpretation req_framer: framer req_step "\<lambda>s. s \<le> 3"
  by unfold_locales (auto simp: req_step_def)

lemma recv_request_pass:
  "recv_pass S client (s, Reading, w) = Inr st \<Longrightarrow> recv_request S client (s, Reading, w) = recv_request S client st"
  unfolding recv_request_def by (subst whileM.simps) simp

lemma recv_request_stop: "e \<noteq> Reading \<Longrightarrow> recv_request S client (s, e, w) = Some (Inr (s, e, w))"
  unfolding recv_request_def by (simp add: whileM_stop)

text \<open>Interrupted receives are repeated until one is not.\<close>

lemma recv_request_ready:
  assumes R: "patient_recv S client rx wait \<alpha>"
  shows "\<exists>w'. recv_request S client (s, Reading, w) = recv_request S client (s, Reading, w') \<and>
    wait w' = 0 \<and> rx w' = rx w \<and> \<alpha> w' = \<alpha> w"
proof (induction "wait w" arbitrary: w rule: less_induct)
  case less
  show ?case
  proof (cases "wait w = 0")
    case True
    then show ?thesis by blast
  next
    case False
    with R obtain w1 where 1: "sk_recv S client 1 w = (- 1, [], w1)"
      "sk_errno S w1 = E_AGAIN \<or> sk_errno S w1 = E_INTR" "wait w1 < wait w" "rx w1 = rx w" "\<alpha> w1 = \<alpha> w"
      by (auto elim: patient_again)
    have "recv_request S client (s, Reading, w) = recv_request S client (s, Reading, w1)"
      by (rule recv_request_pass) (simp add: recv_pass_def 1(1,2) del: One_nat_def)
    with less [OF 1(3)] 1(4,5) show ?thesis by metis
  qed
qed

lemma recv_request_byte:
  assumes R: "patient_recv S client rx wait \<alpha>" and "rx w = c # cs"
  shows "\<exists>w'. recv_request S client (s, Reading, w) = recv_request S client
      (fst (req_step c s), if snd (req_step c s) = [] then Reading else Request_done, w') \<and>
    rx w' = cs \<and> \<alpha> w' = \<alpha> w"
proof -
  from recv_request_ready [OF R, of s w] obtain w1 where
    1: "recv_request S client (s, Reading, w) = recv_request S client (s, Reading, w1)"
      "wait w1 = 0" "rx w1 = rx w" "\<alpha> w1 = \<alpha> w" by blast
  from 1(3) assms(2) have "rx w1 = c # cs" by simp
  from R 1(2) this obtain w2 where 2: "sk_recv S client 1 w1 = (1, [c], w2)" "rx w2 = cs" "\<alpha> w2 = \<alpha> w1"
    by (rule patient_byte)
  have "recv_request S client (s, Reading, w1) = recv_request S client
      (fst (req_step c s), if snd (req_step c s) = [] then Reading else Request_done, w2)"
    by (rule recv_request_pass) (cases "req_step c s", simp add: recv_pass_def 2(1) del: One_nat_def)
  with 1 2 show ?thesis by auto
qed

lemma recv_request_scan:
  assumes R: "patient_recv S client rx wait \<alpha>"
  shows "frames req_step xs s = [] \<Longrightarrow> rx w = xs @ ys \<Longrightarrow>
    \<exists>w'. recv_request S client (s, Reading, w) = recv_request S client (residue req_step xs s, Reading, w') \<and>
      rx w' = ys \<and> \<alpha> w' = \<alpha> w"
proof (induction xs arbitrary: s w)
  case Nil
  then show ?case by auto
next
  case (Cons c xs)
  then have e: "snd (req_step c s) = []" and f: "frames req_step xs (fst (req_step c s)) = []" by simp_all
  from Cons.prems(2) have "rx w = c # (xs @ ys)" by simp
  from recv_request_byte [OF R this, of s] e obtain w1 where
    p: "recv_request S client (s, Reading, w) = recv_request S client (fst (req_step c s), Reading, w1)"
      "rx w1 = xs @ ys" "\<alpha> w1 = \<alpha> w" by auto
  from Cons.IH [OF f p(2)] p show ?case by auto
qed

lemma recv_request_done:
  assumes R: "patient_recv S client rx wait \<alpha>" and "frames req_step xs s = []"
    and "snd (req_step c (residue req_step xs s)) \<noteq> []" and "rx w = xs @ c # ys"
  shows "\<exists>s' w'. recv_request S client (s, Reading, w) = Some (Inr (s', Request_done, w')) \<and>
    rx w' = ys \<and> \<alpha> w' = \<alpha> w"
proof -
  from recv_request_scan [OF R assms(2,4)] obtain w1 where
    1: "recv_request S client (s, Reading, w) = recv_request S client (residue req_step xs s, Reading, w1)"
      "rx w1 = c # ys" "\<alpha> w1 = \<alpha> w" by blast
  from recv_request_byte [OF R 1(2), of "residue req_step xs s"] assms(3) obtain w2 where
    2: "recv_request S client (residue req_step xs s, Reading, w1) =
        recv_request S client (fst (req_step c (residue req_step xs s)), Request_done, w2)" "rx w2 = ys" "\<alpha> w2 = \<alpha> w1"
    by auto
  with 1 show ?thesis by (auto simp: recv_request_stop)
qed

lemma recv_request_closed:
  assumes R: "patient_recv S client rx wait \<alpha>" and "frames req_step xs s = []" and "rx w = xs"
    and P: "\<And>bs w. rx (sk_printf S bs w) = rx w \<and> \<alpha> (sk_printf S bs w) = \<alpha> w"
  shows "\<exists>s' w'. recv_request S client (s, Reading, w) = Some (Inr (s', Close_client, w')) \<and>
    rx w' = [] \<and> \<alpha> w' = \<alpha> w"
proof -
  let ?s = "residue req_step xs s"
  from recv_request_scan [OF R assms(2), of w "[]"] assms(3) obtain w1 where
    1: "recv_request S client (s, Reading, w) = recv_request S client (?s, Reading, w1)"
      "rx w1 = []" "\<alpha> w1 = \<alpha> w" by auto
  from recv_request_ready [OF R, of ?s w1] 1(2) obtain w2 where
    2: "recv_request S client (?s, Reading, w1) = recv_request S client (?s, Reading, w2)"
      "wait w2 = 0" "rx w2 = []" "\<alpha> w2 = \<alpha> w1" by auto
  from R 2(2,3) obtain e w3 where 3: "sk_recv S client 1 w2 = (e, [], w3)" "e \<le> 0"
    "e < 0 \<longrightarrow> sk_errno S w3 \<noteq> E_AGAIN \<and> sk_errno S w3 \<noteq> E_INTR" "rx w3 = []" "\<alpha> w3 = \<alpha> w2"
    by (rule patient_end)
  obtain w4 where "recv_pass S client (?s, Reading, w2) = Inr (?s, Close_client, w4)" "rx w4 = []" "\<alpha> w4 = \<alpha> w3"
  proof (cases "e = 0")
    case True
    then show ?thesis by (intro that [of w3]) (simp_all add: recv_pass_def 3(1,4) del: One_nat_def)
  next
    case False
    with 3(2,3) have "e < 0" "sk_errno S w3 \<noteq> E_AGAIN" "sk_errno S w3 \<noteq> E_INTR" by simp_all
    then show ?thesis using P
      by (intro that [of "sk_printf S (ascii ''Got error '' @ fmt_d (sk_errno S w3) @
            ascii '' when receiving from socket'' @ [LF]) w3"])
         (simp_all add: recv_pass_def 3(1,4) del: One_nat_def)
  qed
  with 1 2 3(5) show ?thesis by (auto simp: recv_request_pass recv_request_stop)
qed

text \<open>Requests: non-empty header lines without \<open>\r\<close>, each ended by \<open>\r\n\<close>.\<close>

definition header_line :: "u8 list \<Rightarrow> bool" where
  "header_line l \<longleftrightarrow> l \<noteq> [] \<and> CR \<notin> set l"

definition header_bytes :: "u8 list list \<Rightarrow> u8 list" where
  "header_bytes ls = concat (map (\<lambda>l. l @ [CR, LF]) ls)"

lemma req_line_body:
  "CR \<notin> set l \<Longrightarrow> frames req_step l 0 = [] \<and> residue req_step l 0 = 0"
  by (induction l) (auto simp: req_step_def)

lemma req_line:
  assumes "header_line l" and "s = 0 \<or> s = 2"
  shows "frames req_step (l @ [CR, LF]) s = [] \<and> residue req_step (l @ [CR, LF]) s = 2"
proof -
  obtain c cs where l: "l = c # cs" "c \<noteq> CR" "CR \<notin> set cs" using assms(1) by (cases l) (auto simp: header_line_def)
  have "req_step c s = (0, [])" using l(2) assms(2) by (auto simp: req_step_def)
  with req_line_body [OF l(3)] show ?thesis
    by (simp add: l(1) frames_append) (simp add: req_step_def)
qed

lemma req_lines:
  "list_all header_line ls \<Longrightarrow> s = 0 \<or> s = 2 \<Longrightarrow>
     frames req_step (header_bytes ls) s = [] \<and>
     residue req_step (header_bytes ls) s = (if ls = [] then s else 2)"
proof (induction ls arbitrary: s)
  case Nil
  then show ?case by (simp add: header_bytes_def)
next
  case (Cons l ls)
  with req_line [of l s] Cons.IH [of 2] show ?case
    by (simp add: header_bytes_def frames_append del: append_assoc flip: append_assoc)
qed

section \<open>Sending the page\<close>

text \<open>What is left to send shrinks with every pass, until the loop is broken off or done.\<close>

lemma send_content_run:
  fixes \<alpha> :: "'w \<Rightarrow> 'b"
  assumes S: "send_contract S client tx \<alpha>"
    and out: "\<And>bs w. tx (sk_printf S bs w) = tx w \<and> \<alpha> (sk_printf S bs w) = \<alpha> w"
    and len: "length content < 2 ^ 32"
  shows "\<exists>data n broken w'. send_content S client content w = Some (Inr (data, n, broken, w')) \<and>
     \<alpha> w' = \<alpha> w \<and> (\<exists>k. tx w' = tx w @ take k content \<and>
       ((\<forall>bs u. bs \<noteq> [] \<and> \<alpha> u = \<alpha> w \<longrightarrow> fst (sk_send S client bs u) \<noteq> - 1) \<longrightarrow> length content \<le> k))"
proof -
  let ?live = "\<forall>bs u. bs \<noteq> [] \<and> \<alpha> u = \<alpha> w \<longrightarrow> fst (sk_send S client bs u) \<noteq> - 1"
  let ?P = "\<lambda>(data :: int, n :: nat, broken :: bool, u :: 'w). \<exists>k. data = int k \<and> k + n = length content \<and>
      tx u = tx w @ take k content \<and> \<alpha> u = \<alpha> w \<and> (?live \<longrightarrow> \<not> broken)"
  let ?Q = "\<lambda>(data :: int, n :: nat, broken :: bool, u :: 'w). \<exists>k. data = int k \<and> k + n = length content \<and>
      tx u = tx w @ take k content \<and> \<alpha> u = \<alpha> w \<and> (?live \<longrightarrow> n = 0)"
  let ?m = "\<lambda>(data :: int, n :: nat, broken :: bool, u :: 'w). if broken then 0 else n"
  have "\<exists>s'. send_content S client content w = Some (Inr s') \<and> ?Q s'"
    unfolding send_content_def
  proof (rule whileM_total [where P = ?P and m = ?m])
    show "?P (0, length content, False, w)" by simp
  next
    fix s s1 assume P: "?P s" and g: "(case s of (data, len, broken, w) \<Rightarrow>
        (\<not> broken \<and> len \<noteq> 0, data, len, broken, w)) = (True, s1)"
    then obtain k n u where s: "s = (int k, n, False, u)" "s1 = s" "0 < n" "k + n = length content"
      "tx u = tx w @ take k content" "\<alpha> u = \<alpha> w" by (cases s) auto
    let ?bs = "take n (drop k content)"
    have bs: "mem_get k n content = Inr ?bs" "?bs \<noteq> []" "length ?bs = n"
      using s(3,4) by (simp_all add: mem_simps)
    from S bs(2) have "(\<exists>j w'. 0 < j \<and> j \<le> length ?bs \<and> sk_send S client ?bs u = (int j, w') \<and>
        tx w' = tx u @ take j ?bs \<and> \<alpha> w' = \<alpha> u) \<or>
      (\<exists>w'. sk_send S client ?bs u = (- 1, w') \<and> tx w' = tx u \<and> \<alpha> w' = \<alpha> u)"
      unfolding send_contract_def by blast
    then show "\<exists>s2. Some (send_pass S client content s1) = Some (Inr s2) \<and> ?P s2 \<and> ?m s2 < ?m s"
    proof (elim disjE exE conjE)
      fix j w' assume j: "0 < j" "j \<le> length ?bs" "sk_send S client ?bs u = (int j, w')"
        "tx w' = tx u @ take j ?bs" "\<alpha> w' = \<alpha> u"
      have "nat ((int n - int j) mod 2 ^ 32) = n - j"
        using j(2) bs(3) s(4) len size_sub_le [of j n] by (simp add: size_sub_def)
      then have "send_pass S client content s1 = Inr (int (k + j), n - j, False, w')"
        using s(1,2) bs(1) j(1,3) by (simp add: send_pass_def)
      moreover have "?P (int (k + j), n - j, False, w')"
        unfolding prod.case using s(4,5,6) j bs(3)
        by (intro exI [of _ "k + j"]) (simp add: take_add min_def)
      ultimately show ?thesis using s(1,3) j(1) by auto
    next
      fix w' assume j: "sk_send S client ?bs u = (- 1, w')" "tx w' = tx u" "\<alpha> w' = \<alpha> u"
      let ?w = "sk_printf S (ascii ''Error sending data to peer, errno: '' @ fmt_d (sk_errno S w') @ [LF]) w'"
      have "\<not> ?live" using j(1) bs(2) s(6) by (metis fst_conv)
      then have "?P (int k, n, True, ?w)" using s j out by simp
      moreover have "send_pass S client content s1 = Inr (int k, n, True, ?w)"
        using s(1,2) bs(1) j(1) by (simp add: send_pass_def)
      ultimately show ?thesis using s(1,3) by auto
    qed
  next
    fix s s1 assume P: "?P s" and g: "(case s of (data, len, broken, w) \<Rightarrow>
        (\<not> broken \<and> len \<noteq> 0, data, len, broken, w)) = (False, s1)"
    then show "?Q s1" by (cases s) (auto split: if_splits)
  qed
  then obtain s' where s': "send_content S client content w = Some (Inr s')" "?Q s'" by blast
  obtain data n broken u where t: "s' = (data, n, broken, u)" by (cases s')
  from s'(2) obtain k where "k + n = length content" "tx u = tx w @ take k content" "\<alpha> u = \<alpha> w"
    "?live \<longrightarrow> n = 0" unfolding t prod.case by (elim exE conjE) rule
  with s'(1) t show ?thesis
    by (intro exI [of _ data] exI [of _ n] exI [of _ broken] exI [of _ u]) auto
qed

section \<open>Serving a connection\<close>

text \<open>
  What the server relies on for connection \<open>client\<close>: \<open>rx w\<close> and \<open>tx w\<close> are what is to come on
  it and what has been sent, \<open>served w\<close> the connections closed so far, each with what was
  sent, and \<open>q w\<close> anything that a connection leaves alone. No send on a connection that is \<open>live\<close>
  fails; whether it is one is settled when it is accepted. Printing is seen by nobody.
\<close>

definition connection_contract ::
    "('a, 'w) sock_api \<Rightarrow> int \<Rightarrow> ('w \<Rightarrow> u8 list) \<Rightarrow> ('w \<Rightarrow> u8 list) \<Rightarrow> ('w \<Rightarrow> nat) \<Rightarrow>
     ('w \<Rightarrow> (int \<times> u8 list) list) \<Rightarrow> ('w \<Rightarrow> bool) \<Rightarrow> ('w \<Rightarrow> 'q) \<Rightarrow> bool" where
  [contract_defs]: "connection_contract S client rx tx wait served live q \<longleftrightarrow>
     patient_recv S client rx wait (\<lambda>w. (tx w, served w, live w, q w)) \<and>
     send_contract S client tx (\<lambda>w. (rx w, served w, live w, q w)) \<and>
     (\<forall>bs w. bs \<noteq> [] \<and> live w \<longrightarrow> fst (sk_send S client bs w) \<noteq> - 1) \<and>
     (\<forall>w. served (snd (sk_close S client w)) = served w @ [(client, tx w)] \<and>
        rx (snd (sk_close S client w)) = rx w \<and> q (snd (sk_close S client w)) = q w) \<and>
     (\<forall>bs w. rx (sk_printf S bs w) = rx w \<and> tx (sk_printf S bs w) = tx w \<and>
        served (sk_printf S bs w) = served w \<and> live (sk_printf S bs w) = live w \<and> q (sk_printf S bs w) = q w)"

lemma connection_close:
  assumes "connection_contract S client rx tx wait served live q" and "sk_close S client w = (r, w')"
  shows "served w' = served w @ [(client, tx w)] \<and> rx w' = rx w \<and> q w' = q w"
proof -
  have "served (snd (sk_close S client w)) = served w @ [(client, tx w)] \<and>
      rx (snd (sk_close S client w)) = rx w \<and> q (snd (sk_close S client w)) = q w"
    using assms(1) unfolding connection_contract_def by blast
  with assms(2) show ?thesis by simp
qed

lemma serve_once_done:
  assumes C: "connection_contract S client rx tx wait served live q" and len: "length content < 2 ^ 32"
    and acc: "sk_accept S serv w = (client, a, w1)" "0 \<le> client"
    and req: "rx w1 = xs @ c # rest" "frames req_step xs 0 = []" "snd (req_step c (residue req_step xs 0)) \<noteq> []"
  shows "\<exists>k w'. serve_once S content serv (counter, w) = Some (Inr (counter + 1, w')) \<and>
    rx w' = rest \<and> q w' = q w1 \<and> served w' = served w1 @ [(client, tx w1 @ take k content)] \<and>
    ((\<forall>bs u. fst (sk_send S client bs u) \<noteq> - 1) \<or> live w1 \<longrightarrow> length content \<le> k)"
proof -
  from C have R: "patient_recv S client rx wait (\<lambda>w. (tx w, served w, live w, q w))"
    and Snd: "send_contract S client tx (\<lambda>w. (rx w, served w, live w, q w))"
    and out: "\<And>bs w. rx (sk_printf S bs w) = rx w" "\<And>bs w. tx (sk_printf S bs w) = tx w"
      "\<And>bs w. served (sk_printf S bs w) = served w" "\<And>bs w. live (sk_printf S bs w) = live w" "\<And>bs w. q (sk_printf S bs w) = q w"
    by (simp_all add: connection_contract_def)
  let ?w2 = "sk_printf S (ascii ''Connection #'' @ fmt_d (sint counter) @ ascii '' from '' @ inet_ntop S a 32 @ [LF]) w1"
  have "rx ?w2 = xs @ c # rest" using req(1) out by simp
  from recv_request_done [where rx = rx and w = ?w2, OF R req(2,3) this] obtain s' w3 where
    3: "recv_request S client (0, Reading, ?w2) = Some (Inr (s', Request_done, w3))" "rx w3 = rest"
      "(tx w3, served w3, live w3, q w3) = (tx ?w2, served ?w2, live ?w2, q ?w2)" by (elim exE conjE)
  have out2: "tx (sk_printf S bs w) = tx w \<and>
      (rx (sk_printf S bs w), served (sk_printf S bs w), live (sk_printf S bs w), q (sk_printf S bs w)) = (rx w, served w, live w, q w)" for bs w
    by (simp add: out)
  from send_content_run [OF Snd out2 len, of w3] obtain data n broken w4 k where
    4: "send_content S client content w3 = Some (Inr (data, n, broken, w4))" "(rx w4, served w4, live w4, q w4) = (rx w3, served w3, live w3, q w3)"
      "tx w4 = tx w3 @ take k content" "(\<forall>bs u. bs \<noteq> [] \<and> (rx u, served u, live u, q u) = (rx w3, served w3, live w3, q w3) \<longrightarrow>
        fst (sk_send S client bs u) \<noteq> - 1) \<longrightarrow> length content \<le> k"
    by (elim exE conjE)
  have "live w \<Longrightarrow> bs \<noteq> [] \<Longrightarrow> fst (sk_send S client bs w) \<noteq> - 1" for bs w
    using C unfolding connection_contract_def by blast
  then have all: "(\<forall>bs u. fst (sk_send S client bs u) \<noteq> - 1) \<or> live w1 \<longrightarrow> length content \<le> k"
    using 4(4) 3(3) out(4) by auto
  obtain ret w5 where 5: "sk_close S client w4 = (ret, w5)" by (cases "sk_close S client w4")
  let ?w6 = "sk_printf S (if ret = 0 then ascii ''Connection from '' @ inet_ntop S a 32 @ ascii '' closed'' @ [LF]
      else ascii ''Got error '' @ fmt_d (sk_errno S w5) @ ascii '' while closing the socket'' @ [LF]) w5"
  have "serve_once S content serv (counter, w) = Some (Inr (counter + 1, ?w6))"
    unfolding serve_once_def Let_def using acc by (simp only: prod.case not_le [symmetric] 3(1) 4(1) 5 obind_simps simp_thms if_True if_False)
  moreover have "rx ?w6 = rest" "q ?w6 = q w1" "served ?w6 = served w1 @ [(client, tx w1 @ take k content)]"
    using connection_close [OF C 5] 3(2-3) 4(2-3) by (simp_all only: out prod.inject)
  ultimately show ?thesis using all by (intro exI [of _ k] exI [of _ ?w6] conjI) (assumption+)
qed

lemma serve_once_closed:
  assumes C: "connection_contract S client rx tx wait served live q"
    and acc: "sk_accept S serv w = (client, a, w1)" "0 \<le> client"
    and req: "frames req_step (rx w1) 0 = []"
  shows "\<exists>w'. serve_once S content serv (counter, w) = Some (Inr (counter + 1, w')) \<and>
    rx w' = [] \<and> q w' = q w1 \<and> served w' = served w1 @ [(client, tx w1)]"
proof -
  from C have R: "patient_recv S client rx wait (\<lambda>w. (tx w, served w, live w, q w))"
    and out: "\<And>bs w. rx (sk_printf S bs w) = rx w" "\<And>bs w. tx (sk_printf S bs w) = tx w"
      "\<And>bs w. served (sk_printf S bs w) = served w" "\<And>bs w. live (sk_printf S bs w) = live w" "\<And>bs w. q (sk_printf S bs w) = q w"
    by (simp_all add: connection_contract_def)
  have out2: "rx (sk_printf S bs w) = rx w \<and>
      (tx (sk_printf S bs w), served (sk_printf S bs w), live (sk_printf S bs w), q (sk_printf S bs w)) = (tx w, served w, live w, q w)" for bs w
    by (simp add: out)
  let ?w2 = "sk_printf S (ascii ''Connection #'' @ fmt_d (sint counter) @ ascii '' from '' @ inet_ntop S a 32 @ [LF]) w1"
  have "rx ?w2 = rx w1" using out by simp
  from recv_request_closed [where rx = rx and w = ?w2, OF R req this out2] obtain s' w3 where
    3: "recv_request S client (0, Reading, ?w2) = Some (Inr (s', Close_client, w3))" "rx w3 = []"
      "(tx w3, served w3, live w3, q w3) = (tx ?w2, served ?w2, live ?w2, q ?w2)" by (elim exE conjE)
  obtain ret w5 where 5: "sk_close S client w3 = (ret, w5)" by (cases "sk_close S client w3")
  let ?w6 = "sk_printf S (if ret = 0 then ascii ''Connection from '' @ inet_ntop S a 32 @ ascii '' closed'' @ [LF]
      else ascii ''Got error '' @ fmt_d (sk_errno S w5) @ ascii '' while closing the socket'' @ [LF]) w5"
  have "serve_once S content serv (counter, w) = Some (Inr (counter + 1, ?w6))"
    unfolding serve_once_def Let_def using acc
    by (simp only: prod.case not_le [symmetric] 3(1) 5 obind_simps simp_thms if_True if_False req_end.simps)
  moreover have "rx ?w6 = []" "q ?w6 = q w1" "served ?w6 = served w1 @ [(client, tx w1)]"
    using connection_close [OF C 5] 3(2-3) by (simp_all only: out prod.inject)
  ultimately show ?thesis by (intro exI [of _ ?w6] conjI) (assumption+)
qed

section \<open>Properties\<close>

text \<open>
  C14. A connection whose bytes start with a well-formed request (at least one header line, the
  blank line) is answered: exactly the request is read, what is sent is a prefix of the page, and
  all of it if no send fails, be it on this connection or ever on its descriptor, however the stack
  splits receives and sends; the connection is closed once, and the server is ready for the next
  one.
\<close>

theorem dumb_http_serves_page:
  assumes "connection_contract S client rx tx wait served live q" and "length content < 2 ^ 32"
    and "sk_accept S serv w = (client, a, w1)" and "0 \<le> client"
    and "rx w1 = header_bytes ls @ [CR, LF] @ rest" and "ls \<noteq> []" and "list_all header_line ls"
  shows "\<exists>k w'. serve_once S content serv (counter, w) = Some (Inr (counter + 1, w')) \<and>
    rx w' = rest \<and> q w' = q w1 \<and> served w' = served w1 @ [(client, tx w1 @ take k content)] \<and>
    ((\<forall>bs u. fst (sk_send S client bs u) \<noteq> - 1) \<or> live w1 \<longrightarrow> length content \<le> k)"
proof (rule serve_once_done [OF assms(1-4)])
  from req_lines [OF assms(7), of 0] assms(6) have
    h: "frames req_step (header_bytes ls) 0 = []" "residue req_step (header_bytes ls) 0 = 2" by simp_all
  show "rx w1 = (header_bytes ls @ [CR]) @ LF # rest" using assms(5) by simp
  show "frames req_step (header_bytes ls @ [CR]) 0 = []" using h by (simp add: frames_append req_step_def)
  show "snd (req_step LF (residue req_step (header_bytes ls @ [CR]) 0)) \<noteq> []" using h by (simp add: req_step_def)
qed

text \<open>
  A client that closes before the blank line gets nothing: everything it sent is read, no
  byte is sent, and its connection is closed.
\<close>

lemma dumb_http_half_request:
  assumes "connection_contract S client rx tx wait served live q"
    and "sk_accept S serv w = (client, a, w1)" and "0 \<le> client"
    and "rx w1 = header_bytes ls @ l" and "list_all header_line ls" and "CR \<notin> set l"
  shows "\<exists>w'. serve_once S content serv (counter, w) = Some (Inr (counter + 1, w')) \<and>
    rx w' = [] \<and> q w' = q w1 \<and> served w' = served w1 @ [(client, tx w1)]"
proof (rule serve_once_closed [OF assms(1-3)])
  have "frames req_step l s = []" if "s = 0 \<or> s = 2" for s
    using that assms(6) req_line_body by (cases l) (auto simp: req_step_def)
  with req_lines [OF assms(5), of 0] show "frames req_step (rx w1) 0 = []"
    by (simp add: assms(4) frames_append)
qed

text \<open>
  C38. The machine goes back to its start on a repeated \<open>\r\<close>: a request in which bytes without a
  \<open>\r\<close> are directly followed by a stray \<open>\r\<close> and then by its blank line is not recognised, and its
  client is never answered.
\<close>

theorem stray_cr_hides_blank_line:
  assumes "connection_contract S client rx tx wait served live q"
    and "sk_accept S serv w = (client, a, w1)" and "0 \<le> client"
    and "rx w1 = l @ [CR] @ [CR, LF] @ [CR, LF]" and "CR \<notin> set l"
  shows "\<exists>w'. serve_once S content serv (counter, w) = Some (Inr (counter + 1, w')) \<and>
    rx w' = [] \<and> q w' = q w1 \<and> served w' = served w1 @ [(client, tx w1)]"
proof (rule serve_once_closed [OF assms(1-3)])
  show "frames req_step (rx w1) 0 = []"
    using req_line_body [OF assms(5)] by (simp add: assms(4) frames_append) (simp add: req_step_def)
qed

section \<open>Runs of the properties\<close>

lemma net_connection: "connection_contract net_sock 4 net_rx net_tx (\<lambda>w. 0) net_served (\<lambda>w. True) (\<lambda>w. ())"
proof -
  have "patient_recv net_sock 4 net_rx (\<lambda>w. 0) (\<lambda>w. (net_tx w, net_served w, True, ()))" by (rule net_patient_recv) simp
  moreover have "send_contract net_sock 4 net_tx (\<lambda>w. (net_rx w, net_served w, True, ()))" by (rule net_send_contract) simp
  ultimately show ?thesis by (simp add: connection_contract_def) (simp add: net_sock_def)
qed

lemma net_accept: "sk_accept net_sock serv w = (4, 0, w)"
  by (simp add: net_sock_def)

lemma net_sends: "fst (sk_send net_sock s bs w) \<noteq> - 1"
  by (simp add: net_sock_def)

theorem dumb_http_serves_page_witness:
  "\<exists>w'. serve_once net_sock (ascii ''<html>hello</html>'') 3 (0, net0 (ascii ''GET /'' @ [CR, LF, CR, LF, 88])) =
     Some (Inr (1, w')) \<and> net_rx w' = [88] \<and> net_served w' = [(4, ascii ''<html>hello</html>'')]"
proof -
  have "\<exists>k w'. serve_once net_sock (ascii ''<html>hello</html>'') 3 (0, net0 (ascii ''GET /'' @ [CR, LF, CR, LF, 88])) =
      Some (Inr (0 + 1, w')) \<and> net_rx w' = [88] \<and> () = () \<and>
      net_served w' = net_served (net0 (ascii ''GET /'' @ [CR, LF, CR, LF, 88])) @
        [(4, net_tx (net0 (ascii ''GET /'' @ [CR, LF, CR, LF, 88])) @ take k (ascii ''<html>hello</html>''))] \<and>
      ((\<forall>bs u. fst (sk_send net_sock 4 bs u) \<noteq> - 1) \<or> True \<longrightarrow> length (ascii ''<html>hello</html>'') \<le> k)"
    by (rule dumb_http_serves_page [OF net_connection _ net_accept, where ls = "[ascii ''GET /'']"])
       (simp_all add: net0_def header_bytes_def header_line_def, simp add: ascii_def)
  then show ?thesis using net_sends by (auto simp: net0_def)
qed

theorem stray_cr_hides_blank_line_witness:
  "\<exists>w'. serve_once net_sock (ascii ''<html>'') 3 (0, net0 (ascii ''GET /'' @ [CR, CR, LF, CR, LF])) =
     Some (Inr (1, w')) \<and> net_rx w' = [] \<and> net_served w' = [(4, [])]"
  using stray_cr_hides_blank_line [OF net_connection net_accept, where l = "ascii ''GET /''" and counter = 0
    and serv = 3 and content = "ascii ''<html>''" and w = "net0 (ascii ''GET /'' @ [CR, CR, LF, CR, LF])"]
  by (simp add: net0_def ascii_def)

end
