(* ===== verification/Http_Server_System.thy ===== *)
theory Http_Server_System
  imports Socket_Dumb_Http "HOL-Library.Sublist"
begin

text \<open>
  The HTTP server over its whole life: which requests its four states recognise, what a
  sequence of clients gets, that its passes are completed as long as the receives of each
  connection come to an end, and what a silent client does to it.
\<close>

section \<open>Requests\<close>

text \<open>The reference: the request ends with the first blank line.\<close>

definition has_blank_line :: "u8 list \<Rightarrow> bool" where
  "has_blank_line bs \<longleftrightarrow> sublist [CR, LF, CR, LF] bs"

definition answers :: "u8 list \<Rightarrow> bool" where
  "answers bs \<longleftrightarrow> frames req_step bs 0 \<noteq> []"

text \<open>What a state says of the bytes just read.\<close>

definition state_bytes :: "nat \<Rightarrow> u8 list" where
  "state_bytes s = take s [CR, LF, CR]"

lemma state_bytes_simps [simp]:
  "state_bytes 0 = []" "state_bytes (Suc 0) = [CR]" "state_bytes 2 = [CR, LF]" "state_bytes 3 = [CR, LF, CR]"
  by (simp_all add: state_bytes_def numeral_2_eq_2 numeral_3_eq_3)

lemma state_cases:
  assumes "s \<le> 3"
  obtains "s = 0" | "s = Suc 0" | "s = 2" | "s = (3 :: nat)"
  using assms by linarith

lemma req_step_state:
  "req_step c 0 = (if c = CR then Suc 0 else 0, [])"
  "req_step c (Suc 0) = (if c = LF then 2 else 0, [])"
  "req_step c 2 = (if c = CR then 3 else 0, [])"
  "req_step c 3 = (if c = LF then (3, [()]) else (0, []))"
  by (simp_all add: req_step_def)

lemma req_sound:
  "s \<le> 3 \<Longrightarrow> frames req_step bs s \<noteq> [] \<Longrightarrow> has_blank_line (state_bytes s @ bs)"
proof (induction bs arbitrary: s)
  case Nil
  then show ?case by simp
next
  case (Cons c bs)
  show ?case
    by (rule state_cases [OF Cons.prems(1)]; use Cons.prems(2) Cons.IH [of 0] Cons.IH [of "Suc 0"] Cons.IH [of 2] Cons.IH [of 3] in
       \<open>auto simp: req_step_state has_blank_line_def sublist_Cons_right split: if_splits\<close>)
qed

lemma req_complete:
  "s \<le> 3 \<Longrightarrow> \<not> sublist [CR, CR] (state_bytes s @ bs) \<Longrightarrow> has_blank_line (state_bytes s @ bs) \<Longrightarrow> frames req_step bs s \<noteq> []"
proof (induction bs arbitrary: s)
  case Nil
  show ?case
    by (rule state_cases [OF Nil.prems(1)]; use Nil.prems(3) in \<open>simp add: has_blank_line_def sublist_Cons_right\<close>)
next
  case (Cons c bs)
  show ?case
    by (rule state_cases [OF Cons.prems(1)]; use Cons.prems(2,3) Cons.IH [of 0] Cons.IH [of "Suc 0"] Cons.IH [of 2] Cons.IH [of 3] in
       \<open>auto simp: req_step_state has_blank_line_def sublist_Cons_right split: if_splits\<close>)
qed

section \<open>Many clients\<close>

text \<open>
  \<open>arrivals w\<close> is what \<^verbatim>\<open>accept\<close> will answer: a client, with all it sends before it closes
  or its connection fails and whether its connection is live (no send on it fails), or \<open>None\<close>,
  an error. A new connection starts with nothing sent on it, whatever became of the one before on
  the same descriptor.
\<close>

type_synonym arrival = "(u8 list \<times> bool) option"

primrec clients :: "arrival list \<Rightarrow> (u8 list \<times> bool) list" where
  "clients [] = []"
| "clients (a # as) = (case a of None \<Rightarrow> clients as | Some c \<Rightarrow> c # clients as)"

definition server_contract ::
    "('a, 'w) sock_api \<Rightarrow> int \<Rightarrow> ('w \<Rightarrow> u8 list) \<Rightarrow> ('w \<Rightarrow> u8 list) \<Rightarrow> ('w \<Rightarrow> nat) \<Rightarrow>
     ('w \<Rightarrow> (int \<times> u8 list) list) \<Rightarrow> ('w \<Rightarrow> bool) \<Rightarrow> ('w \<Rightarrow> arrival list) \<Rightarrow> bool" where
  [contract_defs]: "server_contract S serv rx tx wait served live arrivals \<longleftrightarrow>
     (\<forall>client. connection_contract S client rx tx wait served live arrivals) \<and>
     (\<forall>w rest. arrivals w = None # rest \<longrightarrow> (\<exists>client a w'. sk_accept S serv w = (client, a, w') \<and> client < 0 \<and>
        arrivals w' = rest \<and> served w' = served w)) \<and>
     (\<forall>w bs ok rest. arrivals w = Some (bs, ok) # rest \<longrightarrow> (\<exists>client a w'. sk_accept S serv w = (client, a, w') \<and> 0 \<le> client \<and>
        rx w' = bs \<and> tx w' = [] \<and> live w' = ok \<and> arrivals w' = rest \<and> served w' = served w))"

text \<open>So many passes of the server's loop.\<close>

primrec serve_n :: "('a, 'w) sock_api \<Rightarrow> u8 list \<Rightarrow> int \<Rightarrow> nat \<Rightarrow> u32 \<times> 'w \<Rightarrow> (u32 \<times> 'w) outcome" where
  "serve_n S content serv 0 st = Some (Inr st)"
| "serve_n S content serv (Suc n) st = obind (serve_once S content serv st) (serve_n S content serv n)"

lemma serve_loop_unroll: "serve_loop S content serv st = obind (serve_n S content serv n st) (serve_loop S content serv)"
proof (induction n arbitrary: st)
  case 0
  then show ?case by simp
next
  case (Suc n)
  have "serve_loop S content serv st = obind (serve_once S content serv st) (serve_loop S content serv)"
    unfolding serve_loop_def by (rule whileM_go) simp
  also have "\<dots> = obind (serve_n S content serv (Suc n) st) (serve_loop S content serv)"
  proof (cases "serve_once S content serv st")
    case (Some r)
    then show ?thesis by (cases r) (simp_all add: Suc.IH [symmetric])
  qed simp
  finally show ?case .
qed

text \<open>What a client is sent: the page if it asked, all of it if its connection is live, a prefix if not.\<close>

definition reply_ok :: "u8 list \<Rightarrow> u8 list \<times> bool \<Rightarrow> int \<times> u8 list \<Rightarrow> bool" where
  "reply_ok content c r \<longleftrightarrow>
     (if answers (fst c) then prefix (snd r) content \<and> (snd c \<longrightarrow> snd r = content) else snd r = [])"

lemma serve_once_client:
  assumes C: "connection_contract S client rx tx wait served live q" and len: "length content < 2 ^ 32"
    and acc: "sk_accept S serv w = (client, a, w1)" "0 \<le> client"
  shows "\<exists>sent w'. serve_once S content serv (counter, w) = Some (Inr (counter + 1, w')) \<and> q w' = q w1 \<and>
    served w' = served w1 @ [(client, tx w1 @ sent)] \<and> reply_ok content (rx w1, live w1) (client, sent)"
proof (cases "answers (rx w1)")
  case False
  then have "frames req_step (rx w1) 0 = []" by (simp add: answers_def)
  from serve_once_closed [OF C acc this, of content counter] False show ?thesis
    by (elim exE conjE, intro exI [of _ "[]"] exI conjI) (assumption | simp add: reply_ok_def)+
next
  case True
  then have "frames req_step (rx w1) 0 \<noteq> []" by (simp add: answers_def)
  then obtain xs c rest where "rx w1 = xs @ c # rest" "frames req_step xs 0 = []" "snd (req_step c (residue req_step xs 0)) \<noteq> []"
    by (rule first_frame)
  from serve_once_done [OF C len acc this, of counter] obtain k w' where
    r: "serve_once S content serv (counter, w) = Some (Inr (counter + 1, w'))" "q w' = q w1"
      "served w' = served w1 @ [(client, tx w1 @ take k content)]"
      "(\<forall>bs u. fst (sk_send S client bs u) \<noteq> - 1) \<or> live w1 \<longrightarrow> length content \<le> k" by (elim exE conjE)
  from r(4) True have "reply_ok content (rx w1, live w1) (client, take k content)" by (simp add: reply_ok_def take_is_prefix)
  with r(1-3) show ?thesis by (intro exI conjI)
qed

lemma serve_n_clients:
  assumes S: "server_contract S serv rx tx wait served live arrivals" and len: "length content < 2 ^ 32"
  shows "arrivals w = as @ later \<Longrightarrow>
    \<exists>w' replies. serve_n S content serv (length as) (counter, w) =
        Some (Inr (counter + word_of_nat (length (clients as)), w')) \<and>
      arrivals w' = later \<and> served w' = served w @ replies \<and>
      list_all2 (reply_ok content) (clients as) replies"
proof (induction as arbitrary: w counter)
  case Nil
  then show ?case by simp
next
  case (Cons a as)
  show ?case
  proof (cases a)
    case None
    with Cons.prems S obtain client ad w1 where
      1: "sk_accept S serv w = (client, ad, w1)" "client < 0" "arrivals w1 = as @ later" "served w1 = served w"
      unfolding server_contract_def by (metis append_Cons)
    let ?w2 = "sk_printf S (ascii ''Error in accept: '' @ fmt_d (sk_errno S w1) @ ascii '' - continuing'' @ [LF]) w1"
    from S have p: "arrivals ?w2 = arrivals w1" "served ?w2 = served w1"
      by (simp_all add: server_contract_def connection_contract_def)
    have "serve_once S content serv (counter, w) = Some (Inr (counter, ?w2))"
      unfolding serve_once_def using 1(1,2) by (simp only: prod.case if_True)
    moreover from Cons.IH [of ?w2 counter] p 1(3) obtain w' replies where
      "serve_n S content serv (length as) (counter, ?w2) =
         Some (Inr (counter + word_of_nat (length (clients as)), w'))" "arrivals w' = later"
      "served w' = served ?w2 @ replies" "list_all2 (reply_ok content) (clients as) replies" by auto
    ultimately show ?thesis using None p(2) 1(4)
      by (intro exI [of _ w'] exI [of _ replies]) simp
  next
    case (Some c)
    obtain bs ok where c: "c = (bs, ok)" by (cases c)
    with Some Cons.prems S obtain client ad w1 where
      1: "sk_accept S serv w = (client, ad, w1)" "0 \<le> client" "rx w1 = bs" "tx w1 = []" "live w1 = ok"
        "arrivals w1 = as @ later" "served w1 = served w"
      unfolding server_contract_def by (metis append_Cons)
    from S have "connection_contract S client rx tx wait served live arrivals" by (simp add: server_contract_def)
    from serve_once_client [OF this len 1(1,2), of counter] obtain sent w2 where
      2: "serve_once S content serv (counter, w) = Some (Inr (counter + 1, w2))" "arrivals w2 = arrivals w1"
        "served w2 = served w1 @ [(client, tx w1 @ sent)]" "reply_ok content (rx w1, live w1) (client, sent)"
      by (elim exE conjE)
    from Cons.IH [of w2 "counter + 1"] 2(2) 1(6) obtain w' replies where
      "serve_n S content serv (length as) (counter + 1, w2) =
         Some (Inr (counter + 1 + word_of_nat (length (clients as)), w'))" "arrivals w' = later"
      "served w' = served w2 @ replies" "list_all2 (reply_ok content) (clients as) replies" by auto
    with 2 1 Some c show ?thesis
      by (intro exI [of _ w'] exI [of _ "(client, sent) # replies"]) simp
  qed
qed

lemma serve_once_returns:
  assumes C: "\<And>client. connection_contract S client rx tx wait served live q" and len: "length content < 2 ^ 32"
  shows "\<exists>st'. serve_once S content serv st = Some (Inr st')"
proof -
  obtain counter w where st: "st = (counter, w)" by (cases st)
  obtain client a w1 where acc: "sk_accept S serv w = (client, a, w1)" by (cases "sk_accept S serv w")
  show ?thesis
  proof (cases "client < 0")
    case True
    then show ?thesis by (simp add: serve_once_def st acc)
  next
    case False
    then have "0 \<le> client" by simp
    from serve_once_client [OF C len acc this, of counter] show ?thesis unfolding st by (elim exE conjE) (rule exI)
  qed
qed

text \<open>A client that stays connected and silent: its receives ask to be repeated for ever.\<close>

lemma silent_client_blocks:
  assumes acc: "sk_accept S serv w = (client, a, w1)" "0 \<le> client" and q: "silent w1"
    and again: "\<And>w. silent w \<Longrightarrow> \<exists>w'. sk_recv S client 1 w = (- 1, [], w') \<and> sk_errno S w' = E_AGAIN \<and> silent w'"
    and out: "\<And>bs w. silent w \<Longrightarrow> silent (sk_printf S bs w)"
  shows "serve_once S content serv (counter, w) = None"
proof -
  have "recv_request S client (0, Reading, u) = None" if "silent u" for u
    unfolding recv_request_def
  proof (rule whileM_diverges [where P = "\<lambda>(s, e, w). e = Reading \<and> silent w"])
    fix st :: "nat \<times> req_end \<times> 'b" assume P: "case st of (s, e, w) \<Rightarrow> e = Reading \<and> silent w"
    obtain s e v where st: "st = (s, e, v)" by (cases st)
    with P have "silent v" by simp
    from again [OF this] obtain v' where v: "sk_recv S client 1 v = (- 1, [], v')" "sk_errno S v' = E_AGAIN" "silent v'" by blast
    with P st show "\<exists>st1 st2. (case st of (req_state, e, w) \<Rightarrow> (e = Reading, req_state, e, w)) = (True, st1) \<and>
        Some (recv_pass S client st1) = Some (Inr st2) \<and> (case st2 of (s, e, w) \<Rightarrow> e = Reading \<and> silent w)"
      by (simp add: recv_pass_def del: One_nat_def)
  qed (simp add: that)
  with out [OF q] show ?thesis
    using acc by (simp add: serve_once_def Let_def)
qed

section \<open>Properties\<close>

text \<open>
  C36. The four states against the definition of a request: what is taken for a request contains
  a blank line, and, in bytes without two \<open>\r\<close> in a row, every blank line is found.
\<close>

theorem request_recognised:
  "(frames req_step bs 0 \<noteq> [] \<longrightarrow> has_blank_line bs) \<and>
   (\<not> sublist [CR, CR] bs \<longrightarrow> frames req_step bs 0 \<noteq> [] \<longleftrightarrow> has_blank_line bs)"
  using req_sound [of 0 bs] req_complete [of 0 bs] by auto

text \<open>
  C17. Any sequence of clients, failed accepts in between: every client is served in turn and its
  connection closed; the one whose bytes hold a request is sent the page, all of it if the sends on
  its own connection do not fail and a prefix if one does, the others nothing. A connection whose
  sends failed leaves nothing behind for the next one, be it on the same descriptor; receives that
  are interrupted or that fail, and how the stack splits the bytes, change nothing. The counter
  goes up by the number of clients, modulo 2 ^ 32. Every receive is taken to deliver a byte or the
  end of the connection after finitely many that ask to be repeated.
\<close>

theorem dumb_http_serves_clients:
  assumes "server_contract S serv rx tx wait served live arrivals" and "length content < 2 ^ 32" and "arrivals w = as @ later"
  shows "\<exists>w' replies. serve_n S content serv (length as) (counter, w) =
        Some (Inr (counter + word_of_nat (length (clients as)), w')) \<and>
      arrivals w' = later \<and> served w' = served w @ replies \<and>
      list_all2 (reply_ok content) (clients as) replies"
  using assms by (rule serve_n_clients)

text \<open>
  C21. Once it has its listening socket, the server completes every number of passes without a
  fault, whatever bytes its clients send, whichever accepts, receives, sends and closes fail and
  however far the counter has wrapped around, and the thread does not return. Every receive is
  taken to deliver a byte or the end of the connection after finitely many that ask to be
  repeated: a client that stays connected and silent does hold up this server, which has a single
  thread and no timeout.
\<close>

theorem dumb_http_completes_passes:
  assumes "\<And>client. connection_contract S client rx tx wait served live q" and "length content < 2 ^ 32"
    and "server_start S st = Inr (serv, st1)"
  shows "(\<exists>st2. serve_n S content serv n st1 = Some (Inr st2)) \<and> thread_socket_dumb_http S content st = None"
proof
  show "\<exists>st2. serve_n S content serv n st1 = Some (Inr st2)"
  proof (induction n arbitrary: st1)
    case 0
    then show ?case by simp
  next
    case (Suc n)
    obtain st' where "serve_once S content serv st1 = Some (Inr st')"
      using serve_once_returns [OF assms(1,2)] by blast
    with Suc.IH [of st'] show ?case by simp
  qed
  have "serve_loop S content serv st1 = None"
    unfolding serve_loop_def
    by (rule whileM_diverges [where P = "\<lambda>st. True"]) (simp_all add: serve_once_returns [OF assms(1,2)] del: split_paired_Ex)
  with assms(3) show "thread_socket_dumb_http S content st = None" by (simp add: thread_socket_dumb_http_def)
qed

section \<open>Runs of the properties\<close>

text \<open>
  A stack with clients to come; the first receive of each connection is interrupted, and a
  connection that is not live takes five bytes and then fails every send. All have descriptor 4.
\<close>

record site =
  site_rx :: "u8 list"
  site_tx :: "u8 list"
  site_wait :: nat
  site_served :: "(int \<times> u8 list) list"
  site_live :: bool
  site_arrivals :: "arrival list"

definition site0 :: "arrival list \<Rightarrow> site" where
  "site0 as = \<lparr>site_rx = [], site_tx = [], site_wait = 0, site_served = [], site_live = True, site_arrivals = as\<rparr>"

definition site_sock :: "(nat, site) sock_api" where
  "site_sock =
     \<lparr>sk_socket = (\<lambda>f t p w. (3, w)), sk_bind = (\<lambda>s a w. (0, w)), sk_listen = (\<lambda>s b w. (0, w)),
      sk_accept = (\<lambda>s w. case site_arrivals w of
          Some (bs, ok) # rest \<Rightarrow>
            (4, 0, w\<lparr>site_rx := bs, site_tx := [], site_wait := 1, site_live := ok, site_arrivals := rest\<rparr>)
        | _ \<Rightarrow> (- 1, 0, w\<lparr>site_arrivals := tl (site_arrivals w)\<rparr>)),
      sk_connect = (\<lambda>s a w. (0, w)), sk_setsockopt = (\<lambda>s p v w. (0, w)),
      sk_recv = (\<lambda>s n w. if site_wait w > 0 then (- 1, [], w\<lparr>site_wait := site_wait w - 1\<rparr>)
        else (int (length (take n (site_rx w))), take n (site_rx w), w\<lparr>site_rx := drop n (site_rx w)\<rparr>)),
      sk_send = (\<lambda>s bs w. if \<not> site_live w \<and> site_tx w \<noteq> [] then (- 1, w)
        else (int (length (take 5 bs)), w\<lparr>site_tx := site_tx w @ take 5 bs\<rparr>)),
      sk_close = (\<lambda>s w. (0, w\<lparr>site_served := site_served w @ [(s, site_tx w)]\<rparr>)), sk_errno = (\<lambda>w. E_INTR),
      sk_getaddrinfo = (\<lambda>h p f t w. (0,
         \<lparr>ai_family = AF_INET, ai_socktype = SOCK_STREAM, ai_protocol = IPPROTO_TCP, ai_addr = 0, ai_text = []\<rparr>, w)),
      sk_tls_credential_add = (\<lambda>w. w), sk_printf = (\<lambda>bs w. w),
      any_addr = (\<lambda>p. p), inet_ntop = (\<lambda>a n. [])\<rparr>"

lemma site_patient_recv:
  "patient_recv site_sock s site_rx site_wait (\<lambda>w. (site_tx w, site_served w, site_live w, site_arrivals w))"
proof -
  let ?\<alpha> = "\<lambda>w. (site_tx w, site_served w, site_live w, site_arrivals w)"
  have "\<exists>k w'. 0 < k \<and> k \<le> n \<and> k \<le> length (site_rx w) \<and> sk_recv site_sock s n w = (int k, take k (site_rx w), w') \<and>
      site_rx w' = drop k (site_rx w) \<and> ?\<alpha> w' = ?\<alpha> w" if "0 < n \<and> site_wait w = 0 \<and> site_rx w \<noteq> []" for n w
    using that by (intro exI [of _ "min n (length (site_rx w))"]) (auto simp: site_sock_def min_def)
  moreover have "\<exists>w'. sk_recv site_sock s n w = (- 1, [], w') \<and>
      (sk_errno site_sock w' = E_AGAIN \<or> sk_errno site_sock w' = E_INTR) \<and> site_wait w' < site_wait w \<and>
      site_rx w' = site_rx w \<and> ?\<alpha> w' = ?\<alpha> w" if "0 < site_wait w" for n w
    using that by (intro exI [of _ "w\<lparr>site_wait := site_wait w - 1\<rparr>"]) (simp add: site_sock_def)
  moreover have "\<exists>e w'. sk_recv site_sock s n w = (e, [], w') \<and> e \<le> 0 \<and>
      (e < 0 \<longrightarrow> sk_errno site_sock w' \<noteq> E_AGAIN \<and> sk_errno site_sock w' \<noteq> E_INTR) \<and> site_rx w' = [] \<and> ?\<alpha> w' = ?\<alpha> w"
    if "site_wait w = 0" "site_rx w = []" for n w
    using that by (intro exI [of _ 0] exI [of _ "w\<lparr>site_rx := []\<rparr>"]) (simp add: site_sock_def)
  ultimately show ?thesis unfolding patient_recv_def by blast
qed

lemma site_send_contract:
  "send_contract site_sock s site_tx (\<lambda>w. (site_rx w, site_served w, site_live w, site_arrivals w))"
proof -
  let ?\<alpha> = "\<lambda>w. (site_rx w, site_served w, site_live w, site_arrivals w)"
  have "(\<exists>k w'. 0 < k \<and> k \<le> length bs \<and> sk_send site_sock s bs w = (int k, w') \<and> site_tx w' = site_tx w @ take k bs \<and>
        ?\<alpha> w' = ?\<alpha> w) \<or>
      (\<exists>w'. sk_send site_sock s bs w = (- 1, w') \<and> site_tx w' = site_tx w \<and> ?\<alpha> w' = ?\<alpha> w)" if "bs \<noteq> []" for bs w
  proof (cases "\<not> site_live w \<and> site_tx w \<noteq> []")
    case False
    with that show ?thesis
      by (intro disjI1 exI [of _ "min 5 (length bs)"]) (auto simp: site_sock_def min_def)
  qed (simp add: site_sock_def)
  then show ?thesis unfolding send_contract_def by blast
qed

lemma site_connection: "connection_contract site_sock client site_rx site_tx site_wait site_served site_live site_arrivals"
  using site_patient_recv [of client] site_send_contract [of client]
  by (simp add: connection_contract_def) (simp add: site_sock_def)

lemma site_server: "server_contract site_sock serv site_rx site_tx site_wait site_served site_live site_arrivals"
  using site_connection by (simp add: server_contract_def) (simp add: site_sock_def)

theorem request_recognised_witness:
  "has_blank_line (ascii ''GET /'' @ [CR, LF, CR, LF]) \<and> frames req_step (ascii ''GET /'' @ [CR, LF, CR, LF]) 0 \<noteq> []"
proof -
  have "\<not> sublist [CR, CR] (ascii ''GET /'' @ [CR, LF, CR, LF])" by (simp add: ascii_def sublist_Cons_right)
  moreover have "has_blank_line (ascii ''GET /'' @ [CR, LF, CR, LF])"
    by (simp add: has_blank_line_def sublist_appendI [where xs = "[CR, LF, CR, LF]" and ss = "[]", simplified])
  ultimately show ?thesis using request_recognised [of "ascii ''GET /'' @ [CR, LF, CR, LF]"] by blast
qed

theorem dumb_http_serves_clients_witness:
  "\<exists>w' p. serve_n site_sock (ascii ''<html>'') 3 4
      (2 ^ 32 - 1, site0 [Some (ascii ''GET /'' @ [CR, LF, CR, LF], False), None,
         Some (ascii ''GET /'' @ [CR, LF, CR, LF], True), Some (ascii ''GET'', True)]) = Some (Inr (2, w')) \<and>
    map snd (site_served w') = [p, ascii ''<html>'', []] \<and> prefix p (ascii ''<html>'')"
proof -
  let ?r = "ascii ''GET /'' @ [CR, LF, CR, LF]"
  let ?as = "[Some (?r, False), None, Some (?r, True), Some (ascii ''GET'', True)]"
  have len: "length (ascii ''<html>'') < 2 ^ 32" by (simp add: ascii_def)
  have as: "site_arrivals (site0 ?as) = ?as @ []" by (simp add: site0_def)
  from dumb_http_serves_clients [where counter = "2 ^ 32 - 1" and serv = 3 and as = ?as and w = "site0 ?as" and later = "[]",
      OF site_server len as]
  obtain w' replies where
    r: "serve_n site_sock (ascii ''<html>'') 3 (length ?as) (2 ^ 32 - 1, site0 ?as) =
        Some (Inr (2 ^ 32 - 1 + word_of_nat (length (clients ?as)), w'))"
      "site_served w' = site_served (site0 ?as) @ replies"
      "list_all2 (reply_ok (ascii ''<html>'')) (clients ?as) replies" by (elim exE conjE)
  have "answers ?r" "\<not> answers (ascii ''GET'')"
    by (simp_all add: answers_def ascii_def req_step_def)
  with r(3) obtain p where "map snd replies = [p, ascii ''<html>'', []]" "prefix p (ascii ''<html>'')"
    by (auto simp: list_all2_Cons1 reply_ok_def)
  moreover have "length ?as = 4" "2 ^ 32 - 1 + word_of_nat (length (clients ?as)) = (2 :: u32)" by simp_all
  with r(1) have "serve_n site_sock (ascii ''<html>'') 3 4 (2 ^ 32 - 1, site0 ?as) = Some (Inr (2, w'))" by (simp only:)
  ultimately show ?thesis using r(2)
    by (intro exI [of _ w'] exI [of _ p]) (simp add: site0_def)
qed

theorem dumb_http_completes_passes_witness:
  "(\<exists>st2. serve_n site_sock (ascii ''<html>'') 3 7 (0, site0 []) = Some (Inr st2)) \<and>
   thread_socket_dumb_http site_sock (ascii ''<html>'') (0, site0 []) = None"
proof -
  have "length (ascii ''<html>'') < 2 ^ 32" by (simp add: ascii_def)
  moreover have "server_start site_sock (0, site0 []) = Inr (3, 0, site0 [])"
    by (simp add: server_start_def CHECK_def site_sock_def)
  ultimately show ?thesis by (rule dumb_http_completes_passes [OF site_connection])
qed

end
