(* ===== verification/Printf_G.thy ===== *)
theory Printf_G
  imports Main_Mcp9808
begin

text \<open>
  The numbers \<^verbatim>\<open>%g\<close> prints for a temperature: what its clients rely on, a reader for the text,
  and an instance. Temperatures are in millionths of a degree, as \<^verbatim>\<open>struct sensor_value\<close> holds them.
\<close>

section \<open>Reading the text\<close>

definition is_digit :: "u8 \<Rightarrow> bool" where
  "is_digit c \<longleftrightarrow> 48 \<le> c \<and> c \<le> 57"

text \<open>An optional sign, digits, and up to six digits after an optional point.\<close>

definition read_unsigned :: "u8 list \<Rightarrow> int option" where
  "read_unsigned bs =
     (let ds = takeWhile is_digit bs; r = dropWhile is_digit bs; fs = tl r
      in if ds = [] then None
         else if r = [] then Some (int (undec ds) * 10 ^ 6)
         else if hd r = 46 \<and> fs \<noteq> [] \<and> length fs \<le> 6 \<and> list_all is_digit fs
           then Some (int (undec ds) * 10 ^ 6 + int (undec fs) * 10 ^ (6 - length fs))
         else None)"

definition read_micro :: "u8 list \<Rightarrow> int option" where
  "read_micro bs =
     (case bs of c # cs \<Rightarrow> if c = 45 then map_option uminus (read_unsigned cs) else read_unsigned bs
      | [] \<Rightarrow> None)"

section \<open>The contract\<close>

text \<open>
  The last of the six significant digits, for values below a thousand degrees; digits after the
  sixth decimal do not arise, the value being a whole number of millionths.
\<close>

definition g_unit :: "int \<Rightarrow> int" where
  "g_unit u = (if \<bar>u\<bar> < 10 ^ 6 then 1 else if \<bar>u\<bar> < 10 ^ 7 then 10 else if \<bar>u\<bar> < 10 ^ 8 then 100 else 1000)"

text \<open>
  \<^verbatim>\<open>%g\<close> prints its argument rounded to six significant digits, in fixed notation between
  \<open>0.0001\<close> and a million and for zero.
\<close>

definition g_contract :: "(sensor_value \<Rightarrow> u8 list) \<Rightarrow> bool" where
  [contract_defs]: "g_contract g \<longleftrightarrow>
     (\<forall>v. (ucel v = 0 \<or> 100 \<le> \<bar>ucel v\<bar>) \<and> \<bar>ucel v\<bar> < 10 ^ 9 \<longrightarrow>
        (\<exists>x. read_micro (g v) = Some x \<and> g_unit (ucel v) dvd x \<and> 2 * \<bar>x - ucel v\<bar> \<le> g_unit (ucel v)))"

text \<open>What a line shows of a temperature: all of it below a hundred degrees, three decimals from there.\<close>

definition shows_temp :: "u8 list \<Rightarrow> int \<Rightarrow> bool" where
  "shows_temp s t \<longleftrightarrow>
     (case read_micro s of None \<Rightarrow> False
      | Some x \<Rightarrow> (\<bar>t\<bar> < 10 ^ 8 \<longrightarrow> x = t) \<and> \<bar>x - t\<bar> \<le> 500)"

lemma g_unit_pos: "0 < g_unit u"
  by (simp add: g_unit_def)

lemma nearest_multiple:
  fixes d :: int
  assumes "d dvd x" and "d dvd t" and "2 * \<bar>x - t\<bar> \<le> d" and "0 < d"
  shows "x = t"
proof -
  from assms(1,2) have "d dvd \<bar>x - t\<bar>" by simp
  moreover have below: "y < d" if "2 * y \<le> d" for y using that assms(4) by simp
  have "\<bar>x - t\<bar> < d" by (rule below) (rule assms(3))
  ultimately have "\<bar>x - t\<bar> = 0" using zdvd_not_zless [of "\<bar>x - t\<bar>" d] by fastforce
  then show ?thesis by simp
qed

lemma g_shows:
  assumes G: "g_contract g" and t: "ucel v = k * 62500" "\<bar>k\<bar> < 16000"
  shows "shows_temp (g v) (k * 62500)"
proof -
  have "(ucel v = 0 \<or> 100 \<le> \<bar>ucel v\<bar>) \<and> \<bar>ucel v\<bar> < 10 ^ 9"
    using t by (cases "k = 0") (simp_all add: abs_mult)
  with G obtain x where x: "read_micro (g v) = Some x" "g_unit (ucel v) dvd x" "2 * \<bar>x - ucel v\<bar> \<le> g_unit (ucel v)"
    unfolding g_contract_def by blast
  have "x = k * 62500" if "\<bar>k * 62500\<bar> < 10 ^ 8"
  proof (rule nearest_multiple [OF x(2)])
    from that t(1) have "g_unit (ucel v) = 1 \<or> g_unit (ucel v) = 10 \<or> g_unit (ucel v) = 100" by (simp add: g_unit_def)
    then show "g_unit (ucel v) dvd k * 62500" by (auto intro: dvd_mult)
  qed (use x(3) t(1) g_unit_pos in simp_all)
  moreover have "g_unit (ucel v) \<le> 1000" by (simp add: g_unit_def)
  with x(3) t(1) have "2 * \<bar>x - k * 62500\<bar> \<le> 1000" by simp
  ultimately show ?thesis using x(1) by (simp add: shows_temp_def)
qed

section \<open>An instance\<close>

text \<open>Rounding to the nearest multiple, ties to even; trailing zeros are dropped.\<close>

definition round_even :: "int \<Rightarrow> int \<Rightarrow> int" where
  "round_even n d =
     (if 2 * (n mod d) < d \<or> 2 * (n mod d) = d \<and> even (n div d) then n div d else n div d + 1)"

definition strip0 :: "u8 list \<Rightarrow> u8 list" where
  "strip0 ds = rev (dropWhile (\<lambda>c. c = 48) (rev ds))"

definition format_g :: "int \<Rightarrow> u8 list" where
  "format_g u =
     (let m = g_unit u * round_even \<bar>u\<bar> (g_unit u); fs = strip0 (pad0 6 (dec (nat (m mod 10 ^ 6))))
      in (if u < 0 then [45] else []) @ dec (nat (m div 10 ^ 6)) @ (if fs = [] then [] else 46 # fs))"

lemma dec_digits: "list_all is_digit (dec n)"
proof (induction n rule: dec.induct)
  case (1 n)
  have d: "is_digit (of_nat (48 + d))" if "d < 10" for d
    using that by (simp add: is_digit_def word_le_nat_alt unat_of_nat take_bit_eq_mod del: of_nat_add)
  show ?case
    using 1 d [of n] d [of "n mod 10"] by (subst dec.simps) (auto simp del: of_nat_add)
qed

lemma dec_not_Nil: "dec n \<noteq> []"
  by (subst dec.simps) simp

lemma strip0_split: "\<exists>k. ds = strip0 ds @ replicate k 48"
proof -
  have "rev ds = takeWhile (\<lambda>c. c = 48) (rev ds) @ dropWhile (\<lambda>c. c = 48) (rev ds)" by simp
  then have "ds = strip0 ds @ rev (takeWhile (\<lambda>c. c = 48) (rev ds))"
    unfolding strip0_def by (metis rev_append rev_rev_ident)
  moreover have "takeWhile (\<lambda>c. c = 48) (rev ds) = replicate (length (takeWhile (\<lambda>c. c = 48) (rev ds))) 48"
    by (rule replicate_eqI) (auto dest: set_takeWhileD)
  ultimately show ?thesis by (metis rev_replicate)
qed

lemma undec_zeros_after: "undec (ds @ replicate k 48) = undec ds * 10 ^ k"
proof -
  have "foldl (\<lambda>n d. 10 * n + (unat (d :: u8) - 48)) a (replicate k 48) = a * 10 ^ k" for a
    by (induction k arbitrary: a) simp_all
  then show ?thesis by (simp add: undec_def)
qed

lemma read_unsigned_text:
  assumes "fs = strip0 (pad0 6 (dec f))" and "f < 10 ^ 6"
  shows "read_unsigned (dec n @ (if fs = [] then [] else 46 # fs)) = Some (int n * 10 ^ 6 + int f)"
proof -
  from assms(2) have l: "length (dec f) \<le> 6" by (rule dec_length) simp
  obtain k where k: "pad0 6 (dec f) = fs @ replicate k 48" using strip0_split assms(1) by blast
  then have "length (pad0 6 (dec f)) = length fs + k" by simp
  with l have len: "length fs + k = 6" by (simp add: pad0_def)
  from k have u: "undec fs * 10 ^ k = f" by (metis undec_zeros_after undec_pad0 undec_dec)
  have "list_all is_digit (pad0 6 (dec f))" using dec_digits [of f] by (auto simp: pad0_def list_all_iff) (simp add: is_digit_def)
  with k have d: "list_all is_digit fs" by simp
  have n: "\<forall>c\<in>set (dec n). is_digit c" using dec_digits by (simp add: list_all_iff)
  have dot: "\<not> is_digit 46" by (simp add: is_digit_def)
  with n have "takeWhile is_digit (dec n @ 46 # fs) = dec n" "dropWhile is_digit (dec n @ 46 # fs) = 46 # fs"
    by (simp_all add: takeWhile_append2 dropWhile_append2)
  moreover from n have "takeWhile is_digit (dec n) = dec n" "dropWhile is_digit (dec n) = []"
    by (simp_all add: takeWhile_eq_all_conv)
  moreover have "int (undec fs) * 10 ^ (6 - length fs) = int f" using u len
    by (metis add_diff_cancel_left' of_nat_mult of_nat_numeral of_nat_power)
  moreover have "f = 0" if "fs = []" using u that by (simp add: undec_def)
  ultimately show ?thesis using d len dot dec_not_Nil by (simp add: read_unsigned_def Let_def)
qed

lemma round_even_near:
  assumes "0 < d"
  shows "2 * \<bar>d * round_even n d - n\<bar> \<le> d"
proof -
  have "d * (n div d) - n = - (n mod d)" by (simp add: minus_mod_eq_mult_div [symmetric])
  moreover from this have "d * (n div d + 1) - n = d - n mod d" by (simp add: distrib_left)
  moreover have "0 \<le> n mod d" "n mod d < d" using assms by simp_all
  ultimately show ?thesis by (auto simp: round_even_def)
qed

lemma format_g_reads:
  "\<exists>x. read_micro (format_g u) = Some x \<and> g_unit u dvd x \<and> 2 * \<bar>x - u\<bar> \<le> g_unit u"
proof -
  let ?m = "g_unit u * round_even \<bar>u\<bar> (g_unit u)"
  have near: "2 * \<bar>?m - \<bar>u\<bar>\<bar> \<le> g_unit u" by (rule round_even_near) (rule g_unit_pos)
  have m0: "0 \<le> ?m"
    using g_unit_pos [of u] by (simp add: round_even_def pos_imp_zdiv_nonneg_iff)
  define fs where "fs = strip0 (pad0 6 (dec (nat (?m mod 10 ^ 6))))"
  let ?body = "dec (nat (?m div 10 ^ 6)) @ (if fs = [] then [] else 46 # fs)"
  have "nat (?m mod 10 ^ 6) < 10 ^ 6" by simp
  from read_unsigned_text [OF fs_def this, of "nat (?m div 10 ^ 6)"] m0
  have r: "read_unsigned ?body = Some ?m" by (simp add: pos_imp_zdiv_nonneg_iff)
  have "format_g u = (if u < 0 then [45] else []) @ ?body" by (simp add: format_g_def Let_def fs_def)
  moreover have "hd ?body \<noteq> 45"
  proof -
    have "is_digit (hd (dec (nat (?m div 10 ^ 6))))" 
      using dec_digits [of "nat (?m div 10 ^ 6)"] dec_not_Nil [of "nat (?m div 10 ^ 6)"] by (simp add: list_all_iff)
    then show ?thesis using dec_not_Nil by (auto simp: is_digit_def)
  qed
  moreover have "?body \<noteq> []" using dec_not_Nil by simp
  ultimately have "read_micro (format_g u) = Some (if u < 0 then - ?m else ?m)"
    using r by (cases ?body) (auto simp: read_micro_def)
  moreover have "\<bar>(if u < 0 then - m else m) - u\<bar> = \<bar>m - \<bar>u\<bar>\<bar>" for m by (auto simp: abs_if)
  ultimately show ?thesis using near by (intro exI [of _ "if u < 0 then - ?m else ?m"]) auto
qed

lemma format_g_contract: "g_contract (\<lambda>v. format_g (ucel v))"
  using format_g_reads by (simp add: g_contract_def)

lemma format_g_examples: "format_g (- 500000) = ascii ''-0.5''" "format_g 125062500 = ascii ''125.062''"
proof -
  have "g_unit (- 500000) = 1" "g_unit 125062500 = 1000" by (simp_all add: g_unit_def)
  moreover have "round_even 500000 1 = 500000" "round_even 125062500 1000 = 125062" by (simp_all add: round_even_def)
  moreover have "dec 0 = [48]" "dec 125 = [49, 50, 53]" "dec 62000 = [54, 50, 48, 48, 48]" "dec 500000 = [53, 48, 48, 48, 48, 48]"
    by (simp_all add: dec.simps)
  moreover have "strip0 (pad0 6 [54, 50, 48, 48, 48]) = [48, 54, 50]" "strip0 (pad0 6 [53, 48, 48, 48, 48, 48]) = [53]"
    by (simp_all add: strip0_def pad0_def)
  ultimately show "format_g (- 500000) = ascii ''-0.5''" "format_g 125062500 = ascii ''125.062''"
    by (simp_all add: format_g_def) (simp_all add: ascii_def)
qed

end
