(* ===== verification/Thermometer.thy ===== *)
theory Thermometer
  imports Printf_G
begin

text \<open>
  The sensor driver under its client: the driver's functions as a sensor of the kernel's
  subsystem, and the thread of \<^verbatim>\<open>src/main_mcp9808.c\<close> on it.
\<close>

section \<open>The driver as a sensor\<close>

text \<open>
  \<^verbatim>\<open>my_i2c_mcp9808_api_funcs\<close>: the subsystem calls the driver's two functions, a fetch with
  \<open>SENSOR_CHAN_ALL\<close>. The driver's data is part of the state; for functions a driver does not have
  the subsystem answers \<open>-ENOSYS\<close>. An assertion of the driver that fails (which it does not for
  these channels, whatever the state) would stop the system; here it leaves the state as it is.
\<close>

definition ENOSYS :: int where "ENOSYS = 88"

definition my_i2c_mcp9808_api_funcs ::
    "bool \<Rightarrow> byteorder_api \<Rightarrow> 'w i2c_api \<Rightarrow> my_i2c_mcp9808_config \<Rightarrow> (u8 list \<Rightarrow> 'w \<Rightarrow> 'w) \<Rightarrow> (sensor_value \<Rightarrow> u8 list) \<Rightarrow>
     (my_i2c_mcp9808_data \<times> 'w) sensor_api" where
  "my_i2c_mcp9808_api_funcs asrt B I cfg printf g =
     \<lparr>sensor_sample_fetch = (\<lambda>d st. case my_i2c_mcp9808_sample_fetch asrt B I cfg SENSOR_CHAN_ALL st of
        Inl _ \<Rightarrow> (- 1, st) | Inr r \<Rightarrow> r),
      sensor_channel_get = (\<lambda>d chan st. case my_i2c_mcp9808_channel_get asrt chan (fst st) of
        Inl _ \<Rightarrow> (- 1, \<lparr>val1 = 0, val2 = 0\<rparr>, st) | Inr (rc, v) \<Rightarrow> (rc, v, st)),
      sensor_attr_set = (\<lambda>d chan a v st. (- ENOSYS, st)),
      sensor_trigger_set = (\<lambda>d chan st. (- ENOSYS, st)),
      c_printf = (\<lambda>bs st. (fst st, printf bs (snd st))), fmt_g = g\<rparr>"

text \<open>
  The bus, for a thermometer that will show the register values \<open>rds w\<close> one after the other and
  then be gone; \<open>out\<close> is what has been printed.
\<close>

definition i2c_readings_contract :: "'w i2c_api \<Rightarrow> i2c_dt_spec \<Rightarrow> ('w \<Rightarrow> u16 list) \<Rightarrow> ('w \<Rightarrow> 'b) \<Rightarrow> bool" where
  [contract_defs]: "i2c_readings_contract I spec rds \<alpha> \<longleftrightarrow>
     (\<forall>buf w. rds w = [] \<longrightarrow>
        (\<exists>rc bs w'. i2c_write_read_dt I spec [MY_I2C_MCP9808_REG_TEMP_AMB] buf w = (rc, bs, w') \<and> rc \<noteq> 0 \<and> \<alpha> w' = \<alpha> w)) \<and>
     (\<forall>buf w r rs. rds w = r # rs \<longrightarrow>
        (\<exists>w'. i2c_write_read_dt I spec [MY_I2C_MCP9808_REG_TEMP_AMB] buf w = (0, be16 r, w') \<and> rds w' = rs \<and> \<alpha> w' = \<alpha> w))"

text \<open>What the driver makes of a register value.\<close>

definition reg_value :: "u16 \<Rightarrow> sensor_value" where
  "reg_value r = (case my_i2c_mcp9808_channel_get False SENSOR_CHAN_AMBIENT_TEMP \<lparr>reg_val = r\<rparr> of
     Inl _ \<Rightarrow> \<lparr>val1 = 0, val2 = 0\<rparr> | Inr (rc, v) \<Rightarrow> v)"

lemma reg_value_get:
  "my_i2c_mcp9808_channel_get asrt SENSOR_CHAN_AMBIENT_TEMP data = Inr (0, reg_value (reg_val data))"
  by (simp add: reg_value_def my_i2c_mcp9808_channel_get_def Let_def)

lemma reg_value_exact:
  "ucel (reg_value r) = my_i2c_mcp9808_temp_signed_from_reg r * 62500" "sensor_value_ok (reg_value r)"
proof -
  have "ucel (reg_value r) = my_i2c_mcp9808_temp_signed_from_reg r * 62500 \<and> sensor_value_ok (reg_value r)"
    using channel_get_value [of False SENSOR_CHAN_AMBIENT_TEMP "\<lparr>reg_val = r\<rparr>"]
    by (auto simp: reg_value_get ucel_def sensor_value_ok_def)
  then show "ucel (reg_value r) = my_i2c_mcp9808_temp_signed_from_reg r * 62500" "sensor_value_ok (reg_value r)" by simp_all
qed

lemma reg_value_shown: "g_contract g \<Longrightarrow> shows_temp (g (reg_value r)) (my_i2c_mcp9808_temp_signed_from_reg r * 62500)"
  using signed_from_reg_range [of r] by (intro g_shows reg_value_exact) (auto simp: temp_range_def)

lemma fetch_reading:
  assumes B: "byteorder_contract B" and I: "i2c_readings_contract I (i2c cfg) rds out" and r: "rds w = r # rs"
  shows "\<exists>w'. my_i2c_mcp9808_sample_fetch asrt B I cfg SENSOR_CHAN_ALL (data, w) = Inr (0, data\<lparr>reg_val := r\<rparr>, w') \<and>
    rds w' = rs \<and> out w' = out w"
proof -
  from I r obtain w' where
    "i2c_write_read_dt I (i2c cfg) [MY_I2C_MCP9808_REG_TEMP_AMB] (host16_bytes B (reg_val data)) w = (0, be16 r, w')"
    "rds w' = rs" "out w' = out w" unfolding i2c_readings_contract_def by blast
  with B show ?thesis
    by (simp add: my_i2c_mcp9808_sample_fetch_def my_i2c_mcp9808_reg_read_def byteorder_contract_def Let_def)
qed

lemma fetch_no_reading:
  assumes I: "i2c_readings_contract I (i2c cfg) rds out" and r: "rds w = []"
  shows "\<exists>rc data' w'. my_i2c_mcp9808_sample_fetch asrt B I cfg SENSOR_CHAN_ALL (data, w) = Inr (rc, data', w') \<and>
    rc \<noteq> 0 \<and> out w' = out w"
proof -
  from I r obtain rc bs w' where
    "i2c_write_read_dt I (i2c cfg) [MY_I2C_MCP9808_REG_TEMP_AMB] (host16_bytes B (reg_val data)) w = (rc, bs, w')"
    "rc \<noteq> 0" "out w' = out w" unfolding i2c_readings_contract_def by blast
  then show ?thesis by (simp add: my_i2c_mcp9808_sample_fetch_def my_i2c_mcp9808_reg_read_def Let_def)
qed

text \<open>On such a bus the driver is the sensor its client relies on.\<close>

definition thermometer_contract ::
    "(my_i2c_mcp9808_data \<times> 'w) kernel_api \<Rightarrow> byteorder_api \<Rightarrow> 'w i2c_api \<Rightarrow> i2c_dt_spec \<Rightarrow> (u8 list \<Rightarrow> 'w \<Rightarrow> 'w) \<Rightarrow>
     ('w \<Rightarrow> u16 list) \<Rightarrow> ('w \<Rightarrow> u8 list) \<Rightarrow> bool" where
  [contract_defs]: "thermometer_contract Z B I spec printf rds out \<longleftrightarrow>
     byteorder_contract B \<and> i2c_readings_contract I spec rds out \<and>
     keeps (\<lambda>st. snd (k_uptime_get_32 Z st)) (\<lambda>st. (rds (snd st), out (snd st))) \<and>
     keeps (k_sleep Z 2000) (\<lambda>st. (rds (snd st), out (snd st))) \<and>
     (\<forall>bs w. rds (printf bs w) = rds w \<and> out (printf bs w) = out w @ bs)"

lemma driver_is_sensor:
  fixes rds :: "'w \<Rightarrow> u16 list"
  assumes "thermometer_contract Z B I (i2c cfg) printf rds out"
  shows "sensor_printer Z (my_i2c_mcp9808_api_funcs asrt B I cfg printf g) dev (\<lambda>st. rds (snd st))
    (\<lambda>st. reg_val (fst st)) reg_value (\<lambda>st. out (snd st))"
proof -
  from assms have B: "byteorder_contract B" and I: "i2c_readings_contract I (i2c cfg) rds out"
    by (simp_all add: thermometer_contract_def)
  let ?S = "my_i2c_mcp9808_api_funcs asrt B I cfg printf g"
  show ?thesis
  proof
    fix st :: "my_i2c_mcp9808_data \<times> 'w" and r rs assume "rds (snd st) = r # rs"
    from fetch_reading [where asrt = asrt and data = "fst st", OF B I this]
    show "\<exists>w'. sensor_sample_fetch ?S dev st = (0, w') \<and> reg_val (fst w') = r \<and> rds (snd w') = rs \<and> out (snd w') = out (snd st)"
      by (auto simp: my_i2c_mcp9808_api_funcs_def)
  next
    fix st :: "my_i2c_mcp9808_data \<times> 'w" assume "rds (snd st) = []"
    from fetch_no_reading [where asrt = asrt and data = "fst st" and B = B, OF I this]
    show "\<exists>rc w'. sensor_sample_fetch ?S dev st = (rc, w') \<and> rc \<noteq> 0 \<and> out (snd w') = out (snd st)"
      by (auto simp: my_i2c_mcp9808_api_funcs_def)
  qed (use assms in \<open>simp_all add: my_i2c_mcp9808_api_funcs_def reg_value_get thermometer_contract_def keeps_def
      del: split_paired_All\<close>)
qed

section \<open>Properties\<close>

text \<open>
  C19. End to end, from the bus to the console, in a build without
  \<^verbatim>\<open>CONFIG_MCP9808_TRIGGER\<close>: for every register value the thermometer shows, in order, the
  thread prints a line with some time stamp and a number. What is handed to \<^verbatim>\<open>%g\<close> is exactly
  the temperature the register encodes; the six digits it prints, read back, are exactly that
  temperature below a hundred degrees either way, and within half a thousandth of a degree of it
  from there (\<^verbatim>\<open>%g\<close> is taken to round to six significant digits, as documented). When the bus
  fails the thread reports the error and returns.
\<close>

theorem thermometer_prints_registers:
  assumes "thermometer_contract Z B I (i2c cfg) printf rds out" and "g_contract g"
    and "length buf = 16" and "device_is_ready Z dev (data, w)"
  shows "\<exists>buf' data' w' ts vs rc.
     thread_mcp9808 False Z (my_i2c_mcp9808_api_funcs asrt B I cfg printf g) (Some dev) name (buf, data, w) =
       Some (Inr (buf', data', w')) \<and>
     length ts = length (rds w) \<and> rc \<noteq> 0 \<and>
     list_all2 (\<lambda>r v. val1 v * 1000000 + val2 v = my_i2c_mcp9808_temp_signed_from_reg r * 62500 \<and>
       shows_temp (g v) (my_i2c_mcp9808_temp_signed_from_reg r * 62500)) (rds w) vs \<and>
     out w' = out w @ concat (map (\<lambda>(t, v). uptime_text t @ ascii '': '' @ g v @ ascii '' C'' @ [LF]) (zip ts vs)) @
       ascii ''sensor_sample_fetch error: '' @ fmt_d rc @ [LF]"
proof -
  let ?S = "my_i2c_mcp9808_api_funcs asrt B I cfg printf g"
  from sensor_printer.thread_run [OF driver_is_sensor [OF assms(1)] assms(3,4), of asrt g name] obtain buf' st' ts rc where
    r: "thread_mcp9808 False Z ?S (Some dev) name (buf, data, w) = Some (Inr (buf', st'))" "length ts = length (rds w)" "rc \<noteq> 0"
    "out (snd st') = out w @ concat (map (sample_line ?S) (zip ts (map reg_value (rds w)))) @
       ascii ''sensor_sample_fetch error: '' @ fmt_d rc @ [LF]" by auto
  have "sample_line ?S = (\<lambda>(t, v). uptime_text t @ ascii '': '' @ g v @ ascii '' C'' @ [LF])"
    by (rule ext) (simp add: sample_line_def my_i2c_mcp9808_api_funcs_def split: prod.splits)
  moreover have "list_all2 (\<lambda>r v. val1 v * 1000000 + val2 v = my_i2c_mcp9808_temp_signed_from_reg r * 62500 \<and>
      shows_temp (g v) (my_i2c_mcp9808_temp_signed_from_reg r * 62500)) (rds w) (map reg_value (rds w))"
    using reg_value_exact(1) reg_value_shown [OF assms(2)] by (simp add: list_all2_conv_all_nth ucel_def)
  ultimately show ?thesis using r
    by (intro exI [of _ buf'] exI [of _ "fst st'"] exI [of _ "snd st'"] exI [of _ ts] exI [of _ "map reg_value (rds w)"] exI [of _ rc])
      simp
qed

text \<open>
  With the trigger configured the thread never samples: the driver has no way to set a
  threshold, so the thread reports that setting the trigger failed, and returns.
\<close>

lemma thermometer_trigger_unsupported:
  assumes "device_is_ready Z dev st"
  shows "thread_mcp9808 True Z (my_i2c_mcp9808_api_funcs asrt B I cfg printf g) (Some dev) name (buf, st) =
     Some (Inr (buf, fst st, printf (ascii ''Trigger set failed: '' @ fmt_d (- 88) @ [LF]) (snd st)))"
  using assms by (simp add: thread_mcp9808_def my_i2c_mcp9808_api_funcs_def set_window_ucel_def set_window_def Let_def ENOSYS_def)

section \<open>A bench\<close>

text \<open>Register values and console; the instance of the interface on it is the driver's.\<close>

record bench =
  bench_regs :: "u16 list"
  bench_out :: "u8 list"

definition bench_i2c :: "bench i2c_api" where
  "bench_i2c = \<lparr>i2c_write_read_dt = (\<lambda>spec bs buf w. case bench_regs w of [] \<Rightarrow> (- 5, buf, w)
       | r # rs \<Rightarrow> (0, be16 r, w\<lparr>bench_regs := rs\<rparr>)),
     i2c_write_dt = (\<lambda>spec bs w. (0, w))\<rparr>"

definition bench_kernel :: "(my_i2c_mcp9808_data \<times> bench) kernel_api" where
  "bench_kernel =
     \<lparr>device_is_ready = (\<lambda>d w. True), device_get_binding = (\<lambda>name w. None), printk = (\<lambda>bs w. w),
      k_sleep = (\<lambda>ms w. w), k_busy_wait = (\<lambda>us w. w), k_uptime_get_32 = (\<lambda>w. (61001, w)),
      k_timer_init = (\<lambda>t f w. w), k_timer_user_data_set = (\<lambda>t p w. w), k_timer_start = (\<lambda>t d p w. w),
      k_work_init = (\<lambda>k f w. w), k_work_submit = (\<lambda>k w. w), k_work_queue_init = (\<lambda>w. w),
      k_work_queue_start = (\<lambda>s p w. w), k_work_submit_to_queue = (\<lambda>k w. w),
      k_thread_create = (\<lambda>t f s p w. w), k_thread_start = (\<lambda>t w. w), usb_enable = (\<lambda>w. (0, w))\<rparr>"

definition bench_printf :: "u8 list \<Rightarrow> bench \<Rightarrow> bench" where
  "bench_printf bs w = w\<lparr>bench_out := bench_out w @ bs\<rparr>"

lemma bench_contract: "thermometer_contract bench_kernel le_target bench_i2c spec bench_printf bench_regs bench_out"
  using le_target_contract
  by (simp add: thermometer_contract_def i2c_readings_contract_def bench_i2c_def keeps_def bench_kernel_def bench_printf_def)

interpretation thermometer: sensor_printer bench_kernel
  "my_i2c_mcp9808_api_funcs True le_target bench_i2c sensor_cfg bench_printf (\<lambda>v. format_g (ucel v))" 6
  "\<lambda>st. bench_regs (snd st)" "\<lambda>st. reg_val (fst st)" reg_value "\<lambda>st. bench_out (snd st)"
  by (rule driver_is_sensor) (rule bench_contract)

theorem thermometer_prints_registers_witness:
  "\<exists>buf' data' w' t u rc.
     thread_mcp9808 False bench_kernel
       (my_i2c_mcp9808_api_funcs True le_target bench_i2c sensor_cfg bench_printf (\<lambda>v. format_g (ucel v)))
       (Some 6) [] (replicate 16 0, \<lparr>reg_val = 0\<rparr>, \<lparr>bench_regs = [0x1FF8, 0x07D1], bench_out = []\<rparr>) =
       Some (Inr (buf', data', w')) \<and>
     bench_out w' = uptime_text t @ ascii '': -0.5 C'' @ [LF] @ uptime_text u @ ascii '': 125.062 C'' @ [LF] @
       ascii ''sensor_sample_fetch error: '' @ fmt_d rc @ [LF]"
proof -
  let ?g = "\<lambda>v. format_g (ucel v)"
  let ?w = "\<lparr>bench_regs = [0x1FF8, 0x07D1], bench_out = []\<rparr>"
  have buf: "length (replicate 16 (0 :: u8)) = 16" by simp
  have rdy: "device_is_ready bench_kernel 6 (\<lparr>reg_val = 0\<rparr>, ?w)" by (simp add: bench_kernel_def)
  have reg: "my_i2c_mcp9808_temp_signed_from_reg 0x1FF8 = - 8" "my_i2c_mcp9808_temp_signed_from_reg 0x07D1 = 2001"
    by (simp_all add: signed_from_reg_value bit12_iff)
  from thermometer_prints_registers [where cfg = sensor_cfg and asrt = True and name = "[]",
      OF bench_contract format_g_contract buf rdy]
  obtain buf' data' w' ts rc and vs :: "sensor_value list" where
    r: "thread_mcp9808 False bench_kernel (my_i2c_mcp9808_api_funcs True le_target bench_i2c sensor_cfg bench_printf ?g)
       (Some 6) [] (replicate 16 0, \<lparr>reg_val = 0\<rparr>, ?w) = Some (Inr (buf', data', w'))"
      "length ts = length (bench_regs ?w)"
      "list_all2 (\<lambda>r v. val1 v * 1000000 + val2 v = my_i2c_mcp9808_temp_signed_from_reg r * 62500 \<and>
         shows_temp (?g v) (my_i2c_mcp9808_temp_signed_from_reg r * 62500)) (bench_regs ?w) vs"
      "bench_out w' = bench_out ?w @ concat (map (\<lambda>(t, v). uptime_text t @ ascii '': '' @ ?g v @ ascii '' C'' @ [LF]) (zip ts vs)) @
         ascii ''sensor_sample_fetch error: '' @ fmt_d rc @ [LF]"
    by (elim exE conjE) (rule that, assumption+)
  from r(2) obtain t u where ts: "ts = [t, u]" by (auto simp: length_Suc_conv)
  from r(3) reg obtain v v' :: sensor_value where vs: "vs = [v, v']" "ucel v = - 500000" "ucel v' = 125062500"
    by (auto simp: list_all2_Cons1 ucel_def)
  have "bench_out w' = uptime_text t @ ascii '': -0.5 C'' @ [LF] @ uptime_text u @ ascii '': 125.062 C'' @ [LF] @
      ascii ''sensor_sample_fetch error: '' @ fmt_d rc @ [LF]"
    using r(4) by (simp add: ts vs format_g_examples) (simp add: ascii_def)
  with r(1) show ?thesis by (intro exI conjI)
qed

end
