(* ===== verification/Spec2Isabelle.thy ===== *)
theory Spec2Isabelle
  imports Program_System My_Uart_Races My_Uart_B_Wired Echo_Bot_System App_System Composite_System Http_Server_System Thermometer
begin

text \<open>
  A verification library for the Zephyr application \<^verbatim>\<open>echo_bot\<close>: two UART drivers and a sensor
  driver under \<^verbatim>\<open>drivers/\<close>, and the programs of \<^verbatim>\<open>src/\<close> that \<^verbatim>\<open>src/main.c\<close> starts next to each
  other.

  \<^bold>\<open>The program and the theories.\<close> A theory models one source file unless it says otherwise; a
  definition has the name of the function it translates, with a prefix or suffix where two
  files use one name (\<^verbatim>\<open>uart_int_handler\<close> of driver B is \<open>uart_b_int_handler\<close>, \<^verbatim>\<open>handler\<close> of
  the DHCP client is \<open>dhcp_handler\<close>), and a loop or the body of a loop is a definition of its own.

  \<^item> \<open>Prelude\<close>: C's types and memory, faults, the loop combinator \<open>whileM\<close> with its rules,
    decimal formatting, the locale \<open>codec\<close>, counters of 32 bits.
  \<^item> \<open>Zephyr\<close>: the operating system's services as records of functions on an abstract world,
    and the contracts that state their documented behaviour. \<open>Sockets\<close> does the same for the
    socket calls, \<open>Relay\<close> for byte ring buffers and what the two CDC ACM programs share.
    \<open>Board\<close> is one concrete world, on which the properties are run, its timers running once
    started and its work items waiting once submitted; only the names it has for kernel calls are
    used elsewhere.
  \<^item> \<open>Framing\<close>: the locales \<open>framer\<close> and \<open>lossless_framer\<close>, of a machine that takes bytes one
    by one and puts out frames. \<open>lossless_framer\<close> is interpreted for the receive path of driver
    A, \<open>framer\<close> for the lines of driver B, for those of the echo bot and for the HTTP server's
    request states.
  \<^item> \<open>Traces\<close>: runs of a step relation, used for every system below, and the locale
    \<open>relay_line\<close>, of a system that takes things in and puts them out in order. Interpreted for
    the abstract sender \<open>Stop_And_Wait\<close>, for both directions of the composite port and, through
    \<open>queue_thread\<close>, for the two programs with a queue. \<open>Queue_Thread\<close>: the locales
    \<open>printing_thread\<close> and \<open>queue_thread\<close>, of a thread that prints what others put in a message
    queue; interpreted for the echo bot and the application thread.
  \<^item> \<open>My_Uart_Peripheral\<close> (driver A, \<^verbatim>\<open>drivers/my_uart_peripheral/driver.c\<close> and \<^verbatim>\<open>api.h\<close>): the
    buffer, string and callback of a device are the record \<open>my_uart_data\<close>. The interrupt
    handler refines a framer that cuts the received bytes at NULs and at a full buffer; setting
    and transmitting the string; initialisation. \<open>Main_My_Uart_Peripheral\<close> is its client.
    \<open>My_Uart_Races\<close> cuts the two operations that take several stores into these, and lets
    the driver's interrupts come between any two of them.
  \<^item> \<open>My_Uart_Peripheral_B\<close> (driver B, \<^verbatim>\<open>drivers/my_uart_peripheral_b\<close>) has the model,
    \<open>My_Uart_B_Protocol\<close> the lemmas on one call, \<open>My_Uart_B_System\<close> the sequences of
    interrupts, timer expiries and sends as an inductive step relation. The specification is
    \<open>Stop_And_Wait\<close>, an abstract sender that waits for an acknowledgement; the driver's handler
    is shown to be a run of it. \<open>Main_My_Uart_Peripheral_B\<close> is the client, which sends every
    line back. \<open>My_Uart_B_Progress\<close> adds the client and the timer to the system. In its step relation
    \<open>timed_step\<close> the expiry function runs only when a timer that was started expires (\<open>armed\<close>,
    \<open>guard_timer_contract\<close>, \<open>expiry_contract\<close>). The invariant \<open>awake\<close> says that a guard that is up
    has its timer running, and that a waiting message has such a guard or an interrupt that will
    send it, so that no wake-up is lost; and lines are answered by lines, acknowledgements included.
    \<open>My_Uart_B_Wired\<close> puts two such boards on one wire, as a step relation on both, with their
    timers.
  \<^item> \<open>Echo_Bot\<close> (\<^verbatim>\<open>src/main_echo_bot.c\<close>): interrupt handler, message queue, thread.
    \<open>Echo_Bot_System\<close> lets the handler interrupt the thread between any two of its steps.
  \<^item> \<open>Cdc_Acm\<close> (\<^verbatim>\<open>src/main_cdc_acm.c\<close>) and \<open>Cdc_Acm_Composite\<close>
    (\<^verbatim>\<open>src/main_cdc_acm_composite.c\<close>): an echo and a cross-over relay through ring buffers, and
    how they wait for the host: the first by a timer and a work item, whose \<open>poll_step\<close> runs each
    only when it was started or submitted, the second by loops. \<open>Composite_System\<close> states what holds of every sequence of
    interrupts on the two ports.
  \<^item> \<open>Main_App\<close> (\<^verbatim>\<open>src/main_app.c\<close>): typed messages through a queue; \<open>App_System\<close>: senders and
    thread in any order.
  \<^item> \<open>Mcp9808\<close> (\<^verbatim>\<open>drivers/my_i2c_mcp9808\<close>): register access, the register codec (an
    interpretation of \<open>codec\<close>), sampling. \<open>Main_Mcp9808\<close> (\<^verbatim>\<open>src/main_mcp9808.c\<close>) is its client,
    proved against the locales \<open>sensor\<close> and \<open>sensor_printer\<close>, which say what a sensor does;
    \<open>Thermometer\<close> shows that the driver is such a sensor and interprets them on it. \<open>Printf_G\<close>
    states what \<^verbatim>\<open>%g\<close> does (\<open>g_contract\<close>), reads its text back, and has an instance.
  \<^item> \<open>Socket_Dumb_Http\<close> (\<^verbatim>\<open>src/socket_dumb_http.c\<close>) and \<open>Http_Get\<close> (\<^verbatim>\<open>src/http_get.c\<close>): the
    HTTP server and client. \<open>Http_Server_System\<close>: the server over any sequence of clients,
    failed and interrupted calls included, what a silent client does to it, and its request states
    against the definition of a request. \<open>Main_Shell_Module\<close> and \<open>Main_Dhcpv4_Client\<close>: the shell commands
    and the DHCP client.
  \<^item> \<open>Main_Program\<close> (\<^verbatim>\<open>src/main.c\<close>): all start-up functions in their order, on one state.
    \<open>Program_System\<close>: the whole program as one system. \<open>boot\<close> initialises the devices by their
    priorities, as their \<^verbatim>\<open>DEVICE_DT_INST_DEFINE\<close>s ask for, and every \<open>event\<close> runs the entry
    point or one of the calls it makes, an interrupt handler, a timer or work item, the button of driver A or a callback of
    the network on the state of all components; the properties are of every sequence of events. The
    macros that make the devices are \<open>device_a\<close>, \<open>device_b\<close> and \<open>device_sensor\<close>, whose
    arguments are the values of the device-tree node.

  \<^bold>\<open>How code is modelled.\<close> A function takes the services it calls, its configuration and its
  state, the world \<open>'w\<close> last, and returns the new state. Kconfig values and compile-time
  options are arguments. An array is the list of its bytes, and every access checks the bounds:
  an access outside, a read of a variable nothing has been written to, a failed assertion or
  \<^verbatim>\<open>exit\<close> is a \<open>fault\<close>, the left side of \<open>checked\<close>. A loop is \<open>whileM\<close>, whose value is \<open>None\<close>
  when it does not return (no fuel is used; \<open>serve_n\<close> counts the passes of the server's endless
  loop); the theorems that say \<open>Some\<close> say that it returns, by the rules \<open>whileM_total\<close> and \<open>whileM_drain\<close>. A callback is a value \<open>'cb\<close>, and
  what calling it does is an argument that may change the driver's own state.

  \<^bold>\<open>What is relied on.\<close> Theorems are stated for every world and every implementation of the
  services that satisfies the contracts named in them; a contract speaks of projections such
  as \<open>rx w\<close>, the bytes a receiver will deliver before it reports that there are no more, bytes
  that arrive during the handler included. Each contract is shown to hold of a concrete world
  (\<open>Board\<close>, \<open>net_sock\<close>, \<open>site_sock\<close>, the bench of \<open>Thermometer\<close>), and each property with a hypothesis is run there.

  \<^bold>\<open>What the properties show.\<close> For each receive path: no write outside a buffer, and exactly the
  frames the format asks for. For driver B: at most one unacknowledged message, order kept,
  none duplicated, progress on timeouts, and no stall: a message that waits is sent after any
  events, by the transmit interrupt or the one after the running timer has expired. For the
  program: initialised and run in any order of events, no handler leaves the bounds of its
  buffers or meets a null pointer, given \<open>sizes_ok\<close> (no receive buffer is empty, the send buffer
  of driver B has fewer than 256 words and is at least six bytes longer than its receive buffer,
  which the defaults of its Kconfig do not satisfy); every component keeps the type of its state;
  the client of driver A counts its frames exactly, modulo 2 ^ 32. The bodies of the threads and
  of the shell commands are not events of this system; they have properties of their own. For the relays: nothing invented or reordered,
  and what is lost only when a ring buffer is full. For the threads: what is printed, and that
  they return when the host or the peer does its part. For the codecs: exact round trips. And,
  where the code goes wrong, the inputs on which it does: an interrupt between the two stores
  that register a callback, a string sent while it is replaced, lines that overflow the send
  path (and two boards that make any line such a line), unterminated messages, CR LF line ends, a blank line that is missed.

  \<^bold>\<open>Bounds.\<close> Words are of their C width; \<^verbatim>\<open>size_t\<close> is a \<open>nat\<close> with the 32-bit wrap-around written
  out where the code subtracts or adds; the \<^verbatim>\<open>int\<close> counters (\<^verbatim>\<open>strings\<close>, \<^verbatim>\<open>overflows\<close>, the
  server's \<^verbatim>\<open>counter\<close>) are words of 32 bits that wrap around and are printed as signed. An interrupt handler is one step: it is not
  interrupted by the thread it shares data with, which on the one processor it is not; a step
  of a thread is what it does between two calls on the queue, a step of the entry point one of
  its calls. A step of \<open>My_Uart_Races\<close> is one store.

  \<^bold>\<open>Not modelled.\<close> Zephyr itself (UART, ring buffer, timer, thread, shell, socket and DHCP
  implementations); log output, except in the DHCP client, which does nothing else; the
  look-up of a command in the tables of the shell (an argument that obeys \<open>look_contract\<close>; the
  tables themselves are modelled); preemption inside a step, elsewhere than in \<open>My_Uart_Races\<close>; the buffer
  pool printout of the HTTP server, which no configuration of the repository compiles; the web
  pages and the certificate, whose bytes are build products (the page is an argument); device
  trees, Kconfig and build files, beyond the values that are arguments.
\<close>

end
